(* ===== verification/Prelude.thy ===== *)
theory Prelude
  imports Main "HOL-Library.Word" "HOL-Library.AList"
begin

text \<open>
  What the components share: the part of Go and of its standard library that the proxy's code
  uses, with the general lemmas about it.

  A Go \<^verbatim>\<open>string\<close> is a sequence of bytes; it is modelled by HOL's \<open>string\<close>, whose characters are the
  256 byte values, and a \<^verbatim>\<open>[]byte\<close> by a list of 8-bit words. Functions of package \<^verbatim>\<open>strings\<close> that
  consult the Unicode tables (\<^verbatim>\<open>ToUpper\<close>, \<^verbatim>\<open>TrimSpace\<close>, \<^verbatim>\<open>Fields\<close>) are modelled on ASCII: a byte of
  128 and above is never a space and has no other case. A \<^verbatim>\<open>for _, r := range s\<close> loop is modelled
  exactly, by the UTF-8 decoding of the language definition.
\<close>

unbundle bit_operations_syntax

named_theorems go_defs
  \<open>definitions of the modelled standard library functions, for unfolding on concrete input\<close>
named_theorems wire_simps
  \<open>simplification of byte encodings\<close>

type_synonym byte = "8 word"
type_synonym bytes = "byte list"

section \<open>Panics\<close>

text \<open>The run-time panics the modelled code can raise.\<close>

datatype panic = IndexOutOfRange | SliceOutOfRange | MakeSliceLen | NilDereference | CloseOfClosedChannel | InvalidLabel | AlreadyRegistered

section \<open>Maps\<close>

text \<open>
  A Go map is an association list with one entry per key, so that a \<^verbatim>\<open>range\<close> over it can be written as
  a pass over its entries; results that depended on the order of the entries would not be Go's.
\<close>

type_synonym ('k, 'v) gomap = "('k \<times> 'v) list"

definition mget :: "('k, 'v) gomap \<Rightarrow> 'k \<Rightarrow> 'v option" where
  "mget m k = map_of m k"

definition mset_key :: "('k, 'v) gomap \<Rightarrow> 'k \<Rightarrow> 'v \<Rightarrow> ('k, 'v) gomap" where
  "mset_key m k v = AList.update k v m"

definition mdelete :: "('k, 'v) gomap \<Rightarrow> 'k \<Rightarrow> ('k, 'v) gomap" where
  "mdelete m k = AList.delete k m"

definition mkeys :: "('k, 'v) gomap \<Rightarrow> 'k list" where
  "mkeys m = map fst m"

definition map_ok :: "('k, 'v) gomap \<Rightarrow> bool" where
  "map_ok m \<longleftrightarrow> distinct (mkeys m)"

section \<open>Package strings\<close>

definition is_space :: "char \<Rightarrow> bool" where
  "is_space c \<longleftrightarrow> c = CHR 0x20 \<or> c = CHR 0x09 \<or> c = CHR 0x0A \<or> c = CHR 0x0B \<or> c = CHR 0x0C \<or> c = CHR 0x0D"

definition is_digit :: "char \<Rightarrow> bool" where
  "is_digit c \<longleftrightarrow> 48 \<le> (of_char c :: nat) \<and> (of_char c :: nat) \<le> 57"

definition is_alpha :: "char \<Rightarrow> bool" where
  "is_alpha c \<longleftrightarrow> 65 \<le> (of_char c :: nat) \<and> (of_char c :: nat) \<le> 90 \<or>
                97 \<le> (of_char c :: nat) \<and> (of_char c :: nat) \<le> 122"

definition upper_char :: "char \<Rightarrow> char" where
  "upper_char c = (if 97 \<le> (of_char c :: nat) \<and> (of_char c :: nat) \<le> 122 then char_of ((of_char c :: nat) - 32) else c)"

definition lower_char :: "char \<Rightarrow> char" where
  "lower_char c = (if 65 \<le> (of_char c :: nat) \<and> (of_char c :: nat) \<le> 90 then char_of ((of_char c :: nat) + 32) else c)"

definition ToUpper :: "string \<Rightarrow> string" where
  "ToUpper s = map upper_char s"

definition ToLower :: "string \<Rightarrow> string" where
  "ToLower s = map lower_char s"

definition trim_by :: "(char \<Rightarrow> bool) \<Rightarrow> string \<Rightarrow> string" where
  "trim_by p s = rev (dropWhile p (rev (dropWhile p s)))"

definition TrimSpace :: "string \<Rightarrow> string" where
  "TrimSpace s = trim_by is_space s"

definition Trim :: "string \<Rightarrow> string \<Rightarrow> string" where
  "Trim s cutset = trim_by (\<lambda>c. c \<in> set cutset) s"

definition HasPrefix :: "string \<Rightarrow> string \<Rightarrow> bool" where
  "HasPrefix s p \<longleftrightarrow> take (length p) s = p"

definition HasSuffix :: "string \<Rightarrow> string \<Rightarrow> bool" where
  "HasSuffix s p \<longleftrightarrow> length p \<le> length s \<and> drop (length s - length p) s = p"

definition TrimSuffix :: "string \<Rightarrow> string \<Rightarrow> string" where
  "TrimSuffix s p = (if HasSuffix s p then take (length s - length p) s else s)"

text \<open>\<^verbatim>\<open>strings.Index\<close>: the first position of \<open>sub\<close>, \<open>None\<close> for -1.\<close>

fun Index :: "string \<Rightarrow> string \<Rightarrow> nat option" where
  "Index [] sub = (if sub = [] then Some 0 else None)"
| "Index (c # cs) sub =
     (if HasPrefix (c # cs) sub then Some 0 else map_option Suc (Index cs sub))"

definition Contains :: "string \<Rightarrow> string \<Rightarrow> bool" where
  "Contains s sub \<longleftrightarrow> Index s sub \<noteq> None"

text \<open>\<^verbatim>\<open>strings.Split\<close> for a separator of one byte.\<close>

fun Split :: "char \<Rightarrow> string \<Rightarrow> string list" where
  "Split sep [] = [[]]"
| "Split sep (c # cs) =
     (if c = sep then [] # Split sep cs
      else (case Split sep cs of [] \<Rightarrow> [[c]] | w # ws \<Rightarrow> (c # w) # ws))"

definition CountChar :: "string \<Rightarrow> char \<Rightarrow> nat" where
  "CountChar s c = length (filter (\<lambda>d. d = c) s)"

text \<open>\<^verbatim>\<open>strings.Fields\<close>: the maximal runs of characters that are no spaces.\<close>

function Fields :: "string \<Rightarrow> string list" where
  "Fields s =
     (case dropWhile is_space s of
        [] \<Rightarrow> []
      | c # cs \<Rightarrow> (c # takeWhile (\<lambda>d. \<not> is_space d) cs) # Fields (dropWhile (\<lambda>d. \<not> is_space d) cs))"
  by pat_completeness auto
termination
proof (relation "measure length")
  fix s :: string and c cs
  assume "dropWhile is_space s = c # cs"
  then have "length cs < length s"
    by (metis length_dropWhile_le length_Cons less_eq_Suc_le)
  then show "(dropWhile (\<lambda>d. \<not> is_space d) cs, s) \<in> measure length"
    using length_dropWhile_le [of "\<lambda>d. \<not> is_space d" cs] by simp
qed simp

declare Fields.simps [simp del]

fun Join :: "string list \<Rightarrow> string \<Rightarrow> string" where
  "Join [] sep = []"
| "Join [w] sep = w"
| "Join (w # v # ws) sep = w @ sep @ Join (v # ws) sep"

lemmas [go_defs] = TrimSpace_def Trim_def trim_by_def HasPrefix_def HasSuffix_def TrimSuffix_def
  Contains_def CountChar_def ToUpper_def ToLower_def

section \<open>Package strconv\<close>

definition digit_char :: "nat \<Rightarrow> char" where
  "digit_char d = char_of (48 + d)"

fun nat_dec :: "nat \<Rightarrow> string" where
  "nat_dec n = (if n < 10 then [digit_char n] else nat_dec (n div 10) @ [digit_char (n mod 10)])"

declare nat_dec.simps [simp del]

definition Itoa :: "int \<Rightarrow> string" where
  "Itoa i = (if i < 0 then CHR ''-'' # nat_dec (nat (- i)) else nat_dec (nat i))"

definition digit_val :: "char \<Rightarrow> nat" where
  "digit_val c = (of_char c :: nat) - 48"

definition dec_val :: "string \<Rightarrow> nat" where
  "dec_val s = foldl (\<lambda>n c. 10 * n + digit_val c) 0 s"

definition max_int64 :: int where
  "max_int64 = 9223372036854775807"

text \<open>
  \<^verbatim>\<open>strconv.Atoi\<close> on a non-empty string of digits: the value and whether there is no error. Out of
  range, the value is the largest \<^verbatim>\<open>int\<close> and the error is set.
\<close>

definition Atoi :: "string \<Rightarrow> int \<times> bool" where
  "Atoi s = (if int (dec_val s) \<le> max_int64 then (int (dec_val s), True) else (max_int64, False))"

section \<open>Bytes and strings\<close>

definition byte_of :: "char \<Rightarrow> byte" where
  "byte_of c = of_nat (of_char c)"

definition char_of_byte :: "byte \<Rightarrow> char" where
  "char_of_byte b = char_of (unat b)"

definition bytes_of :: "string \<Rightarrow> bytes" where
  "bytes_of s = map byte_of s"

definition string_of :: "bytes \<Rightarrow> string" where
  "string_of bs = map char_of_byte bs"


section \<open>UTF-8: the runes a range loop visits\<close>

text \<open>
  \<^verbatim>\<open>for _, r := range s\<close> decodes \<open>s\<close> rune by rune. What the loops of the proxy do with a rune is to
  compare it with ASCII characters and to write it back with \<^verbatim>\<open>WriteRune\<close>, so a rune is represented
  by the bytes \<^verbatim>\<open>WriteRune\<close> writes for it: the bytes read for a valid encoding, the three bytes of
  U+FFFD for a byte that starts none (of which one byte is consumed).
\<close>

definition in_range :: "nat \<Rightarrow> nat \<Rightarrow> char \<Rightarrow> bool" where
  "in_range lo hi c \<longleftrightarrow> lo \<le> (of_char c :: nat) \<and> (of_char c :: nat) \<le> hi"

abbreviation is_cont :: "char \<Rightarrow> bool" where
  "is_cont \<equiv> in_range 0x80 0xBF"

definition utf8_len :: "string \<Rightarrow> nat option" where
  "utf8_len s =
     (case s of
        [] \<Rightarrow> None
      | a # t \<Rightarrow>
          if in_range 0 0x7F a then Some 1
          else if in_range 0xC2 0xDF a then
            (case t of b # _ \<Rightarrow> (if is_cont b then Some 2 else None) | _ \<Rightarrow> None)
          else if in_range 0xE0 0xEF a then
            (case t of b # c # _ \<Rightarrow>
               (if in_range (if in_range 0xE0 0xE0 a then 0xA0 else 0x80)
                            (if in_range 0xED 0xED a then 0x9F else 0xBF) b \<and> is_cont c
                then Some 3 else None) | _ \<Rightarrow> None)
          else if in_range 0xF0 0xF4 a then
            (case t of b # c # d # _ \<Rightarrow>
               (if in_range (if in_range 0xF0 0xF0 a then 0x90 else 0x80)
                            (if in_range 0xF4 0xF4 a then 0x8F else 0xBF) b \<and> is_cont c \<and> is_cont d
                then Some 4 else None) | _ \<Rightarrow> None)
          else None)"

definition rune_error :: string where
  "rune_error = [CHR 0xEF, CHR 0xBF, CHR 0xBD]"

lemma utf8_len_bounds: "utf8_len s = Some n \<Longrightarrow> 0 < n \<and> n \<le> length s"
  by (auto simp: utf8_len_def split: list.splits if_splits)

function runes :: "string \<Rightarrow> string list" where
  "runes s =
     (case s of
        [] \<Rightarrow> []
      | c # cs \<Rightarrow>
          (case utf8_len s of
             None \<Rightarrow> rune_error # runes cs
           | Some n \<Rightarrow> take n s # runes (drop n s)))"
  by pat_completeness auto
termination
proof (relation "measure length")
  fix s :: string and c cs n
  assume "s = c # cs" and "utf8_len s = Some n"
  then show "(drop n s, s) \<in> measure length"
    using utf8_len_bounds [of s n] by simp
qed simp_all

declare runes.simps [simp del]

fun valid_utf8_fuel :: "nat \<Rightarrow> string \<Rightarrow> bool" where
  "valid_utf8_fuel n [] = True"
| "valid_utf8_fuel 0 (c # cs) = False"
| "valid_utf8_fuel (Suc n) (c # cs) =
     (case utf8_len (c # cs) of None \<Rightarrow> False | Some k \<Rightarrow> valid_utf8_fuel n (drop k (c # cs)))"

text \<open>\<^verbatim>\<open>utf8.ValidString\<close>; a rune takes at least one byte, so the length is enough fuel.\<close>

definition valid_utf8 :: "string \<Rightarrow> bool" where
  "valid_utf8 s = valid_utf8_fuel (length s) s"

section \<open>Lemmas\<close>

subsection \<open>Maps\<close>

lemma mget_Nil [simp]: "mget [] k = None"
  by (simp add: mget_def)

lemma mget_mset_key [simp]: "mget (mset_key m k v) k' = (if k' = k then Some v else mget m k')"
  by (simp add: mget_def mset_key_def update_conv)

lemma mget_mdelete [simp]: "mget (mdelete m k) k' = (if k' = k then None else mget m k')"
  by (simp add: mget_def mdelete_def delete_conv)

lemma set_mkeys: "set (mkeys m) = dom (mget m)"
  using dom_map_of_conv_image_fst [of m] by (simp add: mkeys_def mget_def [abs_def])

lemma dom_mget [simp]:
  "dom (mget []) = {}"
  "dom (mget (mset_key m k v)) = insert k (dom (mget m))"
  "dom (mget (mdelete m k)) = dom (mget m) - {k}"
  by (auto simp: dom_def)

lemma map_ok_simps [simp]:
  "map_ok []"
  "map_ok m \<Longrightarrow> map_ok (mset_key m k v)"
  "map_ok m \<Longrightarrow> map_ok (mdelete m k)"
  by (simp_all add: map_ok_def mkeys_def mset_key_def mdelete_def distinct_update distinct_delete)

lemma map_ok_entry: "map_ok m \<Longrightarrow> (k, v) \<in> set m \<longleftrightarrow> mget m k = Some v"
  unfolding map_ok_def mkeys_def mget_def by (metis map_of_eq_Some_iff)

subsection \<open>Characters by their bits, for evaluation\<close>

lemma is_digit_code [code]:
  "is_digit (Char b0 b1 b2 b3 b4 b5 b6 b7) = (\<not> b7 \<and> \<not> b6 \<and> b5 \<and> b4 \<and> (\<not> b3 \<or> \<not> b2 \<and> \<not> b1))"
  by (auto simp: is_digit_def)

lemma is_alpha_code [code]:
  "is_alpha (Char b0 b1 b2 b3 b4 b5 b6 b7) =
     (\<not> b7 \<and> b6 \<and> (b0 \<or> b1 \<or> b2 \<or> b3 \<or> b4) \<and> (\<not> b4 \<or> \<not> b3 \<or> \<not> b2 \<and> \<not> (b1 \<and> b0)))"
  by (auto simp: is_alpha_def)

lemma char_of_nat_eqI: "of_char c = n mod 256 \<Longrightarrow> char_of n = c"
  for n :: nat
  by (metis char_of_char char_of_mod_256)

lemma upper_char_code [code]:
  "upper_char (Char b0 b1 b2 b3 b4 b5 b6 b7) =
     (if \<not> b7 \<and> b6 \<and> b5 \<and> (b0 \<or> b1 \<or> b2 \<or> b3 \<or> b4) \<and> (\<not> b4 \<or> \<not> b3 \<or> \<not> b2 \<and> \<not> (b1 \<and> b0))
      then Char b0 b1 b2 b3 b4 False b6 b7 else Char b0 b1 b2 b3 b4 b5 b6 b7)"
  by (auto simp: upper_char_def intro!: char_of_nat_eqI)

lemma lower_char_code [code]:
  "lower_char (Char b0 b1 b2 b3 b4 b5 b6 b7) =
     (if \<not> b7 \<and> b6 \<and> \<not> b5 \<and> (b0 \<or> b1 \<or> b2 \<or> b3 \<or> b4) \<and> (\<not> b4 \<or> \<not> b3 \<or> \<not> b2 \<and> \<not> (b1 \<and> b0))
      then Char b0 b1 b2 b3 b4 True b6 b7 else Char b0 b1 b2 b3 b4 b5 b6 b7)"
  by (auto simp: lower_char_def intro!: char_of_nat_eqI)

subsection \<open>Strings\<close>

lemma HasPrefix_append [simp]: "HasPrefix (p @ s) p"
  by (simp add: HasPrefix_def)

lemma HasPrefix_iff: "HasPrefix s p \<longleftrightarrow> (\<exists>r. s = p @ r)"
  unfolding HasPrefix_def by (metis append_eq_conv_conj append_take_drop_id)

lemma HasPrefix_Nil [simp]: "HasPrefix s []"
  by (simp add: HasPrefix_def)

lemma HasPrefix_Cons [simp]:
  "HasPrefix [] (c # p) = False"
  "HasPrefix (d # s) (c # p) = (d = c \<and> HasPrefix s p)"
  by (auto simp: HasPrefix_def)

lemma HasPrefix_code [code]:
  "HasPrefix s [] = True"
  "HasPrefix [] (c # p) = False"
  "HasPrefix (d # s) (c # p) = (d = c \<and> HasPrefix s p)"
  by simp_all

lemma Index_Some:
  "Index s sub = Some i \<Longrightarrow> i + length sub \<le> length s \<and> HasPrefix (drop i s) sub"
proof (induction s arbitrary: i)
  case Nil
  then show ?case by (simp split: if_splits)
next
  case (Cons c cs)
  show ?case
  proof (cases "HasPrefix (c # cs) sub")
    case True
    with Cons.prems have "i = 0" by simp
    moreover have "length sub \<le> length (c # cs)"
      using True unfolding HasPrefix_def by (metis length_take min.cobounded1)
    ultimately show ?thesis using True by simp
  next
    case False
    with Cons.prems obtain j where "i = Suc j" "Index cs sub = Some j"
      by auto
    with Cons.IH [of j] show ?thesis by simp
  qed
qed

lemma Index_split:
  assumes "Index s sub = Some i"
  shows "s = take i s @ sub @ drop (i + length sub) s"
proof -
  from Index_Some [OF assms] obtain r where "drop i s = sub @ r"
    by (auto simp: HasPrefix_iff)
  then have "s = take i s @ sub @ r" and "r = drop (length sub) (drop i s)"
    by (metis append_take_drop_id, metis append_eq_conv_conj)
  then show ?thesis by (simp add: add.commute)
qed

lemma trim_by_fixed:
  assumes "s \<noteq> []" and "\<not> p (hd s)" and "\<not> p (last s)"
  shows "trim_by p s = s"
proof -
  from assms have "dropWhile p s = s" and "dropWhile p (rev s) = rev s"
    by (simp_all add: dropWhile_eq_self_iff hd_rev)
  then show ?thesis by (simp add: trim_by_def)
qed

lemma trim_by_dropWhile: "trim_by p (dropWhile p s) = trim_by p s"
  by (simp add: trim_by_def dropWhile_idem)

lemma TrimSpace_space [simp]: "is_space c \<Longrightarrow> TrimSpace (c # s) = TrimSpace s"
  by (simp add: TrimSpace_def trim_by_def)

lemma TrimSpace_Nil [simp]: "TrimSpace [] = []"
  by (simp add: TrimSpace_def trim_by_def)

lemma length_trim_by: "length (trim_by p s) \<le> length s"
  unfolding trim_by_def by (metis le_trans length_dropWhile_le length_rev)

lemma Split_nonempty [simp]: "Split sep s \<noteq> []"
  by (induction s) (auto split: list.splits)

lemma length_Split: "length (Split sep s) = Suc (CountChar s sep)"
proof (induction s)
  case (Cons c cs)
  obtain w ws where "Split sep cs = w # ws"
    by (cases "Split sep cs") auto
  with Cons show ?case by (simp add: CountChar_def)
qed (simp add: CountChar_def)

lemma ToUpper_length [simp]: "length (ToUpper s) = length s"
  by (simp add: ToUpper_def)

lemma CountChar_simps [simp]:
  "CountChar [] c = 0"
  "CountChar (d # s) c = (if d = c then Suc (CountChar s c) else CountChar s c)"
  "CountChar (s @ t) c = CountChar s c + CountChar t c"
  by (simp_all add: CountChar_def)

subsection \<open>Decimal numbers\<close>

lemma of_char_digit_char [simp]: "d < 10 \<Longrightarrow> of_char (digit_char d) = (48 + d :: nat)"
  by (simp add: digit_char_def of_char_of)

lemma digit_char_props [simp]:
  assumes "d < 10"
  shows "is_digit (digit_char d)" and "digit_val (digit_char d) = d"
  using assms by (auto simp: is_digit_def digit_val_def)

lemma dec_val_snoc [simp]: "dec_val (s @ [c]) = 10 * dec_val s + digit_val c"
  by (simp add: dec_val_def)

lemma nat_dec_digits: "list_all is_digit (nat_dec n)"
proof (induction n rule: nat_dec.induct)
  case (1 n)
  then show ?case by (cases "n < 10") (simp_all add: nat_dec.simps [of n])
qed

lemma nat_dec_nonempty [simp]: "nat_dec n \<noteq> []"
  by (simp add: nat_dec.simps [of n])

lemma dec_val_nat_dec [simp]: "dec_val (nat_dec n) = n"
proof (induction n rule: nat_dec.induct)
  case (1 n)
  show ?case
  proof (cases "n < 10")
    case True
    then show ?thesis by (simp add: nat_dec.simps [of n] dec_val_def)
  next
    case False
    with 1 show ?thesis by (simp add: nat_dec.simps [of n])
  qed
qed

lemma Atoi_nat_dec: "int n \<le> max_int64 \<Longrightarrow> Atoi (nat_dec n) = (int n, True)"
  by (simp add: Atoi_def)

lemma Atoi_nonneg: "0 \<le> fst (Atoi s)"
  by (simp add: Atoi_def max_int64_def)

lemma Atoi_le: "fst (Atoi s) \<le> max_int64"
  by (simp add: Atoi_def)

subsection \<open>Bytes\<close>

lemma char_of_byte_of [simp]: "char_of_byte (byte_of c) = c"
  by (simp add: char_of_byte_def byte_of_def unat_of_nat of_char_mod_256)

lemma byte_of_char_of_byte [simp]: "byte_of (char_of_byte b) = b"
proof -
  have "unat b mod 256 = unat b"
    using unsigned_less [where 'a = nat, of b] by simp
  then show ?thesis by (simp add: char_of_byte_def byte_of_def of_char_of)
qed

lemma string_of_bytes_of [simp]: "string_of (bytes_of s) = s"
  by (simp add: string_of_def bytes_of_def comp_def)

lemma bytes_of_string_of [simp]: "bytes_of (string_of bs) = bs"
  by (simp add: string_of_def bytes_of_def comp_def)

lemma length_bytes_of [simp]: "length (bytes_of s) = length s"
  by (simp add: bytes_of_def)

lemma length_string_of [simp]: "length (string_of bs) = length bs"
  by (simp add: string_of_def)

subsection \<open>Runes\<close>

lemma runes_Nil [simp]: "runes [] = []"
  by (simp add: runes.simps)

lemma runes_ascii [simp]: "in_range 0 127 c \<Longrightarrow> runes (c # s) = [c] # runes s"
  by (simp add: runes.simps [of "c # s"] utf8_len_def)

lemma valid_utf8_fuel_runes: "valid_utf8_fuel n s \<Longrightarrow> concat (runes s) = s"
proof (induction n s rule: valid_utf8_fuel.induct)
  case (3 n c cs)
  then obtain k where k: "utf8_len (c # cs) = Some k"
    by (auto split: option.splits)
  with 3 have "concat (runes (drop k (c # cs))) = drop k (c # cs)"
    by simp
  then show ?case
    using k by (simp add: runes.simps [of "c # cs"])
qed simp_all

text \<open>Reading the runes of a valid string and writing them back gives the string.\<close>

lemma concat_runes: "valid_utf8 s \<Longrightarrow> concat (runes s) = s"
  unfolding valid_utf8_def by (rule valid_utf8_fuel_runes)

end
