(* ===== verification/WB_Types.thy ===== *)
theory WB_Types
  imports Prelude
begin

text \<open>
  The data of the write batcher, \<^verbatim>\<open>writebatch/types.go\<close> and \<^verbatim>\<open>writebatch/errors.go\<close>: values, requests, results and
  configuration; what a batch does to the outside (results sent to requests, callbacks run); and the
  database handle. The database and its drivers are not code of the repository: they are the record
  \<open>sqldb\<close> of functions on an abstract state, an argument of the executor's definitions.
\<close>

section \<open>Values\<close>

text \<open>
  A parameter of type \<^verbatim>\<open>interface{}\<close>. The signed integer types are one constructor and the unsigned ones
  another, since the code treats them alike. A finite float is given by the decimal that
  \<^verbatim>\<open>strconv.FormatFloat\<close> with precision -1 prints, the shortest one that reads back as the float:
  \<open>FDec neg m e\<close> is \<open>m * 10 ^ e\<close> with a sign. A value of any other type is its \<^verbatim>\<open>%v\<close> rendering.
\<close>

datatype gofloat = FDec bool nat int | FNaN | FInf bool

datatype govalue =
    VNil
  | VBool bool
  | VInt int
  | VUint nat
  | VFloat gofloat
  | VString string
  | VBytes bytes
  | VOther string

definition wrap64 :: "int \<Rightarrow> int" where
  "wrap64 x = sint (word_of_int x :: 64 word)"

section \<open>Requests and results\<close>

text \<open>A request is known by a number, which stands for its result channel. \<open>req_callback\<close> tells whether
  \<^verbatim>\<open>OnBatchComplete\<close> is set.\<close>

record WriteRequest =
  req_id :: nat
  req_Query :: string
  req_Params :: "govalue list"
  req_callback :: bool
  req_HasReturning :: bool

record WriteResult =
  res_AffectedRows :: int
  res_LastInsertID :: int
  res_BatchSize :: int
  res_ReturningValues :: "int list"
  res_Error :: "string option"

record Config =
  cfg_MaxBatchSize :: int
  cfg_UseCopy :: bool

definition DefaultConfig :: Config where
  "DefaultConfig = \<lparr>cfg_MaxBatchSize = 1000, cfg_UseCopy = False\<rparr>"

definition ErrManagerClosed :: string where
  "ErrManagerClosed = ''write batch manager is closed''"

text \<open>The result that carries an error only, and one that carries counts only.\<close>

definition err_result :: "string \<Rightarrow> WriteResult" where
  "err_result e = \<lparr>res_AffectedRows = 0, res_LastInsertID = 0, res_BatchSize = 0, res_ReturningValues = [],
     res_Error = Some e\<rparr>"

definition ok_result :: "int \<Rightarrow> int \<Rightarrow> int \<Rightarrow> WriteResult" where
  "ok_result affected lastID n = \<lparr>res_AffectedRows = affected, res_LastInsertID = lastID, res_BatchSize = n,
     res_ReturningValues = [], res_Error = None\<rparr>"

text \<open>What the execution of a batch does to the requests, in order: a result is sent on the channel of a
  request, or its callback is called with the size of the batch.\<close>

datatype event = Send nat WriteResult | Notify nat nat

definition send_error :: "WriteRequest list \<Rightarrow> string \<Rightarrow> event list" where
  "send_error requests e = map (\<lambda>r. Send (req_id r) (err_result e)) requests"

definition send_results :: "WriteRequest list \<Rightarrow> WriteResult list \<Rightarrow> event list" where
  "send_results requests results = map (\<lambda>(r, res). Send (req_id r) res) (zip requests results)"

definition deliver :: "nat \<Rightarrow> WriteRequest list \<Rightarrow> WriteResult list \<Rightarrow> event list" where
  "deliver n requests results =
     concat (map (\<lambda>(r, res). Send (req_id r) res # (if req_callback r then [Notify (req_id r) n] else []))
       (zip requests results))"

definition sent :: "event list \<Rightarrow> (nat \<times> WriteResult) list" where
  "sent evs = concat (map (\<lambda>e. case e of Send i r \<Rightarrow> [(i, r)] | Notify i n \<Rightarrow> []) evs)"

definition notified :: "event list \<Rightarrow> (nat \<times> nat) list" where
  "notified evs = concat (map (\<lambda>e. case e of Send i r \<Rightarrow> [] | Notify i n \<Rightarrow> [(i, n)]) evs)"

section \<open>The database handle\<close>

text \<open>
  The functions of \<^verbatim>\<open>database/sql\<close> and its drivers the executor calls, on an abstract state. A result is the
  pair of the numbers that \<^verbatim>\<open>RowsAffected\<close> and \<^verbatim>\<open>LastInsertId\<close> return (the code drops their errors).
  Transactions and statements are numbers. \<open>copy_in\<close> is \<^verbatim>\<open>pq.CopyIn\<close>; \<open>reader_handler\<close> and \<open>drop_handler\<close>
  are the MySQL driver's \<^verbatim>\<open>RegisterReaderHandler\<close> and \<^verbatim>\<open>DeregisterReaderHandler\<close>.
\<close>

record 'd sqldb =
  db_Exec :: "'d \<Rightarrow> string \<Rightarrow> govalue list \<Rightarrow> 'd \<times> (string + int \<times> int)"
  db_Begin :: "'d \<Rightarrow> 'd \<times> (string + nat)"
  db_Prepare :: "'d \<Rightarrow> string \<Rightarrow> 'd \<times> (string + nat)"
  tx_Exec :: "'d \<Rightarrow> nat \<Rightarrow> string \<Rightarrow> govalue list \<Rightarrow> 'd \<times> (string + int \<times> int)"
  tx_Prepare :: "'d \<Rightarrow> nat \<Rightarrow> string \<Rightarrow> 'd \<times> (string + nat)"
  tx_Commit :: "'d \<Rightarrow> nat \<Rightarrow> 'd \<times> string option"
  tx_Rollback :: "'d \<Rightarrow> nat \<Rightarrow> 'd"
  stmt_Exec :: "'d \<Rightarrow> nat \<Rightarrow> govalue list \<Rightarrow> 'd \<times> (string + int \<times> int)"
  stmt_QueryInt :: "'d \<Rightarrow> nat \<Rightarrow> govalue list \<Rightarrow> 'd \<times> (string + int)"
  stmt_Close :: "'d \<Rightarrow> nat \<Rightarrow> 'd \<times> string option"
  copy_in :: "string \<Rightarrow> string list \<Rightarrow> string"
  reader_handler :: "'d \<Rightarrow> string \<Rightarrow> string \<Rightarrow> 'd"
  drop_handler :: "'d \<Rightarrow> string \<Rightarrow> 'd"

section \<open>Lemmas\<close>

lemma sent_simps [simp]:
  "sent [] = []"
  "sent (Send i r # evs) = (i, r) # sent evs"
  "sent (Notify i n # evs) = sent evs"
  "sent (evs @ evs') = sent evs @ sent evs'"
  by (simp_all add: sent_def)

lemma notified_simps [simp]:
  "notified [] = []"
  "notified (Send i r # evs) = notified evs"
  "notified (Notify i n # evs) = (i, n) # notified evs"
  "notified (evs @ evs') = notified evs @ notified evs'"
  by (simp_all add: notified_def)

lemma send_error_Cons [simp]:
  "send_error [] e = []"
  "send_error (r # rs) e = Send (req_id r) (err_result e) # send_error rs e"
  by (simp_all add: send_error_def)

lemma deliver_Cons [simp]:
  "deliver n [] results = []"
  "deliver n (r # rs) (x # xs) =
     Send (req_id r) x # (if req_callback r then [Notify (req_id r) n] else []) @ deliver n rs xs"
  by (simp_all add: deliver_def)

lemma sent_send_error [simp]: "sent (send_error rs e) = map (\<lambda>r. (req_id r, err_result e)) rs"
  by (induction rs) simp_all

lemma notified_send_error [simp]: "notified (send_error rs e) = []"
  by (induction rs) simp_all

lemma sent_deliver [simp]:
  "length results = length rs \<Longrightarrow> sent (deliver n rs results) = zip (map req_id rs) results"
  by (induction results rs rule: list_induct2) simp_all

lemma notified_deliver [simp]:
  "length results = length rs \<Longrightarrow>
     notified (deliver n rs results) = map (\<lambda>r. (req_id r, n)) (filter req_callback rs)"
  by (induction results rs rule: list_induct2) simp_all

lemma sent_send_results [simp]:
  "length results = length rs \<Longrightarrow> sent (send_results rs results) = zip (map req_id rs) results"
  by (induction results rs rule: list_induct2) (simp_all add: send_results_def)

lemma notified_send_results [simp]: "notified (send_results rs results) = []"
  by (auto simp: send_results_def notified_def)

lemma result_sel [simp]:
  "res_Error (err_result e) = Some e"
  "res_BatchSize (err_result e) = 0"
  "res_Error (ok_result a l n) = None"
  "res_AffectedRows (ok_result a l n) = a"
  "res_LastInsertID (ok_result a l n) = l"
  "res_BatchSize (ok_result a l n) = n"
  by (simp_all add: err_result_def ok_result_def)

lemma wrap64_id: "- (2 ^ 63) \<le> x \<Longrightarrow> x < 2 ^ 63 \<Longrightarrow> wrap64 x = x"
  by (simp add: wrap64_def sint_sbintrunc' signed_take_bit_int_eq_self)

lemma wrap64_range: "- (2 ^ 63) \<le> wrap64 x \<and> wrap64 x < 2 ^ 63"
  using sint_ge [of "word_of_int x :: 64 word"] sint_lt [of "word_of_int x :: 64 word"]
  by (simp add: wrap64_def)

end
