(* ===== verification/WB_SQL.thy ===== *)
theory WB_SQL
  imports WB_Types
begin

text \<open>
  The text processing of the write batcher, \<^verbatim>\<open>writebatch/executor.go\<close> and \<^verbatim>\<open>manager.go\<close>: which statements can be
  combined, how the combined statements are written, how an INSERT is taken apart, and how values are
  escaped for LOAD DATA. Positions are byte positions, as in the code. A loop over the runes of a string
  that only looks for ASCII characters sees the same characters as a loop over the bytes, since a
  byte below 128 is always a rune of its own.
\<close>

section \<open>Definitions\<close>

definition hasReturningClause :: "string \<Rightarrow> bool" where
  "hasReturningClause query = Contains (ToUpper query) '' RETURNING ''"

definition truncateQuery :: "string \<Rightarrow> nat \<Rightarrow> string" where
  "truncateQuery query maxLen =
     (if length query \<le> maxLen then query else take maxLen query @ ''...'')"

text \<open>The loop of \<open>indexOf\<close>, from position \<open>i\<close> on.\<close>

function indexOf_from :: "string \<Rightarrow> string \<Rightarrow> nat \<Rightarrow> nat option" where
  "indexOf_from s substr i =
     (if i + length substr \<le> length s then
        if take (length substr) (drop i s) = substr then Some i else indexOf_from s substr (i + 1)
      else None)"
  by pat_completeness auto
termination
  by (relation "measure (\<lambda>(s, substr, i). Suc (length s) - i)") auto

declare indexOf_from.simps [simp del]

definition indexOf :: "string \<Rightarrow> string \<Rightarrow> nat option" where
  "indexOf s substr = indexOf_from s substr 0"

definition contains :: "string \<Rightarrow> string \<Rightarrow> bool" where
  "contains s substr \<longleftrightarrow>
     length s \<ge> length substr \<and>
     (s = substr \<or>
      length s > length substr \<and>
      (take (length substr) s = substr \<or> drop (length s - length substr) s = substr \<or> indexOf s substr \<noteq> None))"

definition getQueryType :: "string \<Rightarrow> string" where
  "getQueryType query =
     (let q = (if length query > 20 then take 20 query else query);
          q = '' '' @ q @ '' ''
      in if contains q '' INSERT '' \<or> contains q '' insert '' then ''INSERT''
         else if contains q '' UPDATE '' \<or> contains q '' update '' then ''UPDATE''
         else if contains q '' DELETE '' \<or> contains q '' delete '' then ''DELETE''
         else ''UNKNOWN'')"

text \<open>The loop that skips leading comments, shared by \<open>isBatchableDelete\<close> and \<open>isBatchableInsert\<close>.\<close>

function skip_comments :: "string \<Rightarrow> string" where
  "skip_comments q =
     (let q' = TrimSpace q
      in if HasPrefix q' ''/*'' then
           (case Index q' ''*/'' of
              None \<Rightarrow> q'
            | Some endIdx \<Rightarrow> skip_comments (drop (endIdx + 2) q'))
         else q')"
  by pat_completeness auto
termination
proof (relation "measure length")
  fix q q' endIdx
  assume "q' = TrimSpace q" and "HasPrefix q' ''/*''"
  then have "length q' \<le> length q" and "q' \<noteq> []"
    by (auto simp: TrimSpace_def length_trim_by)
  then show "(drop (endIdx + 2) q', q) \<in> measure length"
    by (cases q') auto
qed simp

declare skip_comments.simps [simp del]

definition isBatchableDelete :: "string \<Rightarrow> bool" where
  "isBatchableDelete query =
     (let q = skip_comments query
      in if \<not> HasPrefix (ToUpper q) ''DELETE FROM '' then False
         else case Index (ToUpper q) '' WHERE '' of
                None \<Rightarrow> False
              | Some whereIdx \<Rightarrow>
                  (let whereClause = drop (whereIdx + 7) q
                   in if length (Split (CHR ''='') whereClause) \<noteq> 2 then False
                      else if CountChar whereClause (CHR ''?'') \<noteq> 1 then False
                      else True))"

definition isBatchableInsert :: "string \<Rightarrow> bool" where
  "isBatchableInsert query =
     (let q = skip_comments query; qUpper = ToUpper q
      in length q > 12 \<and> HasPrefix qUpper ''INSERT'' \<and> Contains qUpper '' VALUES'' \<and>
         (last q = CHR '')'' \<or> last q = CHR '' ''))"

text \<open>
  The statement \<open>executeTrueBatchedDelete\<close> builds for \<open>n\<close> requests. Without a WHERE the slice
  expressions would be out of range.
\<close>

definition batched_delete :: "string \<Rightarrow> nat \<Rightarrow> panic + string" where
  "batched_delete firstQuery n =
     (case Index (ToUpper firstQuery) '' WHERE '' of
        None \<Rightarrow> Inl SliceOutOfRange
      | Some whereIdx \<Rightarrow>
          (let whereClause = drop (whereIdx + 7) firstQuery;
               keyCol = TrimSpace (hd (Split (CHR ''='') whereClause));
               baseQuery = take whereIdx firstQuery
           in Inr (baseQuery @ '' WHERE '' @ keyCol @ '' IN ('' @ Join (replicate n ''?'') '','' @ '')'')))"

definition containsPostgresPlaceholder :: "string \<Rightarrow> bool" where
  "containsPostgresPlaceholder query \<longleftrightarrow>
     (\<exists>i \<in> set [0..<length query - 1]. query ! i = CHR ''$'' \<and> is_digit (query ! (i + 1)))"

text \<open>
  The placeholders of a multi-row INSERT: \<open>row_items pg k i idx\<close> writes the items \<open>i\<close> to \<open>k - 1\<close> of a row, where
  \<open>idx\<close> is the running \<^verbatim>\<open>paramIndex\<close>, and \<open>value_rows\<close> writes the rows, each for one request.
\<close>

function row_items :: "bool \<Rightarrow> nat \<Rightarrow> nat \<Rightarrow> nat \<Rightarrow> string \<times> nat" where
  "row_items pg k i idx =
     (if i < k then
        (let sep = (if i > 0 then '','' else []);
             (item, idx') = (if pg then (''$'' @ nat_dec idx, idx + 1) else (''?'', idx));
             (rest, idx'') = row_items pg k (i + 1) idx'
         in (sep @ item @ rest, idx''))
      else ([], idx))"
  by pat_completeness auto
termination
  by (relation "measure (\<lambda>(pg, k, i, idx). k - i)") auto

declare row_items.simps [simp del]

fun value_rows :: "bool \<Rightarrow> nat \<Rightarrow> bool \<Rightarrow> nat \<Rightarrow> nat \<Rightarrow> string" where
  "value_rows pg k first idx 0 = []"
| "value_rows pg k first idx (Suc n) =
     (let (items, idx') = row_items pg k 0 idx
      in (if first then [] else '', '') @ ''('' @ items @ '')'' @ value_rows pg k False idx' n)"

text \<open>The multi-row INSERT for \<open>n\<close> requests with \<open>numParams\<close> parameters each; none if there is no VALUES.\<close>

definition multi_row_insert :: "string \<Rightarrow> nat \<Rightarrow> nat \<Rightarrow> string option" where
  "multi_row_insert firstQuery numParams n =
     (case Index (ToUpper firstQuery) ''VALUES'' of
        None \<Rightarrow> None
      | Some valuesPos \<Rightarrow>
          (let valuesIdx = valuesPos + 6; baseQuery = take valuesIdx firstQuery
           in if numParams = 0 then
                Some (baseQuery @ '' '' @ Join (replicate n (TrimSpace (drop valuesIdx firstQuery))) '', '')
              else
                Some (baseQuery @ '' '' @ value_rows (containsPostgresPlaceholder firstQuery) numParams True 1 n)))"

definition normalizeFirstInsertID :: "bool \<Rightarrow> int \<Rightarrow> nat \<Rightarrow> int" where
  "normalizeFirstInsertID firstInsertIDIsFirst rawID batchSize =
     (if firstInsertIDIsFirst then rawID else wrap64 (rawID - (int batchSize - 1)))"

datatype insert_error = NotAnInsert | MissingInto | NoTableName | MissingColumnList | UnclosedColumnList

fun find_char :: "(char \<Rightarrow> bool) \<Rightarrow> string \<Rightarrow> nat option" where
  "find_char p [] = None"
| "find_char p (c # cs) = (if p c then Some 0 else map_option Suc (find_char p cs))"

definition parseInsertStatement :: "string \<Rightarrow> insert_error + string \<times> string list" where
  "parseInsertStatement query =
     (let q = TrimSpace query; upperQ = ToUpper q
      in case Index upperQ ''INSERT'' of
           None \<Rightarrow> Inl NotAnInsert
         | Some insertPos \<Rightarrow>
      (case Index (drop insertPos upperQ) ''INTO'' of
         None \<Rightarrow> Inl MissingInto
       | Some into \<Rightarrow>
      (let intoPos = into + (insertPos + 4);
           remaining = TrimSpace (drop intoPos q)
       in case find_char (\<lambda>ch. ch = CHR ''('' \<or> ch = CHR '' '') remaining of
            None \<Rightarrow> Inl NoTableName
          | Some tableEnd \<Rightarrow>
      (let tableName = TrimSpace (take tableEnd remaining)
       in case Index remaining ''('' of
            None \<Rightarrow> Inl MissingColumnList
          | Some openParen \<Rightarrow>
      (if Contains (ToUpper (drop tableEnd (take openParen remaining))) ''VALUES'' then Inl MissingColumnList
       else case Index (drop openParen remaining) '')'' of
            None \<Rightarrow> Inl UnclosedColumnList
          | Some closeParen \<Rightarrow>
              (let columnList = drop (openParen + 1) (take (openParen + closeParen) remaining)
               in Inr (tableName, map TrimSpace (Split (CHR '','') columnList))))))))"

fun is_simple :: "govalue \<Rightarrow> bool" where
  "is_simple (VOther s) = False"
| "is_simple v = True"

definition allParamsAreSimple :: "WriteRequest list \<Rightarrow> bool" where
  "allParamsAreSimple requests = list_all (\<lambda>req. list_all is_simple (req_Params req)) requests"

text \<open>\<^verbatim>\<open>strconv.FormatFloat\<close> with format f and precision -1.\<close>

fun FormatFloat :: "gofloat \<Rightarrow> string" where
  "FormatFloat FNaN = ''NaN''"
| "FormatFloat (FInf neg) = (if neg then ''-Inf'' else ''+Inf'')"
| "FormatFloat (FDec neg m e) =
     (let ds = nat_dec m; k = nat (- e)
      in (if neg then ''-'' else []) @
         (if e \<ge> 0 then (if m = 0 then ds else ds @ replicate (nat e) (CHR ''0''))
          else if k < length ds then take (length ds - k) ds @ ''.'' @ drop (length ds - k) ds
          else ''0.'' @ replicate (k - length ds) (CHR ''0'') @ ds))"

definition escape_rune :: "string \<Rightarrow> string" where
  "escape_rune r =
     (if r = [CHR 0x5C] then [CHR 0x5C, CHR 0x5C]
      else if r = [CHR 0x09] then [CHR 0x5C, CHR ''t'']
      else if r = [CHR 0x0A] then [CHR 0x5C, CHR ''n'']
      else if r = [CHR 0x0D] then [CHR 0x5C, CHR ''r'']
      else r)"

definition escapeLoadDataString :: "string \<Rightarrow> string" where
  "escapeLoadDataString s = concat (map escape_rune (runes s))"

fun formatLoadDataParam :: "govalue \<Rightarrow> string" where
  "formatLoadDataParam VNil = [CHR 0x5C, CHR ''N'']"
| "formatLoadDataParam (VBool b) = (if b then ''1'' else ''0'')"
| "formatLoadDataParam (VInt i) = Itoa i"
| "formatLoadDataParam (VUint n) = nat_dec n"
| "formatLoadDataParam (VFloat f) = FormatFloat f"
| "formatLoadDataParam (VString s) = escapeLoadDataString s"
| "formatLoadDataParam (VBytes bs) = escapeLoadDataString (string_of bs)"
| "formatLoadDataParam (VOther s) = escapeLoadDataString s"

text \<open>The payload of a LOAD DATA batch: a line per request, its fields separated by tabs.\<close>

fun payload_fields :: "bool \<Rightarrow> govalue list \<Rightarrow> string" where
  "payload_fields first [] = []"
| "payload_fields first (p # ps) =
     (if first then [] else [CHR 0x09]) @ formatLoadDataParam p @ payload_fields False ps"

definition load_payload :: "WriteRequest list \<Rightarrow> string" where
  "load_payload requests = concat (map (\<lambda>req. payload_fields True (req_Params req) @ [CHR 0x0A]) requests)"

definition load_query :: "string \<Rightarrow> string \<Rightarrow> string list \<Rightarrow> string" where
  "load_query handlerName tableName columns =
     ''LOAD DATA LOCAL INFILE '' @ [CHR 0x27] @ ''Reader::'' @ handlerName @ [CHR 0x27] @ '' INTO TABLE `'' @ tableName
       @ ''` ('' @ Join (map (\<lambda>col. ''`'' @ col @ ''`'') columns) '', '' @ '')''"

section \<open>Substrings\<close>

lemma Index_append_left: "Index s sub \<noteq> None \<Longrightarrow> Index (a @ s) sub \<noteq> None"
  by (induction a) auto

lemma HasPrefix_append_right: "HasPrefix s sub \<Longrightarrow> HasPrefix (s @ b) sub"
  by (auto simp: HasPrefix_iff)

lemma Index_append_right: "Index s sub = Some i \<Longrightarrow> Index (s @ b) sub = Some i"
proof (induction s arbitrary: i)
  case Nil
  then show ?case by (cases b) (auto split: if_splits)
next
  case (Cons c cs)
  show ?case
  proof (cases "HasPrefix (c # cs) sub")
    case True
    with Cons.prems HasPrefix_append_right [OF True, of b] show ?thesis by simp
  next
    case False
    with Cons.prems obtain j where j: "i = Suc j" "Index cs sub = Some j"
      by auto
    have "length sub \<le> length cs"
      using Index_Some [OF j(2)] by simp
    then have "\<not> HasPrefix (c # cs @ b) sub"
      using False by (auto simp: HasPrefix_def take_Cons' split: if_splits)
    with Cons.IH [OF j(2)] j show ?thesis by simp
  qed
qed

lemma Contains_substring: "Contains s sub \<Longrightarrow> Contains (a @ s @ b) sub"
  unfolding Contains_def using Index_append_left Index_append_right by (metis not_None_eq)

lemma ToUpper_append [simp]: "ToUpper (a @ b) = ToUpper a @ ToUpper b"
  by (simp add: ToUpper_def)

lemma ToUpper_take: "ToUpper (take n s) = take n (ToUpper s)"
  by (simp add: ToUpper_def take_map)

lemma ToUpper_drop: "ToUpper (drop n s) = drop n (ToUpper s)"
  by (simp add: ToUpper_def drop_map)

lemma trim_by_substring: "\<exists>a b. s = a @ trim_by p s @ b"
proof -
  let ?d = "dropWhile p s"
  have "s = takeWhile p s @ ?d"
    by simp
  moreover have "?d = rev (dropWhile p (rev ?d)) @ rev (takeWhile p (rev ?d))"
    by (metis rev_append rev_rev_ident takeWhile_dropWhile_id)
  ultimately show ?thesis
    unfolding trim_by_def by metis
qed

lemma skip_comments_substring: "\<exists>a b. q = a @ skip_comments q @ b"
proof (induction q rule: skip_comments.induct)
  case (1 q)
  obtain a b where ab: "q = a @ TrimSpace q @ b"
    unfolding TrimSpace_def using trim_by_substring by blast
  show ?case
  proof (cases "HasPrefix (TrimSpace q) ''/*'' \<and> Index (TrimSpace q) ''*/'' \<noteq> None")
    case True
    then obtain e where e: "Index (TrimSpace q) ''*/'' = Some e" by blast
    with True 1 obtain a' b' where
      "drop (e + 2) (TrimSpace q) = a' @ skip_comments (drop (e + 2) (TrimSpace q)) @ b'"
      by blast
    moreover have "skip_comments q = skip_comments (drop (e + 2) (TrimSpace q))"
      using True e by (simp add: skip_comments.simps [of q] Let_def)
    ultimately have "q = (a @ take (e + 2) (TrimSpace q) @ a') @ skip_comments q @ (b' @ b)"
      using ab by (metis append.assoc append_take_drop_id)
    then show ?thesis by blast
  next
    case False
    then have "skip_comments q = TrimSpace q"
      by (auto simp: skip_comments.simps [of q] Let_def split: option.splits)
    with ab show ?thesis by metis
  qed
qed

lemma isBatchableDelete_where:
  assumes "isBatchableDelete query"
  shows "Index (ToUpper query) '' WHERE '' \<noteq> None"
proof -
  obtain a b where q: "query = a @ skip_comments query @ b"
    using skip_comments_substring by blast
  have "Contains (ToUpper (skip_comments query)) '' WHERE ''"
    using assms by (auto simp: isBatchableDelete_def Let_def Contains_def split: if_splits option.splits)
  then have "Contains (ToUpper a @ ToUpper (skip_comments query) @ ToUpper b) '' WHERE ''"
    by (rule Contains_substring)
  then show ?thesis
    unfolding Contains_def using q by (metis ToUpper_append)
qed

section \<open>Combined statements\<close>

lemma Join_snoc: "Join (ws @ [w]) sep = (if ws = [] then w else Join ws sep @ sep @ w)"
  by (induction ws sep rule: Join.induct) simp_all

lemma Join_upt:
  "Join (map f [0..<n]) sep = concat (map (\<lambda>j. (if j > 0 then sep else []) @ f j) [0..<n])"
  by (induction n) (auto simp: Join_snoc)

definition item :: "bool \<Rightarrow> nat \<Rightarrow> string" where
  "item pg idx = (if pg then ''$'' @ nat_dec idx else ''?'')"

lemma row_items_concat:
  "i \<le> k \<Longrightarrow> row_items pg k i idx =
     (concat (map (\<lambda>j. (if j > 0 then '','' else []) @ item pg (idx + j - i)) [i..<k]),
      if pg then idx + (k - i) else idx)"
proof (induction pg k i idx rule: row_items.induct)
  case (1 pg k i idx)
  show ?case
  proof (cases "i < k")
    case True
    let ?idx = "if pg then idx + 1 else idx"
    have it: "(if pg then (''$'' @ nat_dec idx, idx + 1) else (''?'', idx)) = (item pg idx, ?idx)"
      by (simp add: item_def)
    have upt: "[i..<k] = i # [Suc i..<k]"
      using True by (rule upt_conv_Cons)
    have "row_items pg k (i + 1) ?idx =
        (concat (map (\<lambda>j. (if j > 0 then '','' else []) @ item pg (?idx + j - (i + 1))) [i + 1..<k]),
         if pg then ?idx + (k - (i + 1)) else ?idx)"
      using 1(1) [OF True refl it [symmetric] refl] True by simp
    moreover have "map (\<lambda>j. (if j > 0 then '','' else []) @ item pg (?idx + j - (i + 1))) [i + 1..<k]
        = map (\<lambda>j. (if j > 0 then '','' else []) @ item pg (idx + j - i)) [Suc i..<k]"
      by (auto simp: item_def)
    ultimately show ?thesis
      using True by (simp add: row_items.simps [of pg k i] it Let_def upt item_def Suc_diff_Suc)
  next
    case False
    with 1(2) show ?thesis by (simp add: row_items.simps [of _ k k])
  qed
qed

definition value_row :: "bool \<Rightarrow> nat \<Rightarrow> nat \<Rightarrow> string" where
  "value_row pg k idx = ''('' @ Join (map (\<lambda>j. item pg (idx + j)) [0..<k]) '','' @ '')''"

lemma row_items_Join:
  "row_items pg k 0 idx = (Join (map (\<lambda>j. item pg (idx + j)) [0..<k]) '','', if pg then idx + k else idx)"
  by (simp add: row_items_concat Join_upt)

lemma value_rows_concat:
  "value_rows pg k first idx n =
     concat (map (\<lambda>r. (if first \<and> r = 0 then [] else '', '') @ value_row pg k (idx + r * k)) [0..<n])"
proof (induction n arbitrary: first idx)
  case (Suc n)
  have upt: "[0..<Suc n] = 0 # map Suc [0..<n]"
    by (simp add: map_Suc_upt upt_conv_Cons)
  have same: "value_row pg k (if pg then idx + k + r * k else idx + r * k) = value_row pg k (idx + k + r * k)" for r
    by (simp add: value_row_def item_def)
  have "value_rows pg k False (if pg then idx + k else idx) n =
      concat (map (\<lambda>r. '', '' @ value_row pg k (idx + k + r * k)) [0..<n])"
    using Suc.IH [of False] same by (cases pg) (simp_all add: value_row_def item_def)
  then show ?case
    by (simp add: upt row_items_Join value_row_def comp_def algebra_simps del: upt_Suc)
qed simp

lemma multi_row_insert_rows:
  assumes "Index (ToUpper q) ''VALUES'' = Some v" and "k > 0"
  shows "multi_row_insert q k n = Some (take (v + 6) q @ '' '' @
    Join (map (\<lambda>r. value_row (containsPostgresPlaceholder q) k (r * k + 1)) [0..<n]) '', '')"
proof -
  have "concat (map (\<lambda>r. (if r = 0 then [] else '', '') @ value_row pg k (Suc (r * k))) [0..<n])
      = concat (map (\<lambda>j. (if j > 0 then '', '' else []) @ value_row pg k (Suc (j * k))) [0..<n])" for pg
    by (intro arg_cong [where f = concat] map_cong) auto
  with assms show ?thesis
    by (simp add: multi_row_insert_def Let_def value_rows_concat Join_upt)
qed

section \<open>LOAD DATA\<close>

fun unescape :: "string \<Rightarrow> string" where
  "unescape [] = []"
| "unescape [c] = [c]"
| "unescape (c # d # s) =
     (if c = CHR 0x5C then
        (if d = CHR ''t'' then CHR 0x09 else if d = CHR ''n'' then CHR 0x0A else if d = CHR ''r'' then CHR 0x0D else d)
          # unescape s
      else c # unescape (d # s))"

definition field_value :: "string \<Rightarrow> string option" where
  "field_value f = (if f = [CHR 0x5C, CHR ''N''] then None else Some (unescape f))"

definition load_rows :: "string \<Rightarrow> string option list list" where
  "load_rows payload = map (\<lambda>l. map field_value (Split (CHR 0x09) l)) (butlast (Split (CHR 0x0A) payload))"

fun param_text :: "govalue \<Rightarrow> string option" where
  "param_text VNil = None"
| "param_text (VString s) = Some s"
| "param_text (VBytes bs) = Some (string_of bs)"
| "param_text (VOther s) = Some s"
| "param_text v = Some (formatLoadDataParam v)"

fun utf8_param :: "govalue \<Rightarrow> bool" where
  "utf8_param (VString s) = valid_utf8 s"
| "utf8_param (VBytes bs) = valid_utf8 (string_of bs)"
| "utf8_param (VOther s) = valid_utf8 s"
| "utf8_param v = True"

lemma unescape_plain: "c \<noteq> CHR 0x5C \<Longrightarrow> unescape (c # s) = c # unescape s"
  by (cases s) simp_all

lemma unescape_no_backslash: "CHR 0x5C \<notin> set r \<Longrightarrow> unescape (r @ s) = r @ unescape s"
  by (induction r) (auto simp: unescape_plain)

definition rune_ok :: "string \<Rightarrow> bool" where
  "rune_ok r \<longleftrightarrow> r \<noteq> [] \<and> (length r = 1 \<or> (\<forall>c \<in> set r. \<not> in_range 0 127 c))"

lemma utf8_len_rune:
  assumes "utf8_len s = Some n"
  shows "rune_ok (take n s)"
proof (cases s)
  case (Cons a t)
  with assms show ?thesis
    by (simp add: utf8_len_def rune_ok_def split: if_splits)
       (auto simp: in_range_def take_Cons' split: list.splits if_splits)
qed (use assms in \<open>simp add: utf8_len_def\<close>)

lemma runes_ok: "r \<in> set (runes s) \<Longrightarrow> rune_ok r"
proof (induction s rule: runes.induct)
  case (1 s)
  show ?case
  proof (cases s)
    case Nil
    with 1 show ?thesis by simp
  next
    case (Cons c cs)
    show ?thesis
    proof (cases "utf8_len s")
      case None
      with Cons 1(3) have "r = rune_error \<or> r \<in> set (runes cs)"
        by (simp add: runes.simps [of "c # cs"])
      with 1(1) [OF Cons None] show ?thesis
        by (auto simp: rune_error_def rune_ok_def in_range_def)
    next
      case (Some n)
      with Cons 1(3) have "r = take n s \<or> r \<in> set (runes (drop n s))"
        by (simp add: runes.simps [of "c # cs"])
      with 1(2) [OF Cons Some] utf8_len_rune [OF Some] show ?thesis by blast
    qed
  qed
qed

lemma unescape_rune: "rune_ok r \<Longrightarrow> unescape (escape_rune r @ s) = r @ unescape s"
proof -
  assume ok: "rune_ok r"
  show ?thesis
  proof (cases "CHR 0x5C \<in> set r")
    case True
    with ok have "r = [CHR 0x5C]"
      by (auto simp: rune_ok_def in_range_def length_Suc_conv)
    then show ?thesis by (simp add: escape_rune_def)
  next
    case False
    then show ?thesis by (auto simp: escape_rune_def unescape_no_backslash unescape_plain)
  qed
qed

lemma unescape_escape_runes:
  "\<forall>r \<in> set rs. rune_ok r \<Longrightarrow> unescape (concat (map escape_rune rs)) = concat rs"
  by (induction rs) (simp_all add: unescape_rune)

lemma unescape_escape: "unescape (escapeLoadDataString s) = concat (runes s)"
  unfolding escapeLoadDataString_def by (rule unescape_escape_runes) (simp add: runes_ok)

definition special :: "char set" where
  "special = {CHR 0x09, CHR 0x0A}"

lemma escape_rune_special: "rune_ok r \<Longrightarrow> set (escape_rune r) \<inter> special = {}"
  by (auto simp: escape_rune_def special_def rune_ok_def in_range_def length_Suc_conv)

lemma escape_special: "set (escapeLoadDataString s) \<inter> special = {}"
  using escape_rune_special runes_ok [of _ s] by (fastforce simp: escapeLoadDataString_def)

lemma escape_not_null: "escapeLoadDataString s \<noteq> [CHR 0x5C, CHR ''N'']"
proof (cases "runes s")
  case (Cons r rs)
  then have ok: "rune_ok r"
    using runes_ok [of r s] by simp
  show ?thesis
  proof
    assume "escapeLoadDataString s = [CHR 0x5C, CHR ''N'']"
    then have e: "escape_rune r @ concat (map escape_rune rs) = [CHR 0x5C, CHR ''N'']"
      using Cons by (simp add: escapeLoadDataString_def)
    show False
    proof (cases "CHR 0x5C \<in> set r")
      case True
      with ok have "r = [CHR 0x5C]"
        by (auto simp: rune_ok_def in_range_def length_Suc_conv)
      with e show ?thesis by (simp add: escape_rune_def)
    next
      case False
      with e ok show ?thesis
        by (cases r) (auto simp: escape_rune_def rune_ok_def split: if_splits)
    qed
  qed
qed (simp add: escapeLoadDataString_def)

definition plain_field :: "string \<Rightarrow> bool" where
  "plain_field f \<longleftrightarrow> set f \<inter> special = {} \<and> CHR 0x5C \<notin> set f"

lemma digits_plain: "list_all is_digit ds \<Longrightarrow> plain_field ds"
  by (auto simp: plain_field_def special_def list_all_iff is_digit_def)

lemma plain_append [simp]:
  "plain_field []"
  "plain_field (a @ b) = (plain_field a \<and> plain_field b)"
  "plain_field (c # b) = (c \<notin> special \<and> c \<noteq> CHR 0x5C \<and> plain_field b)"
  by (auto simp: plain_field_def)

lemma plain_take_drop: "plain_field f \<Longrightarrow> plain_field (take n f)" "plain_field f \<Longrightarrow> plain_field (drop n f)"
  by (auto simp: plain_field_def dest: in_set_takeD in_set_dropD)

lemma plain_nat_dec [simp]: "plain_field (nat_dec n)"
  by (rule digits_plain [OF nat_dec_digits])

lemma plain_zeros [simp]: "plain_field (replicate n (CHR ''0''))"
  by (auto simp: plain_field_def special_def)

lemma plain_float: "plain_field (FormatFloat f)"
  by (cases f) (auto simp: Let_def special_def plain_take_drop)

lemma plain_field_value: "plain_field f \<Longrightarrow> field_value f = Some f"
  using unescape_no_backslash [of f "[]"] by (auto simp: plain_field_def field_value_def)

lemma field_value_escape: "valid_utf8 s \<Longrightarrow> field_value (escapeLoadDataString s) = Some s"
  by (simp add: field_value_def escape_not_null unescape_escape concat_runes)

lemma field_value_null: "field_value [CHR 0x5C, CHR ''N''] = None"
  by (simp add: field_value_def)

lemma plain_Itoa: "plain_field (Itoa i)"
  by (simp add: Itoa_def special_def)

lemma field_value_param: "utf8_param p \<Longrightarrow> field_value (formatLoadDataParam p) = param_text p"
  by (cases p) (auto simp: field_value_escape field_value_null plain_field_value plain_float plain_Itoa special_def)

lemma format_special: "set (formatLoadDataParam p) \<inter> special = {}"
proof -
  have "plain_field f \<Longrightarrow> set f \<inter> special = {}" for f
    by (simp add: plain_field_def)
  then show ?thesis
    using plain_float plain_Itoa plain_nat_dec escape_special by (cases p) (auto simp: special_def)
qed

lemma Split_none: "sep \<notin> set a \<Longrightarrow> Split sep a = [a]"
  by (induction a) auto

lemma Split_append: "sep \<notin> set a \<Longrightarrow> Split sep (a @ sep # b) = a # Split sep b"
  by (induction a) auto

lemma Split_fields:
  "ps \<noteq> [] \<Longrightarrow> Split (CHR 0x09) (payload_fields True ps) = map formatLoadDataParam ps"
proof -
  have rest: "Split (CHR 0x09) (formatLoadDataParam p @ payload_fields False ps) =
      formatLoadDataParam p # map formatLoadDataParam ps" for p ps
  proof (induction ps arbitrary: p)
    case Nil
    then show ?case using format_special [of p] by (simp add: Split_none special_def)
  next
    case (Cons q ps)
    then show ?case using format_special [of p] by (simp add: Split_append special_def)
  qed
  show "ps \<noteq> [] \<Longrightarrow> ?thesis"
    using rest by (cases ps) auto
qed

lemma fields_no_newline: "CHR 0x0A \<notin> set (payload_fields first ps)"
  using format_special by (induction ps arbitrary: first) (auto simp: special_def)

lemma Split_payload:
  "Split (CHR 0x0A) (load_payload rs) = map (\<lambda>r. payload_fields True (req_Params r)) rs @ [[]]"
  unfolding load_payload_def
  by (induction rs) (simp_all add: Split_append fields_no_newline)

lemma load_rows_payload:
  assumes "\<forall>r \<in> set rs. req_Params r \<noteq> [] \<and> list_all utf8_param (req_Params r)"
  shows "load_rows (load_payload rs) = map (\<lambda>r. map param_text (req_Params r)) rs"
  using assms
  by (auto simp: load_rows_def Split_payload Split_fields list_all_iff field_value_param)

section \<open>Searching\<close>

lemma Contains_iff: "Contains s sub \<longleftrightarrow> (\<exists>a b. s = a @ sub @ b)"
proof
  assume "Contains s sub"
  then obtain i where "Index s sub = Some i"
    by (auto simp: Contains_def)
  from Index_split [OF this] show "\<exists>a b. s = a @ sub @ b"
    by blast
next
  have "Contains sub sub"
    by (cases sub) (simp_all add: Contains_def HasPrefix_def)
  then show "\<exists>a b. s = a @ sub @ b \<Longrightarrow> Contains s sub"
    using Contains_substring by blast
qed

lemma all_from: "(\<forall>j. i \<le> j \<longrightarrow> Q j) \<longleftrightarrow> Q i \<and> (\<forall>j. i + 1 \<le> j \<longrightarrow> Q j)"
  for i :: nat
  by (metis Suc_eq_plus1 Suc_leD Suc_leI le_neq_implies_less le_refl)

lemma indexOf_from_None:
  "indexOf_from s sub i = None \<longleftrightarrow> (\<forall>j. i \<le> j \<longrightarrow> j + length sub \<le> length s \<longrightarrow> take (length sub) (drop j s) \<noteq> sub)"
proof (induction s sub i rule: indexOf_from.induct)
  case (1 s sub i)
  show ?case
  proof (cases "i + length sub \<le> length s \<and> take (length sub) (drop i s) \<noteq> sub")
    case True
    with 1 have "indexOf_from s sub (i + 1) = None \<longleftrightarrow>
        (\<forall>j. i + 1 \<le> j \<longrightarrow> j + length sub \<le> length s \<longrightarrow> take (length sub) (drop j s) \<noteq> sub)"
      by blast
    moreover have "indexOf_from s sub i = indexOf_from s sub (i + 1)"
      using True by (subst indexOf_from.simps) simp
    ultimately show ?thesis
      using True by (subst all_from) simp
  next
    case False
    then show ?thesis
      by (subst indexOf_from.simps) auto
  qed
qed

lemma indexOf_substring: "indexOf s sub \<noteq> None \<longleftrightarrow> (\<exists>a b. s = a @ sub @ b)"
proof -
  have "(\<exists>j. j + length sub \<le> length s \<and> take (length sub) (drop j s) = sub) \<longleftrightarrow> (\<exists>a b. s = a @ sub @ b)"
  proof
    assume "\<exists>j. j + length sub \<le> length s \<and> take (length sub) (drop j s) = sub"
    then obtain j where "take (length sub) (drop j s) = sub" by blast
    then have "s = take j s @ sub @ drop (length sub) (drop j s)"
      by (metis append_take_drop_id)
    then show "\<exists>a b. s = a @ sub @ b" by blast
  next
    assume "\<exists>a b. s = a @ sub @ b"
    then obtain a b where "s = a @ sub @ b" by blast
    then show "\<exists>j. j + length sub \<le> length s \<and> take (length sub) (drop j s) = sub"
      by (intro exI [of _ "length a"]) simp
  qed
  then show ?thesis
    unfolding indexOf_def indexOf_from_None by auto
qed

lemma contains_substring: "contains s sub \<longleftrightarrow> (\<exists>a b. s = a @ sub @ b)"
proof
  assume "contains s sub"
  then consider "s = sub" | "take (length sub) s = sub" | "drop (length s - length sub) s = sub" | "indexOf s sub \<noteq> None"
    unfolding contains_def by blast
  then show "\<exists>a b. s = a @ sub @ b"
  proof cases
    case 1
    then show ?thesis by (intro exI [of _ "[]"]) simp
  next
    case 2
    then show ?thesis by (metis append_Nil append_take_drop_id)
  next
    case 3
    then show ?thesis by (metis append_Nil2 append_take_drop_id)
  next
    case 4
    then show ?thesis by (rule indexOf_substring [THEN iffD1])
  qed
next
  assume ex: "\<exists>a b. s = a @ sub @ b"
  then have "length sub \<le> length s" by auto
  moreover have "indexOf s sub \<noteq> None"
    using ex by (rule indexOf_substring [THEN iffD2])
  moreover have "s = sub" if "length s = length sub"
    using ex that by auto
  ultimately show "contains s sub"
    unfolding contains_def by (metis le_neq_implies_less)
qed

section \<open>Statements in the usual layout\<close>

lemma TrimSpace_id: "s \<noteq> [] \<Longrightarrow> \<not> is_space (hd s) \<Longrightarrow> \<not> is_space (last s) \<Longrightarrow> TrimSpace s = s"
  unfolding TrimSpace_def by (rule trim_by_fixed)

lemma skip_comments_id:
  "s \<noteq> [] \<Longrightarrow> \<not> is_space (hd s) \<Longrightarrow> \<not> is_space (last s) \<Longrightarrow> hd s \<noteq> CHR ''/'' \<Longrightarrow> skip_comments s = s"
  by (subst skip_comments.simps) (cases s, simp_all add: TrimSpace_id)

lemma Index_skip:
  assumes "\<forall>c \<in> set a. c \<noteq> d" and "sub = d # sub'"
  shows "Index (a @ s) sub = map_option ((+) (length a)) (Index s sub)"
  using assms
proof (induction a)
  case Nil
  then show ?case by (simp add: option.map_ident)
next
  case (Cons c a)
  then show ?case by (simp add: option.map_comp comp_def)
qed

lemma upper_char_space: "upper_char c = CHR '' '' \<longleftrightarrow> c = CHR '' ''"
  by (cases c) (auto simp: upper_char_code split: if_splits)

lemma HasPrefix_word:
  assumes "\<forall>c \<in> set t. c \<noteq> CHR '' ''" and "\<forall>c \<in> set w. c \<noteq> CHR '' ''"
  shows "HasPrefix (t @ CHR '' '' # s) (w @ '' '') \<longleftrightarrow> t = w"
  using assms
proof (induction t arbitrary: w)
  case Nil
  then show ?case by (cases w) auto
next
  case (Cons c t)
  then show ?case by (cases w) auto
qed

lemma delete_where_index:
  assumes "\<forall>c \<in> set tbl. c \<noteq> CHR '' ''" and "ToUpper tbl \<noteq> ''WHERE''"
  shows "Index (ToUpper (''DELETE FROM '' @ tbl @ '' WHERE '' @ rest)) '' WHERE '' = Some (12 + length tbl)"
proof -
  let ?T = "ToUpper tbl"
  have T: "\<forall>c \<in> set ?T. c \<noteq> CHR '' ''"
    using assms(1) by (auto simp: ToUpper_def upper_char_space)
  have up: "ToUpper (''DELETE FROM '' @ tbl @ '' WHERE '' @ rest) = ''DELETE FROM '' @ ?T @ '' WHERE '' @ ToUpper rest"
    by (simp add: ToUpper_def upper_char_def)
  have "\<not> HasPrefix (?T @ '' WHERE '' @ ToUpper rest) (''WHERE'' @ '' '')"
    using HasPrefix_word [OF T, of "''WHERE''"] assms(2) by simp
  moreover have "Index (?T @ '' WHERE '' @ ToUpper rest) '' WHERE '' = Some (length tbl)"
    using Index_skip [OF T, of "'' WHERE ''"] by simp
  ultimately show ?thesis
    unfolding up by simp
qed

lemma CountChar_0: "CountChar s c = 0 \<longleftrightarrow> c \<notin> set s"
  by (auto simp: CountChar_def filter_empty_conv)

lemma batched_delete_usual:
  assumes "\<forall>c \<in> set tbl. c \<noteq> CHR '' ''" and "ToUpper tbl \<noteq> ''WHERE''"
    and "key \<noteq> []" and "\<forall>c \<in> set key. \<not> is_space c \<and> c \<noteq> CHR ''='' \<and> c \<noteq> CHR ''?''"
  shows "isBatchableDelete (''DELETE FROM '' @ tbl @ '' WHERE '' @ key @ '' = ?'')"
    and "batched_delete (''DELETE FROM '' @ tbl @ '' WHERE '' @ key @ '' = ?'') n =
      Inr (''DELETE FROM '' @ tbl @ '' WHERE '' @ key @ '' IN ('' @ Join (replicate n ''?'') '','' @ '')'')"
proof -
  define q where "q = ''DELETE FROM '' @ tbl @ '' WHERE '' @ key @ '' = ?''"
  have idx: "Index (ToUpper q) '' WHERE '' = Some (12 + length tbl)"
    unfolding q_def by (rule delete_where_index [OF assms(1,2)])
  have clause: "drop (19 + length tbl) q = key @ '' = ?''" and base: "take (12 + length tbl) q = ''DELETE FROM '' @ tbl"
    unfolding q_def by (simp_all add: eval_nat_numeral)
  have "skip_comments q = q"
    unfolding q_def by (rule skip_comments_id) (auto simp: is_space_def)
  moreover have "HasPrefix (ToUpper q) ''DELETE FROM ''"
    unfolding q_def by (simp add: ToUpper_def upper_char_def)
  moreover have "CountChar key (CHR ''='') = 0" and "CountChar key (CHR ''?'') = 0"
    using assms(4) by (auto simp: CountChar_0)
  ultimately show "isBatchableDelete (''DELETE FROM '' @ tbl @ '' WHERE '' @ key @ '' = ?'')"
    unfolding q_def [symmetric] by (simp add: isBatchableDelete_def Let_def idx clause length_Split)
  have "Split (CHR ''='') (key @ '' = ?'') = [key @ '' '', '' ?'']"
    using Split_append [of "CHR ''=''" "key @ '' ''" "'' ?''"] assms(4) by auto
  moreover have "TrimSpace (key @ '' '') = key"
  proof -
    have "dropWhile is_space (key @ '' '') = key @ '' ''" and "dropWhile is_space (rev key) = rev key"
      using assms(3,4) by (cases key, simp, auto simp: dropWhile_eq_self_iff hd_rev)
    then show ?thesis by (simp add: TrimSpace_def trim_by_def is_space_def)
  qed
  ultimately show "batched_delete (''DELETE FROM '' @ tbl @ '' WHERE '' @ key @ '' = ?'') n =
      Inr (''DELETE FROM '' @ tbl @ '' WHERE '' @ key @ '' IN ('' @ Join (replicate n ''?'') '','' @ '')'')"
    unfolding q_def [symmetric] by (simp add: batched_delete_def Let_def idx clause base)
qed

definition name_ok :: "string \<Rightarrow> bool" where
  "name_ok s \<longleftrightarrow> s \<noteq> [] \<and> list_all (\<lambda>c. \<not> is_space c \<and> c \<noteq> CHR '','' \<and> c \<noteq> CHR ''('' \<and> c \<noteq> CHR '')'') s"

lemma name_okD:
  assumes "name_ok s"
  shows "s \<noteq> []" and "\<forall>c \<in> set s. \<not> is_space c" and "CHR '','' \<notin> set s" and "CHR ''('' \<notin> set s" and "CHR '')'' \<notin> set s"
    and "TrimSpace s = s"
proof -
  show *: "s \<noteq> []" and **: "\<forall>c \<in> set s. \<not> is_space c" and "CHR '','' \<notin> set s" and "CHR ''('' \<notin> set s" and "CHR '')'' \<notin> set s"
    using assms by (auto simp: name_ok_def list_all_iff)
  show "TrimSpace s = s"
    using * ** by (simp add: TrimSpace_id)
qed

lemma Index_char: "c \<notin> set a \<Longrightarrow> Index (a @ c # s) [c] = Some (length a)"
  by (induction a) auto

lemma Split_columns:
  "cols \<noteq> [] \<Longrightarrow> list_all name_ok cols \<Longrightarrow> map TrimSpace (Split (CHR '','') (Join cols '', '')) = cols"
proof (induction cols "'', ''" rule: Join.induct)
  case (2 w)
  then show ?case by (simp add: Split_none name_okD)
next
  case (3 w v ws)
  have "map TrimSpace (Split (CHR '','') (CHR '' '' # s)) = map TrimSpace (Split (CHR '','') s)" for s
    by (cases "Split (CHR '','') s") (auto simp: is_space_def)
  with 3 show ?case
    by (simp add: Split_append name_okD)
qed simp

lemma find_char_append: "\<forall>c \<in> set a. \<not> p c \<Longrightarrow> p d \<Longrightarrow> find_char p (a @ d # b) = Some (length a)"
  by (induction a) auto

lemma columns_no_paren: "list_all name_ok cols \<Longrightarrow> CHR '')'' \<notin> set (Join cols '', '')"
  by (induction cols "'', ''" rule: Join.induct) (auto dest: name_okD)

lemma parseInsertStatement_usual:
  assumes t: "name_ok t" and cols: "cols \<noteq> []" "list_all name_ok cols" and rest: "rest \<noteq> []" "\<not> is_space (last rest)"
  shows "parseInsertStatement (''INSERT INTO '' @ t @ '' ('' @ Join cols '', '' @ '') VALUES '' @ rest) = Inr (t, cols)"
proof -
  define J where "J = Join cols '', ''"
  define R where "R = t @ '' ('' @ J @ '') VALUES '' @ rest"
  define q where "q = ''INSERT INTO '' @ R"
  have trim: "TrimSpace q = q"
    unfolding q_def R_def using rest by (intro TrimSpace_id) (auto simp: is_space_def)
  have R: "TrimSpace (drop 11 q) = R"
  proof -
    have "TrimSpace (drop 11 q) = TrimSpace R"
      unfolding q_def by (simp add: is_space_def)
    also have "\<dots> = R"
      using rest name_okD(1,2) [OF t] unfolding R_def by (intro TrimSpace_id) (auto simp: hd_append)
    finally show ?thesis .
  qed
  have up: "Index (ToUpper q) ''INSERT'' = Some 0" "Index (drop 0 (ToUpper q)) ''INTO'' = Some 7"
    unfolding q_def by (simp_all add: ToUpper_def upper_char_def)
  have "find_char (\<lambda>ch. ch = CHR ''('' \<or> ch = CHR '' '') R = Some (length t)"
    unfolding R_def using name_okD(2,4) [OF t]
    by (simp, intro find_char_append) (auto simp: is_space_def)
  moreover have op: "Index R ''('' = Some (length t + 1)"
    unfolding R_def using Index_char [of "CHR ''(''" "t @ '' ''"] name_okD(4) [OF t] by simp
  moreover have "Index (drop (length t + 1) R) '')'' = Some (Suc (length J))"
    unfolding R_def using Index_char [of "CHR '')''" "''('' @ J"] columns_no_paren [OF cols(2)]
    by (simp add: J_def)
  moreover have "drop (length t) (take (length t + 1) R) = '' ''" "take (length t) R = t"
    "drop (length t + 1 + 1) (take (length t + 1 + Suc (length J)) R) = J"
    unfolding R_def by simp_all
  moreover have "\<not> Contains (ToUpper '' '') ''VALUES''"
    by code_simp
  ultimately have "parseInsertStatement q = Inr (t, cols)"
    unfolding parseInsertStatement_def Let_def trim up option.case R
    using R Split_columns [OF cols] name_okD(6) [OF t] by (simp add: J_def)
  then show ?thesis
    unfolding q_def R_def J_def by simp
qed

section \<open>Properties\<close>

text \<open>The substring test written by hand in the executor is the substring relation.\<close>

lemma contains_correct: "contains s substr \<longleftrightarrow> (\<exists>a b. s = a @ substr @ b)"
  by (rule contains_substring)



text \<open>Some statements that are taken for simple ones change their meaning when they are combined. A
  comparison with \<open>>=\<close> becomes an invalid statement; a LIMIT behind the key is dropped, so more rows are
  deleted; and in a multi-row INSERT every expression behind VALUES is replaced by as many placeholders as there are parameters.\<close>

lemma combined_statement_differs:
  "isBatchableDelete ''DELETE FROM t WHERE id >= ?'' \<and>
   batched_delete ''DELETE FROM t WHERE id >= ?'' 2 = Inr ''DELETE FROM t WHERE id > IN (?,?)'' \<and>
   isBatchableDelete ''DELETE FROM t WHERE id = ? LIMIT 1'' \<and>
   batched_delete ''DELETE FROM t WHERE id = ? LIMIT 1'' 2 = Inr ''DELETE FROM t WHERE id IN (?,?)'' \<and>
   isBatchableInsert ''INSERT INTO t (a, b) VALUES (?, NOW())'' \<and>
   multi_row_insert ''INSERT INTO t (a, b) VALUES (?, NOW())'' 1 2 = Some ''INSERT INTO t (a, b) VALUES (?), (?)''"
  by (intro conjI; code_simp)

text \<open>C35: The table and the columns of an INSERT in the usual layout are read back.\<close>

theorem parseInsertStatement_roundtrip:
  assumes "name_ok t" and "cols \<noteq> []" and "list_all name_ok cols" and "rest \<noteq> []" and "\<not> is_space (last rest)"
  shows "parseInsertStatement (''INSERT INTO '' @ t @ '' ('' @ Join cols '', '' @ '') VALUES '' @ rest) = Inr (t, cols)"
  using parseInsertStatement_usual [OF assms] .

theorem parseInsertStatement_roundtrip_witness:
  "parseInsertStatement ''INSERT INTO logs (level, msg) VALUES ($1, $2)'' = Inr (''logs'', [''level'', ''msg''])"
  using parseInsertStatement_roundtrip [of "''logs''" "[''level'', ''msg'']" "''($1, $2)''"]
  by (simp add: name_ok_def is_space_def)

text \<open>The payload of a LOAD DATA batch is read back by the default rules of the statement (lines end
  with a newline, fields are separated by tabs, a backslash escapes, \<^verbatim>\<open>\N\<close> is NULL): for requests whose strings
  are valid UTF-8, the rows read are the parameters of the requests, whatever tabs, newlines and
  backslashes they contain.\<close>

lemma load_payload_roundtrip:
  assumes "\<forall>r \<in> set rs. req_Params r \<noteq> [] \<and> list_all utf8_param (req_Params r)"
  shows "load_rows (load_payload rs) = map (\<lambda>r. map param_text (req_Params r)) rs"
  using load_rows_payload [OF assms] .

lemma load_payload_roundtrip_witness:
  "let r = \<lparr>req_id = 0, req_Query = [], req_Params = [VInt (-5), VString [CHR 0x09, CHR 0x5C, CHR ''N''], VNil],
            req_callback = False, req_HasReturning = False\<rparr>
   in load_rows (load_payload [r, r]) = [[Some ''-5'', Some [CHR 0x09, CHR 0x5C, CHR ''N''], None],
                                         [Some ''-5'', Some [CHR 0x09, CHR 0x5C, CHR ''N''], None]]"
proof -
  let ?r = "\<lparr>req_id = 0, req_Query = [], req_Params = [VInt (-5), VString [CHR 0x09, CHR 0x5C, CHR ''N''], VNil],
            req_callback = False, req_HasReturning = False\<rparr>"
  have "valid_utf8 [CHR 0x09, CHR 0x5C, CHR ''N'']" and "Itoa (-5) = ''-5''"
    by code_simp+
  then show ?thesis
    using load_payload_roundtrip [of "[?r, ?r]"] by (simp add: Let_def)
qed

text \<open>Bytes that are no UTF-8 do not survive a LOAD DATA batch: a binary value with the byte 0xFF arrives
  as the three bytes of U+FFFD.\<close>

lemma load_payload_corrupts_binary:
  "load_rows (formatLoadDataParam (VBytes [0xFF]) @ [CHR 0x0A]) = [[Some [CHR 0xEF, CHR 0xBF, CHR 0xBD]]] \<and>
   param_text (VBytes [0xFF]) = Some [CHR 0xFF]"
  by (intro conjI; code_simp)

end
