(* ===== verification/Regex.thy ===== *)
theory Regex
  imports Prelude
begin

text \<open>
  The part of Go's package \<^verbatim>\<open>regexp\<close> that \<^verbatim>\<open>parser/parser.go\<close> uses. A pattern is a value of the datatype
  \<open>rx\<close>; \<open>rx_match\<close> gives every way it matches at a position, in the order a backtracking matcher
  tries them, so the head of the list is the leftmost-first match Go specifies. A position is the
  character before it (for \<^verbatim>\<open>\b\<close>) and the rest of the input; the captures are a function from group
  numbers to texts, the empty text for a group that took no part in the match, as
  \<^verbatim>\<open>FindStringSubmatch\<close> reports it. Case-insensitive literals fold ASCII letters.
\<close>

section \<open>Patterns and matching\<close>

datatype rx =
    Lit string                 \<comment> \<open>literal text\<close>
  | LitCI string               \<comment> \<open>literal text under \<open>(?i)\<close>, given in upper case\<close>
  | Star "char \<Rightarrow> bool"        \<comment> \<open>greedy repetition of a character class\<close>
  | Plus "char \<Rightarrow> bool"        \<comment> \<open>greedy repetition, at least once\<close>
  | OptC "char \<Rightarrow> bool"        \<comment> \<open>an optional character of a class\<close>
  | WordB                      \<comment> \<open>an ASCII word boundary\<close>
  | Seq rx rx
  | Alt rx rx
  | Opt rx                     \<comment> \<open>greedy option\<close>
  | Cap nat rx                 \<comment> \<open>capturing group\<close>

type_synonym rpos = "char option \<times> string"
type_synonym caps = "nat \<Rightarrow> string"

definition is_word :: "char \<Rightarrow> bool" where
  "is_word c \<longleftrightarrow> is_alpha c \<or> is_digit c \<or> c = CHR ''_''"

definition word_before :: "char option \<Rightarrow> bool" where
  "word_before p = (case p of None \<Rightarrow> False | Some c \<Rightarrow> is_word c)"

definition word_after :: "string \<Rightarrow> bool" where
  "word_after s = (case s of [] \<Rightarrow> False | c # _ \<Rightarrow> is_word c)"

fun prefix_ci :: "string \<Rightarrow> string \<Rightarrow> bool" where
  "prefix_ci [] s = True"
| "prefix_ci (t # ts) [] = False"
| "prefix_ci (t # ts) (c # cs) = (upper_char c = t \<and> prefix_ci ts cs)"

text \<open>The position after reading \<open>n\<close> characters.\<close>

definition advance :: "nat \<Rightarrow> rpos \<Rightarrow> rpos" where
  "advance n x = (case x of (p, s) \<Rightarrow>
     (if n = 0 then (p, s) else (Some (s ! (n - 1)), drop n s)))"

definition run_len :: "(char \<Rightarrow> bool) \<Rightarrow> string \<Rightarrow> nat" where
  "run_len p s = length (takeWhile p s)"

primrec rx_match :: "rx \<Rightarrow> rpos \<times> caps \<Rightarrow> (rpos \<times> caps) list" where
  "rx_match (Lit t) m =
     (if HasPrefix (snd (fst m)) t then [(advance (length t) (fst m), snd m)] else [])"
| "rx_match (LitCI t) m =
     (if prefix_ci t (snd (fst m)) then [(advance (length t) (fst m), snd m)] else [])"
| "rx_match (Star p) m =
     map (\<lambda>k. (advance k (fst m), snd m)) (rev [0..<Suc (run_len p (snd (fst m)))])"
| "rx_match (Plus p) m =
     map (\<lambda>k. (advance k (fst m), snd m)) (rev [1..<Suc (run_len p (snd (fst m)))])"
| "rx_match (OptC p) m =
     (case snd (fst m) of
        [] \<Rightarrow> [m]
      | c # _ \<Rightarrow> if p c then [(advance 1 (fst m), snd m), m] else [m])"
| "rx_match WordB m =
     (if word_before (fst (fst m)) \<noteq> word_after (snd (fst m)) then [m] else [])"
| "rx_match (Seq r1 r2) m = concat (map (rx_match r2) (rx_match r1 m))"
| "rx_match (Alt r1 r2) m = rx_match r1 m @ rx_match r2 m"
| "rx_match (Opt r) m = rx_match r m @ [m]"
| "rx_match (Cap k r) m =
     map (\<lambda>m'. (fst m', (snd m')(k := take (length (snd (fst m)) - length (snd (fst m'))) (snd (fst m)))))
         (rx_match r m)"

definition no_caps :: caps where
  "no_caps = (\<lambda>_. [])"

text \<open>The preferred match at a position.\<close>

definition rx_here :: "rx \<Rightarrow> rpos \<Rightarrow> (rpos \<times> caps) option" where
  "rx_here r x = (case rx_match r (x, no_caps) of [] \<Rightarrow> None | m # _ \<Rightarrow> Some m)"

text \<open>
  \<^verbatim>\<open>FindStringSubmatch\<close>: the first position with a match, as the text skipped, the position after
  the match and the captures.
\<close>

fun rx_find :: "rx \<Rightarrow> char option \<Rightarrow> string \<Rightarrow> (string \<times> rpos \<times> caps) option" where
  "rx_find r p [] =
     (case rx_here r (p, []) of None \<Rightarrow> None | Some (x, cp) \<Rightarrow> Some ([], x, cp))"
| "rx_find r p (c # cs) =
     (case rx_here r (p, c # cs) of
        Some (x, cp) \<Rightarrow> Some ([], x, cp)
      | None \<Rightarrow> map_option (\<lambda>(pre, y). (c # pre, y)) (rx_find r (Some c) cs))"

definition FindStringSubmatch :: "rx \<Rightarrow> string \<Rightarrow> caps option" where
  "FindStringSubmatch r s = map_option (\<lambda>(_, _, cp). cp) (rx_find r None s)"

lemma rx_find_length:
  "rx_find r p s = Some (pre, (q, rest), cp) \<Longrightarrow> length pre \<le> length s"
proof (induction r p s arbitrary: pre rule: rx_find.induct)
  case (1 r p)
  then show ?case by (auto split: option.splits)
next
  case (2 r p c cs)
  then show ?case by (fastforce split: option.splits)
qed

text \<open>
  \<^verbatim>\<open>ReplaceAllString\<close> with an empty replacement: the text outside the successive matches, each
  searched from the end of the one before, one character further on after an empty match.
\<close>

function rx_remove :: "rx \<Rightarrow> char option \<Rightarrow> string \<Rightarrow> string" where
  "rx_remove r p s =
     (case rx_find r p s of
        None \<Rightarrow> s
      | Some (pre, (q, rest), cp) \<Rightarrow>
          if length rest < length s then pre @ rx_remove r q rest
          else (case s of [] \<Rightarrow> [] | c # cs \<Rightarrow> c # rx_remove r (Some c) cs))"
  by pat_completeness auto
termination
  by (relation "measure (\<lambda>(r, p, s). length s)") auto

declare rx_remove.simps [simp del]

definition RemoveAll :: "rx \<Rightarrow> string \<Rightarrow> string" where
  "RemoveAll r s = rx_remove r None s"

section \<open>Computing the preferred match\<close>

text \<open>
  \<open>rx_first r m m'\<close>: the first way in which \<open>r\<close> matches at \<open>m\<close> ends at \<open>m'\<close>. The rules compute it
  piece by piece along the pattern, without the alternatives that are never tried.
\<close>

definition rx_first :: "rx \<Rightarrow> rpos \<times> caps \<Rightarrow> rpos \<times> caps \<Rightarrow> bool" where
  "rx_first r m m' \<longleftrightarrow> (\<exists>ms. rx_match r m = m' # ms)"

lemma rx_here_first: "rx_first r (x, no_caps) m \<Longrightarrow> rx_here r x = Some m"
  by (auto simp: rx_first_def rx_here_def)

lemma rx_first_Seq: "rx_first r1 m m' \<Longrightarrow> rx_first r2 m' m'' \<Longrightarrow> rx_first (Seq r1 r2) m m''"
  by (auto simp: rx_first_def)

lemma rx_first_Alt1: "rx_first r1 m m' \<Longrightarrow> rx_first (Alt r1 r2) m m'"
  by (auto simp: rx_first_def)

lemma rx_first_Alt2: "rx_match r1 m = [] \<Longrightarrow> rx_first r2 m m' \<Longrightarrow> rx_first (Alt r1 r2) m m'"
  by (auto simp: rx_first_def)

lemma rx_first_Opt: "rx_first r m m' \<Longrightarrow> rx_first (Opt r) m m'"
  by (auto simp: rx_first_def)

lemma rx_first_Opt_skip: "rx_match r m = [] \<Longrightarrow> rx_first (Opt r) m m"
  by (auto simp: rx_first_def)

lemma rx_first_Cap:
  "rx_first r (x, cp) ((q, rest), cp') \<Longrightarrow> snd x = t @ rest \<Longrightarrow>
   rx_first (Cap k r) (x, cp) ((q, rest), cp'(k := t))"
  by (auto simp: rx_first_def)

text \<open>What \<open>advance\<close> does over a known text.\<close>

definition after :: "char option \<Rightarrow> string \<Rightarrow> char option" where
  "after p t = (if t = [] then p else Some (last t))"

lemma advance_append: "advance (length t) (p, t @ rest) = (after p t, rest)"
  by (cases t rule: rev_cases) (auto simp: advance_def after_def nth_append)

lemma rx_first_Lit: "rx_first (Lit t) ((p, t @ rest), cp) ((after p t, rest), cp)"
  by (simp add: rx_first_def advance_append)

lemma run_len_append:
  "list_all p t \<Longrightarrow> rest = [] \<or> \<not> p (hd rest) \<Longrightarrow> run_len p (t @ rest) = length t"
  by (induction t) (cases rest; auto simp: run_len_def)+

lemma rx_first_Star:
  assumes "list_all p t" and "rest = [] \<or> \<not> p (hd rest)"
  shows "rx_first (Star p) ((q, t @ rest), cp) ((after q t, rest), cp)"
  using assms by (simp add: rx_first_def run_len_append advance_append)

lemma rx_first_Star_empty:
  "rest = [] \<or> \<not> p (hd rest) \<Longrightarrow> rx_first (Star p) ((q, rest), cp) ((q, rest), cp)"
  using rx_first_Star [of p "[]" rest q cp] by (simp add: after_def)

lemma rx_first_Plus:
  assumes "list_all p t" and "t \<noteq> []" and "rest = [] \<or> \<not> p (hd rest)"
  shows "rx_first (Plus p) ((q, t @ rest), cp) ((after q t, rest), cp)"
proof -
  have "rev [1..<Suc (length t)] = length t # rev [1..<length t]"
    using assms(2) by (cases t) auto
  then show ?thesis
    using assms by (simp add: rx_first_def run_len_append advance_append)
qed

lemma rx_match_Lit_fail: "\<not> HasPrefix s t \<Longrightarrow> rx_match (Lit t) ((p, s), cp) = []"
  by simp

lemma rx_match_Seq_fail: "rx_match r1 m = [] \<Longrightarrow> rx_match (Seq r1 r2) m = []"
  by simp

lemma rx_match_Cap_fail: "rx_match r m = [] \<Longrightarrow> rx_match (Cap k r) m = []"
  by simp

lemmas rx_fail = rx_match_Cap_fail rx_match_Seq_fail rx_match_Lit_fail

lemma rx_find_here: "rx_here r (p, s) = Some (x, cp) \<Longrightarrow> rx_find r p s = Some ([], x, cp)"
  by (cases s) simp_all

lemma rx_remove_here:
  assumes "rx_here r (p, t @ rest) = Some ((q, rest), cp)" and "t \<noteq> []"
  shows "rx_remove r p (t @ rest) = rx_remove r q rest"
  using assms by (simp add: rx_remove.simps [of r p "t @ rest"] rx_find_here)

end
