(* ===== verification/Parser.thy ===== *)
theory Parser
  imports Regex
begin

text \<open>
  The query analyser, \<^verbatim>\<open>parser/parser.go\<close>: the regular expressions, \<open>Parse\<close>, and the predicates the
  proxies ask of a parsed query. The lemmas show what \<open>Parse\<close> reads from a hint comment, that the
  batch key does not depend on the hint, and which fields can be set together.
\<close>

section \<open>Data\<close>

datatype QueryType = QueryUnknown | QuerySelect | QueryInsert | QueryUpdate | QueryDelete

record ParsedQuery =
  pq_Type :: QueryType
  pq_TTL :: int
  pq_DB :: string
  pq_File :: string
  pq_Line :: int
  pq_BatchMs :: int
  pq_Query :: string

section \<open>The regular expressions\<close>

text \<open>The class \<^verbatim>\<open>\s\<close> of RE2 is tab, newline, form feed, carriage return and space.\<close>

definition re_space :: "char \<Rightarrow> bool" where
  "re_space c \<longleftrightarrow> c = CHR 0x20 \<or> c = CHR 0x09 \<or> c = CHR 0x0A \<or> c = CHR 0x0C \<or> c = CHR 0x0D"

abbreviation re_nonspace :: "char \<Rightarrow> bool" where
  "re_nonspace c \<equiv> \<not> re_space c"

definition ident_char :: "char \<Rightarrow> bool" where
  "ident_char c \<longleftrightarrow> is_alpha c \<or> is_digit c \<or> c = CHR ''_'' \<or> c = CHR ''$''"

definition quote_char :: "char \<Rightarrow> bool" where
  "quote_char c \<longleftrightarrow> c = CHR 0x27 \<or> c = CHR 0x22 \<or> c = CHR 0x60"

fun seqs :: "rx list \<Rightarrow> rx" where
  "seqs [] = Lit []"
| "seqs [r] = r"
| "seqs (r # s # rs) = Seq r (seqs (s # rs))"

text \<open>One optional field of a hint, \<^verbatim>\<open>(tag:(class+))?\<close>, with the numbers of its two groups.\<close>

definition hint_field :: "nat \<Rightarrow> string \<Rightarrow> (char \<Rightarrow> bool) \<Rightarrow> rx" where
  "hint_field k tag p = Opt (Cap k (Seq (Lit tag) (Cap (Suc k) (Plus p))))"

definition hintRegex :: rx where
  "hintRegex = seqs
     [Lit ''/*'', Star re_space,
      hint_field 1 ''ttl:'' is_digit, Star re_space,
      hint_field 3 ''file:'' re_nonspace, Star re_space,
      hint_field 5 ''line:'' is_digit, Star re_space,
      hint_field 7 ''batch:'' is_digit, Star re_space,
      Lit ''*/'']"

definition queryTypeRegex :: rx where
  "queryTypeRegex = seqs
     [WordB,
      Cap 1 (Alt (LitCI ''SELECT'') (Alt (LitCI ''INSERT'') (Alt (LitCI ''UPDATE'') (LitCI ''DELETE'')))),
      WordB]"

definition fqnRegex :: rx where
  "fqnRegex = seqs
     [WordB,
      Alt (LitCI ''FROM'') (Alt (LitCI ''JOIN'') (Alt (LitCI ''INTO'') (LitCI ''UPDATE''))),
      Plus re_space,
      Cap 1 (OptC quote_char), Cap 2 (Plus ident_char), OptC quote_char,
      Star re_space, Lit ''.'', Star re_space,
      Cap 3 (OptC quote_char), Cap 4 (Plus ident_char), OptC quote_char]"

section \<open>Operations\<close>

text \<open>The switch of \<open>Parse\<close> on the upper-case keyword that was matched.\<close>

definition keyword_type :: "string \<Rightarrow> QueryType" where
  "keyword_type k =
     (if k = ''SELECT'' then QuerySelect
      else if k = ''INSERT'' then QueryInsert
      else if k = ''UPDATE'' then QueryUpdate
      else if k = ''DELETE'' then QueryDelete
      else QueryUnknown)"

definition query_type :: "string \<Rightarrow> QueryType" where
  "query_type query =
     (case FindStringSubmatch queryTypeRegex query of
        None \<Rightarrow> QueryUnknown
      | Some matches \<Rightarrow> keyword_type (ToUpper (matches 1)))"

text \<open>The database of the first fully qualified name, \<^verbatim>\<open>db.table\<close>; empty where there is none.\<close>

definition fqn_db :: "string \<Rightarrow> string" where
  "fqn_db query = (case FindStringSubmatch fqnRegex query of None \<Rightarrow> [] | Some matches \<Rightarrow> matches 2)"

definition IsCacheable :: "ParsedQuery \<Rightarrow> bool" where
  "IsCacheable p \<longleftrightarrow> pq_Type p = QuerySelect \<and> pq_TTL p > 0"

definition IsWritable :: "ParsedQuery \<Rightarrow> bool" where
  "IsWritable p \<longleftrightarrow>
     pq_Type p = QueryInsert \<or> pq_Type p = QueryUpdate \<or> pq_Type p = QueryDelete"

definition IsBatchable :: "ParsedQuery \<Rightarrow> bool" where
  "IsBatchable p \<longleftrightarrow>
     (pq_Type p = QueryInsert \<or> pq_Type p = QueryUpdate \<or> pq_Type p = QueryDelete) \<and> pq_BatchMs p > 0"

definition GetBatchKey :: "ParsedQuery \<Rightarrow> string" where
  "GetBatchKey p = pq_Query p"

text \<open>The block of \<open>Parse\<close> that reads the hint: each field only where its group is not empty.\<close>

definition apply_hint :: "string \<Rightarrow> caps \<Rightarrow> ParsedQuery \<Rightarrow> ParsedQuery" where
  "apply_hint query matches p =
     (let p = (if matches 2 \<noteq> [] then p\<lparr>pq_TTL := fst (Atoi (matches 2))\<rparr> else p);
          p = (if matches 4 \<noteq> [] then p\<lparr>pq_File := matches 4\<rparr> else p);
          p = (if matches 6 \<noteq> [] then p\<lparr>pq_Line := fst (Atoi (matches 6))\<rparr> else p);
          p = (if matches 8 \<noteq> []
               then (let batchMs = fst (Atoi (matches 8))
                     in p\<lparr>pq_BatchMs := (if batchMs < 0 then 0 else batchMs)\<rparr>)
               else p)
      in p\<lparr>pq_Query := TrimSpace (RemoveAll hintRegex query)\<rparr>)"

definition Parse :: "string \<Rightarrow> ParsedQuery" where
  "Parse query =
     (let p = \<lparr>pq_Type = query_type query, pq_TTL = 0, pq_DB = fqn_db query,
               pq_File = [], pq_Line = 0, pq_BatchMs = 0, pq_Query = query\<rparr>;
          p = (case FindStringSubmatch hintRegex query of
                 None \<Rightarrow> p
               | Some matches \<Rightarrow> apply_hint query matches p)
      in if IsWritable p \<and> pq_TTL p > 0 then p\<lparr>pq_TTL := 0\<rparr> else p)"

section \<open>What Parse sets\<close>

lemma apply_hint_sel [simp]:
  "pq_Type (apply_hint q m p) = pq_Type p"
  "pq_DB (apply_hint q m p) = pq_DB p"
  "pq_TTL (apply_hint q m p) = (if m 2 = [] then pq_TTL p else fst (Atoi (m 2)))"
  "pq_File (apply_hint q m p) = (if m 4 = [] then pq_File p else m 4)"
  "pq_Line (apply_hint q m p) = (if m 6 = [] then pq_Line p else fst (Atoi (m 6)))"
  "pq_BatchMs (apply_hint q m p) = (if m 8 = [] then pq_BatchMs p else fst (Atoi (m 8)))"
  "pq_Query (apply_hint q m p) = TrimSpace (RemoveAll hintRegex q)"
  using Atoi_nonneg [of "m 8"] by (simp_all add: apply_hint_def Let_def)

lemma pq_Type_Parse: "pq_Type (Parse q) = query_type q"
  by (simp add: Parse_def Let_def split: option.splits)

lemma IsWritable_upd [simp]:
  "IsWritable (p\<lparr>pq_TTL := t\<rparr>) = IsWritable p"
  by (simp add: IsWritable_def)

lemma IsWritable_apply_hint [simp]: "IsWritable (apply_hint q m p) = IsWritable p"
  by (simp add: IsWritable_def)

lemma Parse_nonneg: "0 \<le> pq_TTL (Parse q) \<and> 0 \<le> pq_BatchMs (Parse q) \<and> 0 \<le> pq_Line (Parse q)"
  by (simp add: Parse_def Let_def Atoi_nonneg split: option.splits)

lemma Parse_writable_TTL: "IsWritable (Parse q) \<Longrightarrow> pq_TTL (Parse q) \<le> 0"
  by (auto simp: Parse_def Let_def split: option.splits if_splits)

section \<open>Hint comments\<close>

text \<open>
  The canonical layout of a hint: the fields that are present, in the order of the pattern, each
  followed by a space. This is the layout of the package documentation of \<^verbatim>\<open>parser.go\<close> and of the
  comments the client libraries write.
\<close>

definition opt_field :: "string \<Rightarrow> string option \<Rightarrow> string \<Rightarrow> string" where
  "opt_field tag v rest = (case v of None \<Rightarrow> rest | Some t \<Rightarrow> tag @ t @ '' '' @ rest)"

definition hint_comment ::
  "nat option \<Rightarrow> string option \<Rightarrow> nat option \<Rightarrow> nat option \<Rightarrow> string \<Rightarrow> string" where
  "hint_comment ttl file line batch rest =
     ''/* '' @
     opt_field ''ttl:'' (map_option nat_dec ttl)
      (opt_field ''file:'' file
        (opt_field ''line:'' (map_option nat_dec line)
          (opt_field ''batch:'' (map_option nat_dec batch) (''*/'' @ rest))))"

text \<open>A file name a hint can carry: not empty and without white space.\<close>

definition file_ok :: "string \<Rightarrow> bool" where
  "file_ok f \<longleftrightarrow> f \<noteq> [] \<and> list_all re_nonspace f"

text \<open>The text at the start of a field or of the end of the comment.\<close>

definition starts_field :: "string \<Rightarrow> bool" where
  "starts_field s \<longleftrightarrow> s \<noteq> [] \<and> re_nonspace (hd s)"

lemma starts_field_opt [simp]:
  "starts_field s \<Longrightarrow> tag \<noteq> [] \<Longrightarrow> re_nonspace (hd tag) \<Longrightarrow> starts_field (opt_field tag v s)"
  by (auto simp: opt_field_def starts_field_def split: option.splits)

lemma re_space_simps [simp]: "re_space (CHR '' '')" "\<not> is_digit (CHR '' '')"
  by (simp_all add: re_space_def is_digit_def)

text \<open>One field and the white space after it, where the field is present and where it is not.\<close>

lemma hint_field_present:
  assumes "list_all p t" and "t \<noteq> []" and "\<not> p (CHR '' '')" and "starts_field rest"
    and "rx_first r ((Some (CHR '' ''), rest), cp(Suc k := t, k := tag @ t)) m"
  shows "rx_first (Seq (hint_field k tag p) (Seq (Star re_space) r)) ((q, tag @ t @ '' '' @ rest), cp) m"
proof -
  have tag: "rx_first (Lit tag) ((q, tag @ t @ '' '' @ rest), cp) ((after q tag, t @ '' '' @ rest), cp)"
    by (rule rx_first_Lit)
  have val: "rx_first (Cap (Suc k) (Plus p)) ((after q tag, t @ '' '' @ rest), cp)
     ((after (after q tag) t, '' '' @ rest), cp(Suc k := t))"
    by (rule rx_first_Cap, rule rx_first_Plus) (use assms in auto)
  have fld: "rx_first (hint_field k tag p) ((q, tag @ t @ '' '' @ rest), cp)
     ((after (after q tag) t, '' '' @ rest), cp(Suc k := t, k := tag @ t))"
    unfolding hint_field_def
    by (rule rx_first_Opt, rule rx_first_Cap, rule rx_first_Seq [OF tag val]) simp
  have sp: "rx_first (Star re_space) ((after (after q tag) t, '' '' @ rest), cp(Suc k := t, k := tag @ t))
     ((Some (CHR '' ''), rest), cp(Suc k := t, k := tag @ t))"
    using rx_first_Star [of re_space "'' ''" rest "after (after q tag) t"] assms(4)
    by (simp add: after_def starts_field_def)
  show ?thesis
    by (rule rx_first_Seq [OF fld rx_first_Seq [OF sp assms(5)]])
qed

lemma hint_field_absent:
  assumes "\<not> HasPrefix rest tag" and "starts_field rest" and "rx_first r ((q, rest), cp) m"
  shows "rx_first (Seq (hint_field k tag p) (Seq (Star re_space) r)) ((q, rest), cp) m"
proof -
  have "rx_first (hint_field k tag p) ((q, rest), cp) ((q, rest), cp)"
    unfolding hint_field_def by (rule rx_first_Opt_skip) (intro rx_fail assms)
  moreover have "rx_first (Star re_space) ((q, rest), cp) ((q, rest), cp)"
    using assms(2) by (intro rx_first_Star_empty) (simp add: starts_field_def)
  ultimately show ?thesis
    using assms(3) by (blast intro: rx_first_Seq)
qed

definition set_group :: "nat \<Rightarrow> string \<Rightarrow> string option \<Rightarrow> caps \<Rightarrow> caps" where
  "set_group k tag v cp = (case v of None \<Rightarrow> cp | Some t \<Rightarrow> cp(Suc k := t, k := tag @ t))"

lemma hint_field_step:
  assumes "\<And>t. v = Some t \<Longrightarrow> list_all p t \<and> t \<noteq> []" and "\<not> p (CHR '' '')" and "starts_field rest"
    and "v = None \<Longrightarrow> \<not> HasPrefix rest tag"
    and "\<And>q. rx_first r ((q, rest), set_group k tag v cp) m"
  shows "rx_first (Seq (hint_field k tag p) (Seq (Star re_space) r)) ((q, opt_field tag v rest), cp) m"
proof (cases v)
  case None
  with assms show ?thesis
    by (simp add: opt_field_def set_group_def hint_field_absent)
next
  case (Some t)
  with assms show ?thesis
    by (simp only: opt_field_def option.case set_group_def)
       (rule hint_field_present, simp_all)
qed

definition hint_caps ::
  "nat option \<Rightarrow> string option \<Rightarrow> nat option \<Rightarrow> nat option \<Rightarrow> caps" where
  "hint_caps ttl file line batch =
     set_group 7 ''batch:'' (map_option nat_dec batch)
      (set_group 5 ''line:'' (map_option nat_dec line)
        (set_group 3 ''file:'' file
          (set_group 1 ''ttl:'' (map_option nat_dec ttl) no_caps)))"

text \<open>The fields of the pattern read the fields of a canonical hint.\<close>

lemma hint_fields_match:
  assumes "\<And>f. file = Some f \<Longrightarrow> file_ok f"
  shows "rx_first (Seq (hint_field 1 ''ttl:'' is_digit) (Seq (Star re_space)
       (Seq (hint_field 3 ''file:'' re_nonspace) (Seq (Star re_space)
       (Seq (hint_field 5 ''line:'' is_digit) (Seq (Star re_space)
       (Seq (hint_field 7 ''batch:'' is_digit) (Seq (Star re_space) (Lit ''*/'')))))))))
     ((q, opt_field ''ttl:'' (map_option nat_dec ttl) (opt_field ''file:'' file
           (opt_field ''line:'' (map_option nat_dec line)
              (opt_field ''batch:'' (map_option nat_dec batch) (''*/'' @ rest))))), no_caps)
     ((Some (CHR ''/''), rest), hint_caps ttl file line batch)"
proof -
  have s4: "starts_field (''*/'' @ rest)" by (simp add: starts_field_def re_space_def)
  have dec: "map_option nat_dec n = Some t \<Longrightarrow> list_all is_digit t \<and> t \<noteq> []" for n t
    by (auto simp: nat_dec_digits)
  have f: "file = Some t \<Longrightarrow> list_all re_nonspace t \<and> t \<noteq> []" for t
    using assms by (auto simp: file_ok_def)
  have fin: "rx_first (Lit ''*/'') ((q, ''*/'' @ rest), cp) ((Some (CHR ''/''), rest), cp)" for q cp
    using rx_first_Lit [of "''*/''" q rest cp] by (simp add: after_def)
  show ?thesis
    unfolding hint_caps_def
    by (intro hint_field_step fin dec f s4 starts_field_opt)
       (simp_all add: opt_field_def re_space_def split: option.splits)
qed

lemma hint_comment_match:
  assumes "\<And>f. file = Some f \<Longrightarrow> file_ok f"
  shows "rx_here hintRegex (p, hint_comment ttl file line batch rest)
    = Some ((Some (CHR ''/''), rest), hint_caps ttl file line batch)"
proof (rule rx_here_first)
  let ?t = "opt_field ''ttl:'' (map_option nat_dec ttl) (opt_field ''file:'' file
           (opt_field ''line:'' (map_option nat_dec line)
              (opt_field ''batch:'' (map_option nat_dec batch) (''*/'' @ rest))))"
  have t: "starts_field ?t"
    by (intro starts_field_opt) (simp_all add: starts_field_def re_space_def)
  have start: "rx_first (Lit ''/*'') ((p, hint_comment ttl file line batch rest), no_caps)
      ((Some (CHR ''*''), '' '' @ ?t), no_caps)"
    using rx_first_Lit [of "''/*''" p "'' '' @ ?t" no_caps] by (simp add: after_def hint_comment_def)
  have space: "rx_first (Star re_space) ((Some (CHR ''*''), '' '' @ ?t), no_caps)
      ((Some (CHR '' ''), ?t), no_caps)"
    using rx_first_Star [of re_space "'' ''" ?t "Some (CHR ''*'')" no_caps] t
    by (simp add: after_def starts_field_def)
  show "rx_first hintRegex ((p, hint_comment ttl file line batch rest), no_caps)
      ((Some (CHR ''/''), rest), hint_caps ttl file line batch)"
    unfolding hintRegex_def seqs.simps
    by (rule rx_first_Seq [OF start rx_first_Seq [OF space hint_fields_match [OF assms]]])
qed

lemma hint_caps_simps [simp]:
  "hint_caps ttl file line batch 2 = (case ttl of None \<Rightarrow> [] | Some n \<Rightarrow> nat_dec n)"
  "hint_caps ttl file line batch 4 = (case file of None \<Rightarrow> [] | Some f \<Rightarrow> f)"
  "hint_caps ttl file line batch 6 = (case line of None \<Rightarrow> [] | Some n \<Rightarrow> nat_dec n)"
  "hint_caps ttl file line batch 8 = (case batch of None \<Rightarrow> [] | Some n \<Rightarrow> nat_dec n)"
  by (simp_all add: hint_caps_def set_group_def no_caps_def numeral_eq_Suc split: option.splits)

lemma hint_found:
  assumes "\<And>f. file = Some f \<Longrightarrow> file_ok f"
  shows "FindStringSubmatch hintRegex (hint_comment ttl file line batch rest)
    = Some (hint_caps ttl file line batch)"
  by (simp add: FindStringSubmatch_def rx_find_here [OF hint_comment_match [OF assms]])

text \<open>What is left of a text when its hints are removed, as \<open>Parse\<close> leaves it in \<open>pq_Query\<close>.\<close>

definition strip_hints :: "char option \<Rightarrow> string \<Rightarrow> string" where
  "strip_hints p s = TrimSpace (rx_remove hintRegex p s)"

lemma opt_field_append: "opt_field tag v (s @ rest) = opt_field tag v s @ rest"
  by (simp add: opt_field_def split: option.splits)

lemma hint_comment_append:
  "hint_comment ttl file line batch rest = hint_comment ttl file line batch [] @ rest"
  using opt_field_append [of _ _ "''*/''" rest] by (simp add: hint_comment_def opt_field_append)

lemma hint_removed:
  assumes "\<And>f. file = Some f \<Longrightarrow> file_ok f"
  shows "TrimSpace (RemoveAll hintRegex (hint_comment ttl file line batch rest))
    = strip_hints (Some (CHR ''/'')) rest"
proof -
  have "hint_comment ttl file line batch [] \<noteq> []"
    by (simp add: hint_comment_def)
  then have "rx_remove hintRegex None (hint_comment ttl file line batch rest)
      = rx_remove hintRegex (Some (CHR ''/'')) rest"
    using hint_comment_match [OF assms] rx_remove_here by (metis hint_comment_append)
  then show ?thesis by (simp add: RemoveAll_def strip_hints_def)
qed

text \<open>A text without \<^verbatim>\<open>/*\<close> holds no hint.\<close>

lemma hintRegex_needs_comment: "\<not> HasPrefix s ''/*'' \<Longrightarrow> rx_here hintRegex (p, s) = None"
  by (simp add: rx_here_def hintRegex_def)

lemma rx_find_hint_None: "\<not> Contains s ''/*'' \<Longrightarrow> rx_find hintRegex p s = None"
proof (induction s arbitrary: p)
  case Nil
  then show ?case by (simp add: hintRegex_needs_comment)
next
  case (Cons c cs)
  then have "\<not> HasPrefix (c # cs) ''/*''" and "\<not> Contains cs ''/*''"
    by (auto simp: Contains_def split: if_splits)
  with Cons.IH show ?case by (simp add: hintRegex_needs_comment)
qed

lemma strip_hints_plain: "\<not> Contains s ''/*'' \<Longrightarrow> strip_hints p s = TrimSpace s"
  by (simp add: strip_hints_def rx_remove.simps [of hintRegex p s] rx_find_hint_None)

section \<open>Parsing a hinted statement\<close>

text \<open>The value of a numeric field: absent is 0, and \<^verbatim>\<open>strconv.Atoi\<close> saturates.\<close>

definition num_field :: "nat option \<Rightarrow> int" where
  "num_field n = (case n of None \<Rightarrow> 0 | Some k \<Rightarrow> min (int k) max_int64)"

lemma fst_Atoi_nat_dec [simp]: "fst (Atoi (nat_dec n)) = min (int n) max_int64"
  by (simp add: Atoi_def)

lemma num_field_nonneg [simp]: "0 \<le> num_field n"
  by (simp add: num_field_def max_int64_def split: option.splits)

lemma Parse_hint_fields:
  assumes "\<And>f. file = Some f \<Longrightarrow> file_ok f"
    and p_def: "p = Parse (hint_comment ttl file line batch rest)"
  shows "pq_File p = (case file of None \<Rightarrow> [] | Some f \<Rightarrow> f)"
    and "pq_Line p = num_field line"
    and "pq_BatchMs p = num_field batch"
    and "pq_TTL p = (if IsWritable p then 0 else num_field ttl)"
    and "pq_Query p = strip_hints (Some (CHR ''/'')) rest"
proof -
  have f: "file = Some f \<Longrightarrow> f \<noteq> []" for f
    using assms(1) by (auto simp: file_ok_def)
  note facts = p_def Parse_def Let_def hint_found [OF assms(1)] num_field_def
  show "pq_File p = (case file of None \<Rightarrow> [] | Some f \<Rightarrow> f)"
    using f by (cases "file") (simp_all add: facts)
  show "pq_Line p = num_field line"
    by (cases line) (simp_all add: facts)
  show "pq_BatchMs p = num_field batch"
    by (cases batch) (simp_all add: facts)
  show "pq_TTL p = (if IsWritable p then 0 else num_field ttl)"
    by (cases ttl) (auto simp: facts max_int64_def)
  show "pq_Query p = strip_hints (Some (CHR ''/'')) rest"
    by (simp add: facts hint_removed [OF assms(1)])
qed

section \<open>Properties\<close>

text \<open>C20: From a statement that starts with a hint in the documented layout, whatever fields the hint
  has and whatever follows it, \<open>Parse\<close> reads back exactly the fields written: the file, the line,
  the batch window and, unless the statement is a write, the TTL (numbers saturate at the largest
  \<^verbatim>\<open>int\<close>); and where no further comment follows, the query that is left is the trimmed statement.\<close>

theorem Parse_hint_roundtrip:
  assumes "\<forall>f. file = Some f \<longrightarrow> file_ok f" and "\<not> Contains stmt ''/*''"
  shows "let p = Parse (hint_comment ttl file line batch stmt) in
     pq_File p = (case file of None \<Rightarrow> [] | Some f \<Rightarrow> f) \<and>
     pq_Line p = num_field line \<and> pq_BatchMs p = num_field batch \<and>
     pq_TTL p = (if IsWritable p then 0 else num_field ttl) \<and>
     pq_Query p = TrimSpace stmt"
  using Parse_hint_fields [of "file" "Parse (hint_comment ttl file line batch stmt)" ttl line batch stmt] assms
  by (simp add: Let_def strip_hints_plain)

theorem Parse_hint_roundtrip_witness:
  "file_ok ''app.go'' \<and>
   pq_TTL (Parse (hint_comment (Some 60) (Some ''app.go'') (Some 42) None '' SELECT 1'')) = 60 \<and>
   pq_Query (Parse (hint_comment (Some 60) (Some ''app.go'') (Some 42) None '' SELECT 1'')) = ''SELECT 1''"
proof -
  have f: "file_ok ''app.go''" and s: "\<not> Contains '' SELECT 1'' ''/*''"
    and w: "\<not> IsWritable (Parse (hint_comment (Some 60) (Some ''app.go'') (Some 42) None '' SELECT 1''))"
    and e: "TrimSpace '' SELECT 1'' = ''SELECT 1''"
    by code_simp+
  show ?thesis
    using f w e Parse_hint_roundtrip [of "Some ''app.go''" "'' SELECT 1''" "Some 60" "Some 42" None] s
    by (simp add: Let_def num_field_def max_int64_def)
qed

text \<open>The batch key of a hinted statement does not depend on the hint: two statements that differ
  only in their hints are put into the same batch.\<close>

lemma GetBatchKey_ignores_hint:
  assumes "\<forall>f. file = Some f \<longrightarrow> file_ok f" and "\<forall>f. file' = Some f \<longrightarrow> file_ok f"
  shows "GetBatchKey (Parse (hint_comment ttl file line batch stmt))
       = GetBatchKey (Parse (hint_comment ttl' file' line' batch' stmt))"
  using assms Parse_hint_fields(5) [of "file" _ ttl line batch stmt]
    Parse_hint_fields(5) [of file' _ ttl' line' batch' stmt]
  by (simp add: GetBatchKey_def)

lemma GetBatchKey_ignores_hint_witness:
  "file_ok ''a.go'' \<and> file_ok ''b.go'' \<and>
   GetBatchKey (Parse (hint_comment None (Some ''a.go'') (Some 1) (Some 10) '' DELETE FROM t''))
   = GetBatchKey (Parse (hint_comment None (Some ''b.go'') (Some 2) (Some 5) '' DELETE FROM t''))"
proof -
  have f: "file_ok ''a.go''" "file_ok ''b.go''"
    by code_simp+
  then show ?thesis
    using GetBatchKey_ignores_hint [of "Some ''a.go''" "Some ''b.go''" None "Some 1" "Some 10"
        "'' DELETE FROM t''" None "Some 2" "Some 5"] by simp
qed

text \<open>Two hints that the parser does not read as meant. The order of the fields in the example of
  the README (and of the comment on \<open>GetBatchKey\<close>), with the batch window first, is not recognised: the
  comment stays in the query and the write is not batched. And the type of a statement is taken from
  the first keyword anywhere in the text, the hint included, so a SELECT sent from a file called
  insert.go counts as an INSERT: it loses its TTL and is not cacheable.\<close>

lemma Parse_hint_misread:
  "pq_BatchMs (Parse ''/* batch:10 file:logger.php line:15 */ INSERT INTO logs (m) VALUES (1)'') = 0 \<and>
   GetBatchKey (Parse ''/* batch:10 file:a.go line:1 */ INSERT INTO t VALUES (1)'')
     \<noteq> GetBatchKey (Parse ''/* batch:10 file:b.go line:2 */ INSERT INTO t VALUES (1)'') \<and>
   \<not> IsCacheable (Parse ''/* ttl:60 file:insert.go line:3 */ SELECT 1'') \<and>
   IsWritable (Parse ''/* ttl:60 file:insert.go line:3 */ SELECT 1'')"
  by (intro conjI; code_simp)

end
