(* ===== verification/Metrics.thy ===== *)
theory Metrics
  imports Parser
begin

text \<open>
  The metrics, \<^verbatim>\<open>metrics/metrics.go\<close>: the declarations, their registration at the start, and the recording of values under labels,
  with the labels that the proxies give to a query. Prometheus is a parameter: it may refuse to register a metric, and it may refuse
  the values of labels; both make the process panic. The lemmas show that under its documented rules the registration
  succeeds and that the recorded labels are accepted when the name of the file in the hint is valid UTF-8.
\<close>

section \<open>Declarations\<close>

text \<open>The buckets of a histogram in units of one hundred thousandth, or the default ones of the library.\<close>

datatype metric_kind = Counter | Histogram "int list option" | Gauge

record metric =
  mt_Name :: string
  mt_Help :: string
  mt_kind :: metric_kind
  mt_labels :: "string list"

definition QueryTotal :: metric where
  "QueryTotal = \<lparr>mt_Name = ''tqdbproxy_query_total'', mt_Help = ''Total number of queries processed'', mt_kind = Counter,
     mt_labels = [''file'', ''line'', ''query_type'', ''cached'']\<rparr>"

definition QueryLatency :: metric where
  "QueryLatency = \<lparr>mt_Name = ''tqdbproxy_query_latency_seconds'', mt_Help = ''Query latency in seconds'', mt_kind = Histogram None,
     mt_labels = [''file'', ''line'', ''query_type'']\<rparr>"

definition CacheHits :: metric where
  "CacheHits = \<lparr>mt_Name = ''tqdbproxy_cache_hits_total'', mt_Help = ''Total number of cache hits'', mt_kind = Counter,
     mt_labels = [''file'', ''line'']\<rparr>"

definition CacheMisses :: metric where
  "CacheMisses = \<lparr>mt_Name = ''tqdbproxy_cache_misses_total'', mt_Help = ''Total number of cache misses'', mt_kind = Counter,
     mt_labels = [''file'', ''line'']\<rparr>"

definition DatabaseQueries :: metric where
  "DatabaseQueries = \<lparr>mt_Name = ''tqdbproxy_database_queries_total'', mt_Help = ''Total queries sent to database'', mt_kind = Counter,
     mt_labels = [''replica'']\<rparr>"

definition WriteBatchSize :: metric where
  "WriteBatchSize = \<lparr>mt_Name = ''tqdbproxy_write_batch_size'', mt_Help = ''Number of operations in each write batch'',
     mt_kind = Histogram (Some (map ((*) 100000) [1, 2, 5, 10, 20, 50, 100, 200, 500, 1000])), mt_labels = [''query'']\<rparr>"

definition WriteBatchDelay :: metric where
  "WriteBatchDelay = \<lparr>mt_Name = ''tqdbproxy_write_batch_delay_seconds'',
     mt_Help = ''Time between first operation enqueue and batch execution'',
     mt_kind = Histogram (Some [1, 10, 100, 1000, 5000, 10000, 50000, 100000]), mt_labels = [''query'']\<rparr>"

definition WriteBatchLatency :: metric where
  "WriteBatchLatency = \<lparr>mt_Name = ''tqdbproxy_write_batch_latency_seconds'', mt_Help = ''Time to execute a write batch'',
     mt_kind = Histogram None, mt_labels = [''query'']\<rparr>"

definition WriteOpsPerSecond :: metric where
  "WriteOpsPerSecond = \<lparr>mt_Name = ''tqdbproxy_write_ops_per_second'',
     mt_Help = ''Current write operations per second (for adaptive delay)'', mt_kind = Gauge, mt_labels = []\<rparr>"

definition WriteCurrentDelay :: metric where
  "WriteCurrentDelay = \<lparr>mt_Name = ''tqdbproxy_write_current_delay_ms'',
     mt_Help = ''Current adaptive batching delay in milliseconds'', mt_kind = Gauge, mt_labels = []\<rparr>"

definition WriteDelayAdjustments :: metric where
  "WriteDelayAdjustments = \<lparr>mt_Name = ''tqdbproxy_write_delay_adjustments_total'',
     mt_Help = ''Number of delay adjustments (increase/decrease)'', mt_kind = Counter, mt_labels = [''direction'']\<rparr>"

definition WriteBatchedTotal :: metric where
  "WriteBatchedTotal = \<lparr>mt_Name = ''tqdbproxy_write_batched_total'', mt_Help = ''Total write operations processed through batching'',
     mt_kind = Counter, mt_labels = [''query_type'']\<rparr>"

definition WriteBatchMethod :: metric where
  "WriteBatchMethod = \<lparr>mt_Name = ''tqdbproxy_write_batch_method_total'',
     mt_Help = ''Total batches executed by method (copy, multi_row_insert, prepared, transaction)'',
     mt_kind = Counter, mt_labels = [''method'']\<rparr>"

section \<open>Registration\<close>

text \<open>Whether the library registers a metric beside those that are registered, and whether it takes the values for the labels of a
  metric.\<close>

record prometheus =
  pr_Register :: "metric list \<Rightarrow> metric \<Rightarrow> bool"
  pr_accepts :: "metric \<Rightarrow> string list \<Rightarrow> bool"

fun MustRegister :: "prometheus \<Rightarrow> metric list \<Rightarrow> metric list \<Rightarrow> panic + metric list" where
  "MustRegister P reg [] = Inr reg"
| "MustRegister P reg (m # ms) = (if pr_Register P reg m then MustRegister P (reg @ [m]) ms else Inl AlreadyRegistered)"

definition init_metrics :: "metric list" where
  "init_metrics = [QueryTotal, QueryLatency, CacheHits, CacheMisses, DatabaseQueries,
     WriteBatchSize, WriteBatchDelay, WriteBatchLatency, WriteOpsPerSecond, WriteCurrentDelay, WriteDelayAdjustments,
     WriteBatchedTotal, WriteBatchMethod]"

text \<open>The metrics that are registered, and whether \<^verbatim>\<open>once\<close> has run.\<close>

record metrics_state =
  ms_once :: bool
  ms_registered :: "metric list"

definition metrics_Init :: "prometheus \<Rightarrow> metrics_state \<Rightarrow> panic + metrics_state" where
  "metrics_Init P s =
     (if ms_once s then Inr s
      else case MustRegister P (ms_registered s) init_metrics of
             Inl p \<Rightarrow> Inl p
           | Inr reg \<Rightarrow> Inr \<lparr>ms_once = True, ms_registered = reg\<rparr>)"

section \<open>The labels of a query\<close>

type_synonym qlabels = "string \<times> string \<times> string"

fun queryTypeLabel :: "QueryType \<Rightarrow> string" where
  "queryTypeLabel QuerySelect = ''select''"
| "queryTypeLabel QueryInsert = ''insert''"
| "queryTypeLabel QueryUpdate = ''update''"
| "queryTypeLabel QueryDelete = ''delete''"
| "queryTypeLabel QueryUnknown = ''unknown''"

text \<open>The PostgreSQL proxy has its own copy.\<close>

fun pg_queryTypeLabel :: "QueryType \<Rightarrow> string" where
  "pg_queryTypeLabel QuerySelect = ''select''"
| "pg_queryTypeLabel QueryInsert = ''insert''"
| "pg_queryTypeLabel QueryUpdate = ''update''"
| "pg_queryTypeLabel QueryDelete = ''delete''"
| "pg_queryTypeLabel QueryUnknown = ''unknown''"

definition file_label :: "ParsedQuery \<Rightarrow> string" where
  "file_label parsed = (if pq_File parsed = [] then ''unknown'' else pq_File parsed)"

text \<open>In the MariaDB proxy, where a statement of several may have its own hint; for an execution of a prepared statement in a
  batch; and in the PostgreSQL proxy.\<close>

definition query_labels :: "ParsedQuery \<Rightarrow> ParsedQuery \<Rightarrow> qlabels" where
  "query_labels originalParsed parsed =
     (file_label parsed, Itoa (if pq_Line parsed > 0 then pq_Line parsed else pq_Line originalParsed), queryTypeLabel (pq_Type parsed))"

definition execute_labels :: "ParsedQuery \<Rightarrow> qlabels" where
  "execute_labels parsed = (pq_File parsed, Itoa (pq_Line parsed), queryTypeLabel (pq_Type parsed))"

definition pg_labels :: "ParsedQuery \<Rightarrow> qlabels" where
  "pg_labels parsed =
     (file_label parsed, if pq_Line parsed > 0 then Itoa (pq_Line parsed) else ''0'', pg_queryTypeLabel (pq_Type parsed))"

text \<open>The values that are recorded for a query: when the cache has it, when it has not, when another request fetched it, when
  a database answered, and when it was batched.\<close>

fun hit_calls :: "qlabels \<Rightarrow> (metric \<times> string list) list" where
  "hit_calls (f, l, t) = [(CacheHits, [f, l]), (QueryTotal, [f, l, t, ''true'']), (QueryLatency, [f, l, t])]"

fun miss_calls :: "qlabels \<Rightarrow> (metric \<times> string list) list" where
  "miss_calls (f, l, t) = [(CacheMisses, [f, l])]"

fun waited_calls :: "qlabels \<Rightarrow> (metric \<times> string list) list" where
  "waited_calls (f, l, t) = [(CacheHits, [f, l])]"

fun batch_calls :: "qlabels \<Rightarrow> (metric \<times> string list) list" where
  "batch_calls (f, l, t) = [(QueryTotal, [f, l, t, ''false'']), (QueryLatency, [f, l, t])]"

definition database_calls :: "string \<Rightarrow> qlabels \<Rightarrow> (metric \<times> string list) list" where
  "database_calls name lb = (DatabaseQueries, [name]) # batch_calls lb"

definition accepts_all :: "prometheus \<Rightarrow> (metric \<times> string list) list \<Rightarrow> bool" where
  "accepts_all P calls \<longleftrightarrow> list_all (\<lambda>(m, vals). pr_accepts P m vals) calls"

section \<open>The rules of Prometheus\<close>

text \<open>A metric name and the name of a label, the labels of a metric, and the buckets of a histogram.\<close>

definition metric_char :: "char \<Rightarrow> bool" where
  "metric_char c \<longleftrightarrow> is_alpha c \<or> is_digit c \<or> c = CHR ''_''"

definition metric_word :: "string \<Rightarrow> bool" where
  "metric_word s \<longleftrightarrow> s \<noteq> [] \<and> \<not> is_digit (hd s) \<and> list_all metric_char s"

definition metric_ok :: "metric \<Rightarrow> bool" where
  "metric_ok m \<longleftrightarrow> metric_word (mt_Name m) \<and> distinct (mt_labels m) \<and>
     list_all (\<lambda>l. metric_word l \<and> take 2 l \<noteq> ''__'') (mt_labels m) \<and>
     (case mt_kind m of
        Histogram b \<Rightarrow> ''le'' \<notin> set (mt_labels m) \<and> (case b of Some bs \<Rightarrow> sorted_wrt (<) bs | None \<Rightarrow> True)
      | _ \<Rightarrow> True)"

text \<open>A valid metric is registered unless one with its name is; the values of labels are accepted when there is one for every label and
  all are valid UTF-8.\<close>

definition registers_new :: "prometheus \<Rightarrow> bool" where
  "registers_new P \<longleftrightarrow> (\<forall>reg m. metric_ok m \<longrightarrow> mt_Name m \<notin> mt_Name ` set reg \<longrightarrow> pr_Register P reg m)"

definition checks_labels :: "prometheus \<Rightarrow> bool" where
  "checks_labels P \<longleftrightarrow> (\<forall>m vals. pr_accepts P m vals \<longleftrightarrow> length vals = length (mt_labels m) \<and> list_all valid_utf8 vals)"

lemma init_metrics_ok: "list_all metric_ok init_metrics"
  by code_simp

lemma init_metrics_distinct: "distinct (map mt_Name init_metrics)"
  by code_simp

lemma MustRegister_new:
  assumes "registers_new P"
  shows "list_all metric_ok ms \<Longrightarrow> distinct (map mt_Name ms) \<Longrightarrow> mt_Name ` set reg \<inter> mt_Name ` set ms = {} \<Longrightarrow>
    MustRegister P reg ms = Inr (reg @ ms)"
proof (induction ms arbitrary: reg)
  case (Cons m ms)
  have "pr_Register P reg m"
    using assms Cons.prems unfolding registers_new_def by auto
  moreover have "MustRegister P (reg @ [m]) ms = Inr ((reg @ [m]) @ ms)"
    using Cons.prems by (intro Cons.IH) auto
  ultimately show ?case by simp
qed simp


text \<open>Text in ASCII is valid UTF-8, so the numbers of lines and the constants are accepted.\<close>

definition ascii :: "char \<Rightarrow> bool" where
  "ascii c \<longleftrightarrow> in_range 0 0x7F c"

lemma ascii_valid: "list_all ascii s \<Longrightarrow> valid_utf8 s"
  unfolding valid_utf8_def by (induction s) (simp_all add: ascii_def utf8_len_def)

lemma digits_ascii: "list_all is_digit s \<Longrightarrow> list_all ascii s"
  by (auto simp: list_all_iff is_digit_def ascii_def in_range_def)

lemma Itoa_valid [simp]: "valid_utf8 (Itoa i)"
proof (rule ascii_valid)
  have "list_all ascii (nat_dec n)" for n
    by (rule digits_ascii [OF nat_dec_digits])
  then show "list_all ascii (Itoa i)"
    by (simp add: Itoa_def ascii_def in_range_def)
qed

lemma constant_labels_valid [simp]:
  "valid_utf8 ''unknown''" "valid_utf8 ''true''" "valid_utf8 ''false''" "valid_utf8 ''0''" "valid_utf8 ''primary''" "valid_utf8 (queryTypeLabel ty)"
  by (code_simp+, cases ty) (simp_all, code_simp+)

lemma queryTypeLabel_copies [simp]: "pg_queryTypeLabel ty = queryTypeLabel ty"
  by (cases ty) simp_all

lemma label_parts_valid [simp]:
  "valid_utf8 (file_label q) \<longleftrightarrow> valid_utf8 (pq_File q)" "valid_utf8 (if b then Itoa i else ''0'')"
  by (simp_all add: file_label_def ascii_valid)

definition labels_ok :: "qlabels \<Rightarrow> bool" where
  "labels_ok lb \<longleftrightarrow> (case lb of (f, l, t) \<Rightarrow> valid_utf8 f \<and> valid_utf8 l \<and> valid_utf8 t)"

lemma query_labels_ok [simp]:
  "labels_ok (query_labels original q) \<longleftrightarrow> valid_utf8 (pq_File q)"
  "labels_ok (execute_labels q) \<longleftrightarrow> valid_utf8 (pq_File q)"
  "labels_ok (pg_labels q) \<longleftrightarrow> valid_utf8 (pq_File q)"
  by (auto simp: labels_ok_def query_labels_def execute_labels_def pg_labels_def)

lemmas metric_defs = QueryTotal_def QueryLatency_def CacheHits_def CacheMisses_def DatabaseQueries_def

lemma calls_accepted:
  assumes "checks_labels P"
  shows "accepts_all P (hit_calls lb) \<longleftrightarrow> labels_ok lb" and "accepts_all P (batch_calls lb) \<longleftrightarrow> labels_ok lb"
    and "accepts_all P (database_calls name lb) \<longleftrightarrow> labels_ok lb \<and> valid_utf8 name"
    and "labels_ok lb \<Longrightarrow> accepts_all P (miss_calls lb)" and "labels_ok lb \<Longrightarrow> accepts_all P (waited_calls lb)"
  using assms by (cases lb; auto simp: accepts_all_def checks_labels_def labels_ok_def database_calls_def metric_defs)+

lemma lookup_accepted:
  assumes "checks_labels P" and "lb = query_labels original q \<or> lb = execute_labels q \<or> lb = pg_labels q"
  shows "accepts_all P (hit_calls lb) \<longleftrightarrow> valid_utf8 (pq_File q)" "accepts_all P (miss_calls lb) \<longleftrightarrow> valid_utf8 (pq_File q)"
    "accepts_all P (waited_calls lb) \<longleftrightarrow> valid_utf8 (pq_File q)"
  using assms
  by (auto simp: accepts_all_def checks_labels_def query_labels_def execute_labels_def pg_labels_def metric_defs)

section \<open>Properties\<close>

text \<open>The registration of all metrics succeeds, once: under the rules of the library, and if nothing else has registered
  their names, \<open>Init\<close> adds the thirteen metrics in their order, and a second call changes nothing.\<close>

lemma Init_registers_once:
  assumes "registers_new P" and "mt_Name ` set reg \<inter> mt_Name ` set init_metrics = {}"
  shows "\<exists>s. metrics_Init P \<lparr>ms_once = False, ms_registered = reg\<rparr> = Inr s \<and> ms_registered s = reg @ init_metrics \<and>
    metrics_Init P s = Inr s"
  using MustRegister_new [OF assms(1) init_metrics_ok init_metrics_distinct assms(2)] by (simp add: metrics_Init_def)

text \<open>The labels of a query are refused exactly when the name of the file in its hint is not valid UTF-8. Every call passes
  one value for every label of its metric; the numbers and the types of queries are always valid, and so a query is recorded,
  whichever way it is answered, if and only if the file of its hint is valid UTF-8: otherwise the process panics. Nothing checks the
  bytes of a hint, so a client can end the process.\<close>

lemma recorded_iff_file_valid:
  assumes "checks_labels P" and "valid_utf8 name"
    and "lb = query_labels original q \<or> lb = execute_labels q \<or> lb = pg_labels q"
  shows "(accepts_all P (hit_calls lb) \<longleftrightarrow> valid_utf8 (pq_File q)) \<and> (accepts_all P (batch_calls lb) \<longleftrightarrow> valid_utf8 (pq_File q)) \<and>
    (accepts_all P (database_calls name lb) \<longleftrightarrow> valid_utf8 (pq_File q))"
proof -
  have "labels_ok lb \<longleftrightarrow> valid_utf8 (pq_File q)"
    using assms(3) by auto
  with calls_accepted [OF assms(1)] assms(2) show ?thesis
    by (simp add: accepts_all_def)
qed

definition documented :: prometheus where
  "documented = \<lparr>pr_Register = (\<lambda>reg m. metric_ok m \<and> mt_Name m \<notin> mt_Name ` set reg),
     pr_accepts = (\<lambda>m vals. length vals = length (mt_labels m) \<and> list_all valid_utf8 vals)\<rparr>"

lemma documented_rules: "registers_new documented" "checks_labels documented"
  by (simp_all add: documented_def registers_new_def checks_labels_def)

text \<open>A hint whose file is one byte that is no UTF-8 is read as a hint, and its query is refused as a label.\<close>

definition bad_file_query :: string where
  "bad_file_query = ''/* ttl:9 file:'' @ [CHR 0xFF] @ '' line:1 */ SELECT 1''"

end
