(* ===== verification/WB_Executor.thy ===== *)
theory WB_Executor
  imports WB_SQL Metrics
begin

text \<open>
  The execution of a batch, \<^verbatim>\<open>writebatch/executor.go\<close>: the strategies (single statement, multi-row INSERT, COPY,
  LOAD DATA, combined DELETE, prepared statement, transaction), the choice between them and their error
  paths. A strategy takes the state of the database and the requests and gives the new state and the
  events: the results sent and the callbacks run, in order. The lemmas show that every strategy answers
  every request exactly once, what each answer says, and what is sent to the database.
\<close>

section \<open>Definitions\<close>

text \<open>The state of the executor: the database and the counter of LOAD DATA handlers. \<open>strategy\<close> is the
  configuration it reads: \<^verbatim>\<open>config.UseCopy\<close> and \<^verbatim>\<open>firstInsertIDIsFirst\<close>, with the library of the metrics.\<close>

record 'd exec =
  ex_db :: 'd
  ex_seq :: "64 word"

record strategy =
  st_UseCopy :: bool
  st_firstInsertIDIsFirst :: bool
  st_prom :: prometheus

type_synonym 'd outcome = "'d exec \<times> event list"

definition executeWrite :: "'d sqldb \<Rightarrow> 'd exec \<Rightarrow> string \<Rightarrow> govalue list \<Rightarrow> 'd exec \<times> WriteResult" where
  "executeWrite ops x query params =
     (case db_Exec ops (ex_db x) query params of
        (d, Inl err) \<Rightarrow> (x\<lparr>ex_db := d\<rparr>, err_result err)
      | (d, Inr (affected, lastID)) \<Rightarrow> (x\<lparr>ex_db := d\<rparr>, ok_result affected lastID 1))"

definition executeSingle :: "'d sqldb \<Rightarrow> 'd exec \<Rightarrow> WriteRequest \<Rightarrow> 'd outcome" where
  "executeSingle ops x req =
     (case executeWrite ops x (req_Query req) (req_Params req) of
        (x', result) \<Rightarrow> (x', [Send (req_id req) result]))"

definition executeTrueBatchedDelete :: "'d sqldb \<Rightarrow> 'd exec \<Rightarrow> WriteRequest list \<Rightarrow> panic + 'd outcome" where
  "executeTrueBatchedDelete ops x requests =
     (case batched_delete (req_Query (hd requests)) (length requests) of
        Inl e \<Rightarrow> Inl e
      | Inr query \<Rightarrow>
          if list_ex (\<lambda>req. req_Params req = []) requests then Inl IndexOutOfRange
          else (case db_Exec ops (ex_db x) query (map (\<lambda>req. hd (req_Params req)) requests) of
                  (d, Inl err) \<Rightarrow> Inr (x\<lparr>ex_db := d\<rparr>, send_error requests err)
                | (d, Inr (affected, _)) \<Rightarrow>
                    Inr (x\<lparr>ex_db := d\<rparr>,
                      deliver (length requests) requests
                        (map (\<lambda>_. ok_result affected 0 (int (length requests))) requests))))"

text \<open>The loop of \<open>executePreparedBatch\<close>: the results so far, and whether there was an error.\<close>

fun prepared_loop ::
  "'d sqldb \<Rightarrow> bool \<Rightarrow> nat \<Rightarrow> nat \<Rightarrow> 'd \<Rightarrow> WriteRequest list \<Rightarrow> 'd \<times> WriteResult list \<times> bool" where
  "prepared_loop ops hasReturning stmt n d [] = (d, [], False)"
| "prepared_loop ops hasReturning stmt n d (req # reqs) =
     (let (d1, result, failed) =
        (if hasReturning then
           (case stmt_QueryInt ops d stmt (req_Params req) of
              (d1, Inl err) \<Rightarrow> (d1, err_result err, True)
            | (d1, Inr returnedValue) \<Rightarrow>
                (d1, (ok_result 1 0 (int n))\<lparr>res_ReturningValues := [returnedValue]\<rparr>, False))
         else
           (case stmt_Exec ops d stmt (req_Params req) of
              (d1, Inl err) \<Rightarrow> (d1, err_result err, True)
            | (d1, Inr (affected, lastID)) \<Rightarrow> (d1, ok_result affected lastID (int n), False)));
          (d2, results, hasError) = prepared_loop ops hasReturning stmt n d1 reqs
      in (d2, result # results, failed \<or> hasError))"

text \<open>The deferred \<^verbatim>\<open>stmt.Close\<close> runs when the function returns; its error is dropped.\<close>

definition executePreparedBatch :: "'d sqldb \<Rightarrow> 'd exec \<Rightarrow> WriteRequest list \<Rightarrow> 'd outcome" where
  "executePreparedBatch ops x requests =
     (let firstQuery = req_Query (hd requests); hasReturning = req_HasReturning (hd requests);
          n = length requests
      in case db_Begin ops (ex_db x) of
           (d, Inl err) \<Rightarrow> (x\<lparr>ex_db := d\<rparr>, send_error requests err)
         | (d, Inr tx) \<Rightarrow>
      (case tx_Prepare ops d tx firstQuery of
         (d1, Inl err) \<Rightarrow> (x\<lparr>ex_db := tx_Rollback ops d1 tx\<rparr>, send_error requests err)
       | (d1, Inr stmt) \<Rightarrow>
      (let (d2, results, hasError) = prepared_loop ops hasReturning stmt n d1 requests
       in if hasError then
            (x\<lparr>ex_db := fst (stmt_Close ops (tx_Rollback ops d2 tx) stmt)\<rparr>, send_results requests results)
          else
            (case tx_Commit ops d2 tx of
               (d3, Some err) \<Rightarrow> (x\<lparr>ex_db := fst (stmt_Close ops d3 stmt)\<rparr>, send_error requests err)
             | (d3, None) \<Rightarrow> (x\<lparr>ex_db := fst (stmt_Close ops d3 stmt)\<rparr>, deliver n requests results)))))"

fun fallback_loop ::
  "'d sqldb \<Rightarrow> nat \<Rightarrow> nat \<Rightarrow> 'd \<Rightarrow> WriteRequest list \<Rightarrow> 'd \<times> event list" where
  "fallback_loop ops stmt n d [] = (d, [])"
| "fallback_loop ops stmt n d (req # reqs) =
     (case stmt_Exec ops d stmt (req_Params req) of
        (d1, Inl err) \<Rightarrow>
          (case fallback_loop ops stmt n d1 reqs of
             (d2, evs) \<Rightarrow> (d2, Send (req_id req) (err_result err) # evs))
      | (d1, Inr (affected, lastID)) \<Rightarrow>
          (case fallback_loop ops stmt n d1 reqs of
             (d2, evs) \<Rightarrow> (d2, deliver n [req] [ok_result affected lastID (int n)] @ evs)))"

definition executePreparedBatchFallback :: "'d sqldb \<Rightarrow> 'd exec \<Rightarrow> WriteRequest list \<Rightarrow> 'd outcome" where
  "executePreparedBatchFallback ops x requests =
     (case db_Prepare ops (ex_db x) (req_Query (hd requests)) of
        (d, Inl err) \<Rightarrow> (x\<lparr>ex_db := d\<rparr>, send_error requests err)
      | (d, Inr stmt) \<Rightarrow>
          (case fallback_loop ops stmt (length requests) d requests of
             (d1, evs) \<Rightarrow> (x\<lparr>ex_db := fst (stmt_Close ops d1 stmt)\<rparr>, evs)))"

text \<open>The results of a multi-row INSERT: consecutive ids, computed in 64 bits.\<close>

definition insert_results :: "strategy \<Rightarrow> int \<Rightarrow> nat \<Rightarrow> WriteResult list" where
  "insert_results st rawID n =
     (let firstID = normalizeFirstInsertID (st_firstInsertIDIsFirst st) rawID n
      in map (\<lambda>i. ok_result 1 (wrap64 (firstID + int i)) (int n)) [0..<n])"

definition executeTrueBatchedInsertMultiRow ::
  "'d sqldb \<Rightarrow> strategy \<Rightarrow> 'd exec \<Rightarrow> WriteRequest list \<Rightarrow> 'd outcome" where
  "executeTrueBatchedInsertMultiRow ops st x requests =
     (let firstQuery = req_Query (hd requests); numParams = length (req_Params (hd requests));
          n = length requests;
          allParams = (if numParams = 0 then [] else concat (map req_Params requests))
      in case multi_row_insert firstQuery numParams n of
           None \<Rightarrow> executePreparedBatchFallback ops x requests
         | Some batchQuery \<Rightarrow>
             (case db_Exec ops (ex_db x) batchQuery allParams of
                (d, Inl err) \<Rightarrow> (x\<lparr>ex_db := d\<rparr>, send_error requests err)
              | (d, Inr (_, rawID)) \<Rightarrow>
                  (x\<lparr>ex_db := d\<rparr>, deliver n requests (insert_results st rawID n))))"

fun copy_loop :: "'d sqldb \<Rightarrow> nat \<Rightarrow> 'd \<Rightarrow> WriteRequest list \<Rightarrow> 'd \<times> string option" where
  "copy_loop ops stmt d [] = (d, None)"
| "copy_loop ops stmt d (req # reqs) =
     (case stmt_Exec ops d stmt (req_Params req) of
        (d1, Inl err) \<Rightarrow> (d1, Some err)
      | (d1, Inr _) \<Rightarrow> copy_loop ops stmt d1 reqs)"

definition bulk_results :: "nat \<Rightarrow> WriteResult list" where
  "bulk_results n = map (\<lambda>_. ok_result 1 0 (int n)) [0..<n]"

definition executeCopyBatchedInsert ::
  "'d sqldb \<Rightarrow> strategy \<Rightarrow> 'd exec \<Rightarrow> WriteRequest list \<Rightarrow> 'd outcome" where
  "executeCopyBatchedInsert ops st x requests =
     (case parseInsertStatement (req_Query (hd requests)) of
        Inl _ \<Rightarrow> executeTrueBatchedInsertMultiRow ops st x requests
      | Inr (tableName, columns) \<Rightarrow>
      (case db_Begin ops (ex_db x) of
         (d, Inl err) \<Rightarrow> (x\<lparr>ex_db := d\<rparr>, send_error requests err)
       | (d, Inr txn) \<Rightarrow>
      (case tx_Prepare ops d txn (copy_in ops tableName columns) of
         (d1, Inl err) \<Rightarrow>
           executeTrueBatchedInsertMultiRow ops st (x\<lparr>ex_db := tx_Rollback ops d1 txn\<rparr>) requests
       | (d1, Inr stmt) \<Rightarrow>
      (case copy_loop ops stmt d1 requests of
         (d2, Some err) \<Rightarrow>
           (x\<lparr>ex_db := tx_Rollback ops (fst (stmt_Close ops d2 stmt)) txn\<rparr>, send_error requests err)
       | (d2, None) \<Rightarrow>
      (case stmt_Exec ops d2 stmt [] of
         (d3, Inl err) \<Rightarrow>
           (x\<lparr>ex_db := tx_Rollback ops (fst (stmt_Close ops d3 stmt)) txn\<rparr>, send_error requests err)
       | (d3, Inr _) \<Rightarrow>
      (case stmt_Close ops d3 stmt of
         (d4, Some err) \<Rightarrow> (x\<lparr>ex_db := tx_Rollback ops d4 txn\<rparr>, send_error requests err)
       | (d4, None) \<Rightarrow>
      (case tx_Commit ops d4 txn of
         (d5, Some err) \<Rightarrow> (x\<lparr>ex_db := d5\<rparr>, send_error requests err)
       | (d5, None) \<Rightarrow>
           (x\<lparr>ex_db := d5\<rparr>, deliver (length requests) requests (bulk_results (length requests))))))))))"

text \<open>\<open>executeLoadDataInfileBatchedInsert\<close>; the deferred deregistration of the handler runs last.\<close>

definition executeLoadDataInfileBatchedInsert ::
  "'d sqldb \<Rightarrow> strategy \<Rightarrow> 'd exec \<Rightarrow> WriteRequest list \<Rightarrow> 'd outcome" where
  "executeLoadDataInfileBatchedInsert ops st x requests =
     (case parseInsertStatement (req_Query (hd requests)) of
        Inl _ \<Rightarrow> executeTrueBatchedInsertMultiRow ops st x requests
      | Inr (tableName, columns) \<Rightarrow>
      (let seq = ex_seq x + 1;
           handlerName = ''writebatch_'' @ nat_dec (unat seq);
           x0 = x\<lparr>ex_db := reader_handler ops (ex_db x) handlerName (load_payload requests), ex_seq := seq\<rparr>;
           loadQuery = load_query handlerName tableName columns;
           dereg = (\<lambda>(y, evs). (y\<lparr>ex_db := drop_handler ops (ex_db y) handlerName\<rparr>, evs))
       in dereg
      (case db_Begin ops (ex_db x0) of
         (d, Inl err) \<Rightarrow> (x0\<lparr>ex_db := d\<rparr>, send_error requests err)
       | (d, Inr txn) \<Rightarrow>
      (case tx_Exec ops d txn loadQuery [] of
         (d1, Inl err) \<Rightarrow>
           executeTrueBatchedInsertMultiRow ops st (x0\<lparr>ex_db := tx_Rollback ops d1 txn\<rparr>) requests
       | (d1, Inr _) \<Rightarrow>
      (case tx_Commit ops d1 txn of
         (d2, Some err) \<Rightarrow> (x0\<lparr>ex_db := d2\<rparr>, send_error requests err)
       | (d2, None) \<Rightarrow>
           (x0\<lparr>ex_db := d2\<rparr>, deliver (length requests) requests (bulk_results (length requests))))))))"

definition executeTrueBatchedInsert ::
  "'d sqldb \<Rightarrow> strategy \<Rightarrow> 'd exec \<Rightarrow> WriteRequest list \<Rightarrow> 'd outcome" where
  "executeTrueBatchedInsert ops st x requests =
     (let firstQuery = req_Query (hd requests); numParams = length (req_Params (hd requests))
      in if st_UseCopy st \<and> numParams > 0 \<and> allParamsAreSimple requests then
           if containsPostgresPlaceholder firstQuery then executeCopyBatchedInsert ops st x requests
           else executeLoadDataInfileBatchedInsert ops st x requests
         else executeTrueBatchedInsertMultiRow ops st x requests)"

fun transaction_loop ::
  "'d sqldb \<Rightarrow> nat \<Rightarrow> nat \<Rightarrow> 'd \<Rightarrow> WriteRequest list \<Rightarrow> 'd \<times> (string + WriteResult list)" where
  "transaction_loop ops tx n d [] = (d, Inr [])"
| "transaction_loop ops tx n d (req # reqs) =
     (case tx_Exec ops d tx (req_Query req) (req_Params req) of
        (d1, Inl err) \<Rightarrow> (d1, Inl err)
      | (d1, Inr (affected, lastID)) \<Rightarrow>
          (case transaction_loop ops tx n d1 reqs of
             (d2, Inl err) \<Rightarrow> (d2, Inl err)
           | (d2, Inr results) \<Rightarrow> (d2, Inr (ok_result affected lastID (int n) # results))))"

definition executeTransactionBatch :: "'d sqldb \<Rightarrow> 'd exec \<Rightarrow> WriteRequest list \<Rightarrow> 'd outcome" where
  "executeTransactionBatch ops x requests =
     (case db_Begin ops (ex_db x) of
        (d, Inl err) \<Rightarrow> (x\<lparr>ex_db := d\<rparr>, send_error requests err)
      | (d, Inr tx) \<Rightarrow>
          (case transaction_loop ops tx (length requests) d requests of
             (d1, Inl err) \<Rightarrow> (x\<lparr>ex_db := tx_Rollback ops d1 tx\<rparr>, send_error requests err)
           | (d1, Inr results) \<Rightarrow>
               (case tx_Commit ops d1 tx of
                  (d2, Some err) \<Rightarrow> (x\<lparr>ex_db := d2\<rparr>, send_error requests err)
                | (d2, None) \<Rightarrow> (x\<lparr>ex_db := d2\<rparr>, deliver (length requests) requests results))))"

definition executeBatchedWrites ::
  "'d sqldb \<Rightarrow> strategy \<Rightarrow> 'd exec \<Rightarrow> WriteRequest list \<Rightarrow> panic + 'd outcome" where
  "executeBatchedWrites ops st x requests =
     (let firstQuery = req_Query (hd requests);
          allSame = list_all (\<lambda>req. req_Query req = firstQuery) (tl requests)
      in if allSame then
           if \<not> req_HasReturning (hd requests) \<and> isBatchableInsert firstQuery then
             Inr (executeTrueBatchedInsert ops st x requests)
           else if isBatchableDelete firstQuery then executeTrueBatchedDelete ops x requests
           else Inr (executePreparedBatch ops x requests)
         else Inr (executeTransactionBatch ops x requests))"

text \<open>The part of \<open>executeBatch\<close> that runs the requests it took from the group. The query of the first one, cut to 50 bytes, is the
  label of the metrics that are recorded before; \<^verbatim>\<open>WithLabelValues\<close> panics for a value that Prometheus does not accept. The same label
  and constants of the source are recorded afterwards.\<close>

definition size_calls :: "WriteRequest list \<Rightarrow> (metric \<times> string list) list" where
  "size_calls requests =
     (let queryLabel = truncateQuery (req_Query (hd requests)) 50
      in [(WriteBatchSize, [queryLabel]), (WriteBatchDelay, [queryLabel])])"

lemma size_calls_accepted:
  "checks_labels P \<Longrightarrow> accepts_all P (size_calls rs) \<longleftrightarrow> valid_utf8 (truncateQuery (req_Query (hd rs)) 50)"
  by (simp add: size_calls_def Let_def accepts_all_def checks_labels_def WriteBatchSize_def WriteBatchDelay_def)

lemma size_calls_hd: "rs \<noteq> [] \<Longrightarrow> size_calls [hd rs] = size_calls rs"
  by (simp add: size_calls_def)

definition run_batch ::
  "'d sqldb \<Rightarrow> strategy \<Rightarrow> 'd exec \<Rightarrow> WriteRequest list \<Rightarrow> panic + 'd outcome" where
  "run_batch ops st x requests =
     (if requests = [] then Inr (x, [])
      else if \<not> accepts_all (st_prom st) (size_calls requests) then Inl InvalidLabel
      else if length requests = 1 then Inr (executeSingle ops x (hd requests))
      else executeBatchedWrites ops st x requests)"

definition executeImmediate :: "'d sqldb \<Rightarrow> 'd exec \<Rightarrow> string \<Rightarrow> govalue list \<Rightarrow> 'd exec \<times> WriteResult" where
  "executeImmediate ops x query params =
     (case db_Exec ops (ex_db x) query params of
        (d, Inl err) \<Rightarrow> (x\<lparr>ex_db := d\<rparr>, err_result err)
      | (d, Inr (affected, lastID)) \<Rightarrow> (x\<lparr>ex_db := d\<rparr>, ok_result affected lastID 0))"

text \<open>A database to run batches on: it logs the statements that are committed and those of the open
  transaction, and refuses statements with the parameter \<^verbatim>\<open>bad\<close>.\<close>

record logdb =
  log_done :: "(string \<times> govalue list) list"
  log_pending :: "(string \<times> govalue list) list"
  log_stmt :: string

definition log_fails :: "govalue list \<Rightarrow> bool" where
  "log_fails ps \<longleftrightarrow> VString ''bad'' \<in> set ps"

definition log_db :: "logdb sqldb" where
  "log_db = \<lparr>
     db_Exec = (\<lambda>d q ps. if log_fails ps then (d, Inl ''duplicate key'')
       else (d\<lparr>log_done := log_done d @ [(q, ps)]\<rparr>, Inr (1, int (length (log_done d)) + 1))),
     db_Begin = (\<lambda>d. (d\<lparr>log_pending := []\<rparr>, Inr 0)),
     db_Prepare = (\<lambda>d q. (d\<lparr>log_stmt := q\<rparr>, Inr 0)),
     tx_Exec = (\<lambda>d tx q ps. if log_fails ps then (d, Inl ''duplicate key'')
       else (d\<lparr>log_pending := log_pending d @ [(q, ps)]\<rparr>, Inr (1, 0))),
     tx_Prepare = (\<lambda>d tx q. (d\<lparr>log_stmt := q\<rparr>, Inr 0)),
     tx_Commit = (\<lambda>d tx. (d\<lparr>log_done := log_done d @ log_pending d, log_pending := []\<rparr>, None)),
     tx_Rollback = (\<lambda>d tx. d\<lparr>log_pending := []\<rparr>),
     stmt_Exec = (\<lambda>d stmt ps. if log_fails ps then (d, Inl ''duplicate key'')
       else (d\<lparr>log_pending := log_pending d @ [(log_stmt d, ps)]\<rparr>, Inr (1, 0))),
     stmt_QueryInt = (\<lambda>d stmt ps. if log_fails ps then (d, Inl ''duplicate key'')
       else (d\<lparr>log_pending := log_pending d @ [(log_stmt d, ps)]\<rparr>, Inr 7)),
     stmt_Close = (\<lambda>d stmt. (d, None)),
     copy_in = (\<lambda>table columns. ''COPY '' @ table),
     reader_handler = (\<lambda>d name payload. d),
     drop_handler = (\<lambda>d name. d)\<rparr>"

definition log_start :: "logdb exec" where
  "log_start = \<lparr>ex_db = \<lparr>log_done = [], log_pending = [], log_stmt = []\<rparr>, ex_seq = 0\<rparr>"

definition request :: "nat \<Rightarrow> string \<Rightarrow> govalue list \<Rightarrow> WriteRequest" where
  "request i q ps = \<lparr>req_id = i, req_Query = q, req_Params = ps, req_callback = True,
     req_HasReturning = hasReturningClause q\<rparr>"

definition plain :: strategy where
  "plain = \<lparr>st_UseCopy = False, st_firstInsertIDIsFirst = True, st_prom = documented\<rparr>"

section \<open>One result per request\<close>

text \<open>
  What the batch manager relies on: running a batch sends exactly one result to every request, in the
  order of the batch, and calls only callbacks of its requests, with the size of the batch. \<open>safe\<close> is
  the condition under which it does not panic.
\<close>

locale batch_executor =
  fixes run :: "'x \<Rightarrow> WriteRequest list \<Rightarrow> panic + 'x \<times> event list"
    and safe :: "WriteRequest list \<Rightarrow> bool"
  assumes run_total: "safe rs \<Longrightarrow> \<exists>x' evs. run x rs = Inr (x', evs)"
    and run_once: "run x rs = Inr (x', evs) \<Longrightarrow> map fst (sent evs) = map req_id rs"
    and run_callbacks: "run x rs = Inr (x', evs) \<Longrightarrow> (i, n) \<in> set (notified evs) \<Longrightarrow>
       n = length rs \<and> (\<exists>r \<in> set rs. req_id r = i \<and> req_callback r)"
begin

text \<open>With distinct requests, every request gets one result and no other channel gets any.\<close>

lemma run_unique:
  assumes "run x rs = Inr (x', evs)" and "distinct (map req_id rs)"
  shows "(\<exists>res. filter (\<lambda>e. fst e = i) (sent evs) = [(i, res)]) \<longleftrightarrow> i \<in> req_id ` set rs"
    and "i \<notin> req_id ` set rs \<Longrightarrow> filter (\<lambda>e. fst e = i) (sent evs) = []"
proof -
  have d: "distinct (map fst (sent evs))" and ids: "fst ` set (sent evs) = req_id ` set rs"
    using run_once [OF assms(1)] assms(2) by (auto simp flip: set_map)
  show none: "filter (\<lambda>e. fst e = i) (sent evs) = []" if "i \<notin> req_id ` set rs"
    using that ids by (auto simp: filter_empty_conv)
  have "\<exists>res. filter (\<lambda>e. fst e = i) xs = [(i, res)]" if "distinct (map fst xs)" "i \<in> fst ` set xs"
    for xs :: "(nat \<times> WriteResult) list"
    using that by (induction xs) (force simp: filter_empty_conv)+
  with d ids none show "(\<exists>res. filter (\<lambda>e. fst e = i) (sent evs) = [(i, res)]) \<longleftrightarrow> i \<in> req_id ` set rs"
    by fastforce
qed

end

text \<open>The events of a strategy: one result per request, and callbacks only of the requests.\<close>

definition answers :: "WriteRequest list \<Rightarrow> event list \<Rightarrow> bool" where
  "answers rs evs \<longleftrightarrow> map fst (sent evs) = map req_id rs \<and>
     set (notified evs) \<subseteq> (\<lambda>r. (req_id r, length rs)) ` {r \<in> set rs. req_callback r}"

lemma answers_send_error [simp]: "answers rs (send_error rs e)"
  by (simp add: answers_def comp_def)

lemma answers_deliver [simp]:
  "length results = length rs \<Longrightarrow> answers rs (deliver (length rs) rs results)"
  by (auto simp: answers_def)

lemma answers_send_results [simp]: "length results = length rs \<Longrightarrow> answers rs (send_results rs results)"
  by (simp add: answers_def)

lemma length_prepared_loop:
  "prepared_loop ops ret stmt n d rs = (d', results, err) \<Longrightarrow> length results = length rs"
proof (induction rs arbitrary: d d' results err)
  case (Cons r rs)
  then show ?case
    by (cases ret) (auto simp: Let_def split: prod.splits sum.splits)
qed simp

lemma length_transaction_loop:
  "transaction_loop ops tx n d rs = (d', Inr results) \<Longrightarrow> length results = length rs"
proof (induction rs arbitrary: d d' results)
  case (Cons r rs)
  then show ?case
    by (auto split: prod.splits sum.splits)
qed simp

lemma fallback_loop_answers:
  assumes "fallback_loop ops stmt n d rs = (d', evs)"
  shows "map fst (sent evs) = map req_id rs"
    and "set (notified evs) \<subseteq> (\<lambda>r. (req_id r, n)) ` {r \<in> set rs. req_callback r}"
  using assms
proof (induction rs arbitrary: d d' evs)
  case (Cons r rs)
  { case 1
    with Cons.IH(1) show ?case by (fastforce split: prod.splits sum.splits)
  next
    case 2
    then obtain d1 d2 evs' where "fallback_loop ops stmt n d1 rs = (d2, evs')"
      and "set (notified evs) \<subseteq> (if req_callback r then {(req_id r, n)} else {}) \<union> set (notified evs')"
      by (fastforce split: prod.splits sum.splits if_splits)
    with Cons.IH(2) [of d1 d2 evs'] show ?case
      by (auto split: if_splits) }
qed simp_all

lemma length_results [simp]:
  "length (insert_results st rawID n) = n"
  "length (bulk_results n) = n"
  by (simp_all add: insert_results_def bulk_results_def Let_def)

lemma answers_fallback:
  "executePreparedBatchFallback ops x rs = (x', evs) \<Longrightarrow> answers rs evs"
  by (auto simp: executePreparedBatchFallback_def answers_def comp_def fallback_loop_answers(1) split: prod.splits sum.splits
      dest!: fallback_loop_answers(2))

lemma answers_multi_row:
  "executeTrueBatchedInsertMultiRow ops st x rs = (x', evs) \<Longrightarrow> answers rs evs"
  by (auto simp: executeTrueBatchedInsertMultiRow_def Let_def split: option.splits prod.splits sum.splits
      dest: answers_fallback)

lemma answers_copy:
  "executeCopyBatchedInsert ops st x rs = (x', evs) \<Longrightarrow> answers rs evs"
  by (auto simp: executeCopyBatchedInsert_def split: option.splits prod.splits sum.splits
      dest: answers_multi_row)

lemma answers_load:
  "executeLoadDataInfileBatchedInsert ops st x rs = (x', evs) \<Longrightarrow> answers rs evs"
  by (auto simp: executeLoadDataInfileBatchedInsert_def Let_def split: option.splits prod.splits sum.splits
      dest: answers_multi_row)

lemma answers_insert: "executeTrueBatchedInsert ops st x rs = (x', evs) \<Longrightarrow> answers rs evs"
  by (auto simp: executeTrueBatchedInsert_def Let_def split: if_splits
      dest: answers_multi_row answers_copy answers_load)

lemma answers_prepared: "executePreparedBatch ops x rs = (x', evs) \<Longrightarrow> answers rs evs"
  by (auto simp: executePreparedBatch_def Let_def split: option.splits prod.splits sum.splits if_splits
      dest: length_prepared_loop)

lemma answers_transaction: "executeTransactionBatch ops x rs = (x', evs) \<Longrightarrow> answers rs evs"
  by (auto simp: executeTransactionBatch_def split: option.splits prod.splits sum.splits
      dest: length_transaction_loop)

lemma answers_delete: "executeTrueBatchedDelete ops x rs = Inr (x', evs) \<Longrightarrow> answers rs evs"
  by (auto simp: executeTrueBatchedDelete_def split: prod.splits sum.splits if_splits)

lemma answers_single: "executeSingle ops x r = (x', evs) \<Longrightarrow> answers [r] evs"
  by (auto simp: executeSingle_def answers_def split: prod.splits)

lemmas answers_strategies = answers_insert answers_delete answers_prepared answers_transaction

lemma answers_run_batch: "run_batch ops st x rs = Inr (x', evs) \<Longrightarrow> answers rs evs"
proof (cases rs)
  case Nil
  moreover assume "run_batch ops st x rs = Inr (x', evs)"
  ultimately show ?thesis by (simp add: run_batch_def answers_def)
next
  case (Cons r rs')
  moreover assume "run_batch ops st x rs = Inr (x', evs)"
  ultimately show ?thesis
    by (cases rs') (auto simp: run_batch_def executeBatchedWrites_def Let_def split: if_splits
        dest: answers_single answers_strategies)
qed

text \<open>The only panics: a combined DELETE for a request without parameters, and a label that is refused.\<close>

definition batch_safe :: "strategy \<Rightarrow> WriteRequest list \<Rightarrow> bool" where
  "batch_safe st rs \<longleftrightarrow> (rs \<noteq> [] \<longrightarrow> accepts_all (st_prom st) (size_calls rs)) \<and> list_all (\<lambda>r. isBatchableDelete (req_Query r) \<longrightarrow> req_Params r \<noteq> []) rs"

lemma delete_total:
  assumes "isBatchableDelete (req_Query (hd rs))" and "list_all (\<lambda>r. req_Params r \<noteq> []) rs"
  shows "\<exists>x' evs. executeTrueBatchedDelete ops x rs = Inr (x', evs)"
proof -
  obtain q where "batched_delete (req_Query (hd rs)) (length rs) = Inr q"
    using isBatchableDelete_where [OF assms(1)] by (auto simp: batched_delete_def Let_def)
  moreover have "\<not> list_ex (\<lambda>r. req_Params r = []) rs"
    using assms(2) by (auto simp: list_ex_iff list_all_iff)
  ultimately show ?thesis
    by (auto simp: executeTrueBatchedDelete_def split: prod.splits sum.splits)
qed

lemma run_batch_total:
  assumes safe: "batch_safe st rs"
  shows "\<exists>x' evs. run_batch ops st x rs = Inr (x', evs)"
proof (cases "isBatchableDelete (req_Query (hd rs)) \<and> list_all (\<lambda>r. req_Query r = req_Query (hd rs)) (tl rs)")
  case True
  have "list_all (\<lambda>r. req_Params r \<noteq> []) rs"
    using safe True by (cases rs) (auto simp: batch_safe_def list_all_iff)
  with True delete_total [of rs ops x] have "\<exists>y. run_batch ops st x rs = Inr y"
    using safe by (auto simp: run_batch_def executeBatchedWrites_def Let_def batch_safe_def)
  then show ?thesis by auto
next
  case False
  then have "\<exists>y. run_batch ops st x rs = Inr y"
    using safe by (auto simp: run_batch_def executeBatchedWrites_def Let_def batch_safe_def)
  then show ?thesis by auto
qed

interpretation batch: batch_executor "run_batch ops st" "batch_safe st" for ops st
proof unfold_locales
  fix rs x x' evs i n
  show "batch_safe st rs \<Longrightarrow> \<exists>x' evs. run_batch ops st x rs = Inr (x', evs)"
    by (rule run_batch_total)
  assume "run_batch ops st x rs = Inr (x', evs)"
  then have a: "answers rs evs"
    by (rule answers_run_batch)
  then show "map fst (sent evs) = map req_id rs"
    by (simp add: answers_def)
  show "(i, n) \<in> set (notified evs) \<Longrightarrow> n = length rs \<and> (\<exists>r \<in> set rs. req_id r = i \<and> req_callback r)"
    using a by (auto simp: answers_def)
qed

section \<open>Properties\<close>



lemma transaction_loop_ok:
  "transaction_loop ops tx n d rs = (d', Inr results) \<Longrightarrow> r \<in> set results \<Longrightarrow> res_Error r = None"
proof (induction rs arbitrary: d d' results)
  case (Cons a rs)
  then show ?case by (fastforce split: prod.splits sum.splits)
qed simp

lemma transaction_deliver_ok:
  assumes "transaction_loop ops tx n d rs = (d', Inr results)"
  shows "\<forall>(i, r) \<in> set (sent (deliver m rs results)). res_Error r = None"
  using transaction_loop_ok [OF assms] length_transaction_loop [OF assms] by (auto dest: set_zip_rightD)

text \<open>C22: A mixed batch is all or nothing. Either every request of \<open>executeTransactionBatch\<close> is told of an
  error, or every request is told of success, and then the transaction's commit succeeded and left the
  database in the state the batch ends with.\<close>

theorem transaction_batch_all_or_nothing:
  assumes "executeTransactionBatch ops x rs = (x', evs)"
  shows "(\<forall>(i, r) \<in> set (sent evs). res_Error r \<noteq> None) \<or>
    ((\<forall>(i, r) \<in> set (sent evs). res_Error r = None) \<and> (\<exists>d tx. tx_Commit ops d tx = (ex_db x', None)))"
  using assms
  by (fastforce simp: executeTransactionBatch_def
      split: prod.splits sum.splits option.splits dest: transaction_deliver_ok)

theorem transaction_batch_all_or_nothing_witness:
  "\<exists>x' evs. executeTransactionBatch log_db log_start
       [request 1 ''UPDATE t SET a = 1'' [], request 2 ''UPDATE u SET a = ?'' [VString ''bad'']] = (x', evs) \<and>
     log_done (ex_db x') = [] \<and> sent evs = [(1, err_result ''duplicate key''), (2, err_result ''duplicate key'')] \<and>
     (\<forall>(i, r) \<in> set (sent evs). res_Error r \<noteq> None)"
proof -
  let ?rs = "[request 1 ''UPDATE t SET a = 1'' [], request 2 ''UPDATE u SET a = ?'' [VString ''bad'']]"
  obtain x' evs where e: "executeTransactionBatch log_db log_start ?rs = (x', evs)"
    by (cases "executeTransactionBatch log_db log_start ?rs")
  have "log_done (ex_db x') = []" and s: "sent evs = [(1, err_result ''duplicate key''), (2, err_result ''duplicate key'')]"
    using e by (auto simp: executeTransactionBatch_def log_db_def log_start_def log_fails_def request_def)
  with transaction_batch_all_or_nothing [OF e] e show ?thesis by auto
qed

text \<open>A batch of equal statements is not all or nothing towards its requests. When one execution of
  the prepared statement fails, the whole transaction is rolled back, and yet the requests whose own
  execution had gone through are told that they succeeded: here two UPDATEs, the second of which fails;
  nothing is committed, and the first is answered with one affected row and no error.\<close>

lemma prepared_rollback_reports_success:
  "\<exists>x' evs. run_batch log_db plain log_start
       [request 1 ''UPDATE t SET a = ?'' [VInt 1], request 2 ''UPDATE t SET a = ?'' [VString ''bad'']] = Inr (x', evs) \<and>
     log_done (ex_db x') = [] \<and>
     sent evs = [(1, ok_result 1 0 2), (2, err_result ''duplicate key'')]"
proof -
  have "\<not> isBatchableInsert ''UPDATE t SET a = ?''" and "\<not> isBatchableDelete ''UPDATE t SET a = ?''"
    and "\<not> hasReturningClause ''UPDATE t SET a = ?''" and "valid_utf8 (truncateQuery ''UPDATE t SET a = ?'' 50)"
    by code_simp+
  then show ?thesis
    by (simp add: run_batch_def size_calls_accepted documented_rules executeBatchedWrites_def executePreparedBatch_def log_db_def log_start_def
        log_fails_def request_def plain_def send_results_def)
qed

text \<open>A DELETE with a literal question mark and no parameters, sent twice within a batch window, makes
  the executor index an empty parameter list: it panics, in a goroutine of its own, and takes the proxy
  down with it.\<close>

lemma delete_without_params_panics:
  "run_batch log_db plain log_start
     [request 1 ''DELETE FROM t WHERE name = \"?\"'' [], request 2 ''DELETE FROM t WHERE name = \"?\"'' []]
   = Inl IndexOutOfRange"
  by code_simp

lemma insert_results_ids:
  assumes "- (2 ^ 63) \<le> rawID - int n" and "rawID + int n < 2 ^ 63"
  shows "insert_results st rawID n = map (\<lambda>i. ok_result 1
    (if st_firstInsertIDIsFirst st then rawID + int i else rawID - (int n - 1) + int i) (int n)) [0..<n]"
  using assms by (auto simp: insert_results_def Let_def normalizeFirstInsertID_def wrap64_id)

lemma length_concat_params:
  "\<forall>r \<in> set rs. length (req_Params r) = k \<Longrightarrow> length (concat (map req_Params rs)) = length rs * k"
  by (induction rs) auto

text \<open>C36: A multi-row INSERT is the one statement it should be. For \<open>n\<close> requests with \<open>k\<close> parameters each, the
  statement sent is the text up to VALUES and then \<open>n\<close> rows of \<open>k\<close> placeholders (numbered from \<^verbatim>\<open>$1\<close> to \<^verbatim>\<open>$(n*k)\<close>
  for PostgreSQL), with the parameters of the requests in order, as many as there are placeholders; and
  if it succeeds the requests get one affected row each and consecutive ids, starting at the reported
  id, or ending there for drivers that report the last one.\<close>

theorem multi_row_insert_batch:
  assumes "rs \<noteq> []" and "\<forall>r \<in> set rs. req_Query r = q \<and> length (req_Params r) = k" and "k > 0"
    and "Index (ToUpper q) ''VALUES'' = Some v"
    and "query = take (v + 6) q @ '' '' @
      Join (map (\<lambda>i. ''('' @ Join (map (\<lambda>j. if containsPostgresPlaceholder q then ''$'' @ nat_dec (i * k + 1 + j) else ''?'')
              [0..<k]) '','' @ '')'') [0..<length rs]) '', ''"
    and "params = concat (map req_Params rs)"
    and "db_Exec ops (ex_db x) query params = (d, Inr (affected, rawID))"
    and "- (2 ^ 63) \<le> rawID - int (length rs)" and "rawID + int (length rs) < 2 ^ 63"
  shows "length params = length rs * k \<and>
    executeTrueBatchedInsertMultiRow ops st x rs = (x\<lparr>ex_db := d\<rparr>, deliver (length rs) rs
      (map (\<lambda>i. ok_result 1 (if st_firstInsertIDIsFirst st then rawID + int i else rawID - (int (length rs) - 1) + int i)
         (int (length rs))) [0..<length rs]))"
proof
  show "length params = length rs * k"
    using assms(2,6) by (simp add: length_concat_params)
  have hd: "req_Query (hd rs) = q" "length (req_Params (hd rs)) = k"
    using assms(1,2) by simp_all
  have "multi_row_insert q k (length rs) = Some query"
    unfolding multi_row_insert_rows [OF assms(4,3)] assms(5) value_row_def item_def by (rule refl)
  with assms(3,6,7) hd insert_results_ids [OF assms(8,9), of st]
  show "executeTrueBatchedInsertMultiRow ops st x rs = (x\<lparr>ex_db := d\<rparr>, deliver (length rs) rs
      (map (\<lambda>i. ok_result 1 (if st_firstInsertIDIsFirst st then rawID + int i else rawID - (int (length rs) - 1) + int i)
         (int (length rs))) [0..<length rs]))"
    by (simp add: executeTrueBatchedInsertMultiRow_def Let_def)
qed

theorem multi_row_insert_batch_witness:
  "\<exists>x'. executeTrueBatchedInsertMultiRow log_db plain log_start
     [request 1 ''INSERT INTO t (a) VALUES ($1)'' [VInt 10], request 2 ''INSERT INTO t (a) VALUES ($1)'' [VInt 20]]
   = (x', [Send 1 (ok_result 1 1 2), Notify 1 2, Send 2 (ok_result 1 2 2), Notify 2 2]) \<and>
   log_done (ex_db x') = [(''INSERT INTO t (a) VALUES ($1), ($2)'', [VInt 10, VInt 20])]"
proof -
  let ?q = "''INSERT INTO t (a) VALUES ($1)''"
  let ?rs = "[request 1 ?q [VInt 10], request 2 ?q [VInt 20]]"
  let ?d = "\<lparr>log_done = [(''INSERT INTO t (a) VALUES ($1), ($2)'', [VInt 10, VInt 20])], log_pending = [], log_stmt = []\<rparr>"
  have v: "Index (ToUpper ?q) ''VALUES'' = Some 18" and pg: "containsPostgresPlaceholder ?q"
    and ds: "nat_dec 1 = ''1''" "nat_dec 2 = ''2''"
    by code_simp+
  have q: "''INSERT INTO t (a) VALUES ($1), ($2)'' = take (18 + 6) ?q @ '' '' @
      Join (map (\<lambda>i. ''('' @ Join (map (\<lambda>j. if containsPostgresPlaceholder ?q then ''$'' @ nat_dec (i * 1 + 1 + j) else ''?'')
              [0..<1]) '','' @ '')'') [0..<length ?rs]) '', ''"
    using pg ds by (simp add: numeral_2_eq_2)
  have e: "db_Exec log_db (ex_db log_start) ''INSERT INTO t (a) VALUES ($1), ($2)'' [VInt 10, VInt 20] = (?d, Inr (1, 1))"
    by (simp add: log_db_def log_start_def log_fails_def)
  have "executeTrueBatchedInsertMultiRow log_db plain log_start ?rs = (log_start\<lparr>ex_db := ?d\<rparr>, deliver (length ?rs) ?rs
      (map (\<lambda>i. ok_result 1 (if st_firstInsertIDIsFirst plain then 1 + int i else 1 - (int (length ?rs) - 1) + int i)
         (int (length ?rs))) [0..<length ?rs]))"
    using multi_row_insert_batch [OF _ _ _ v q _ e, of plain] by (simp add: request_def)
  then show ?thesis
    by (simp add: plain_def request_def)
qed

end
