(* ===== verification/WB_Manager.thy ===== *)
theory WB_Manager
  imports WB_Executor
begin

text \<open>
  The batch manager, \<^verbatim>\<open>writebatch/manager.go\<close> and \<^verbatim>\<open>executeBatch\<close> of \<^verbatim>\<open>executor.go\<close>: concurrent callers of \<^verbatim>\<open>Enqueue\<close>, the
  groups they join, the timers of the groups and the goroutines that execute them. The state has the
  heap of groups, the map from batch keys to groups, the goroutines' control points and the result
  channels; a step is one atomic action: an access of the map, a critical section under a group's mutex,
  stopping a timer, starting a goroutine, a send or a receive. The callers' context is never cancelled,
  as both proxies pass the background context. What a batch does is \<open>run_batch\<close>, from any state of the
  database, since other batches and clients use the database at the same time.
\<close>

section \<open>State\<close>

datatype timer = NoTimer | Pending | Expired | Stopped

record BatchGroup =
  grp_BatchKey :: string
  grp_Requests :: "WriteRequest list option"
  grp_timer :: timer

text \<open>The control points of a call of \<open>Enqueue\<close>.\<close>

datatype rpc =
    RNew
  | RLookup
  | RCreate
  | RLoaded nat
  | RStopping nat
  | RSpawning nat
  | RWaiting
  | RDone WriteResult
  | RPanicked

text \<open>The control points of a goroutine in \<open>executeBatch\<close>.\<close>

datatype epc =
    EStart
  | EClosed
  | EOpen
  | EDelete "WriteRequest list"
  | ERun "WriteRequest list"
  | ESend "event list"
  | EPanicked

record executor =
  ex_key :: string
  ex_group :: nat
  ex_pc :: epc

record Manager =
  mgr_groups :: "(string, nat) gomap"
  mgr_heap :: "BatchGroup list"
  mgr_closed :: bool
  mgr_batchCount :: nat
  mgr_execs :: "executor list"
  mgr_pc :: "nat \<Rightarrow> rpc"
  mgr_chan :: "nat \<Rightarrow> WriteResult list"
  mgr_calls :: "(nat \<times> int) list"

text \<open>The arguments of a call, by the number of the call. \<open>job_req\<close> is the request it makes.\<close>

record job =
  job_key :: string
  job_batchMs :: int
  job_req :: WriteRequest

definition New_manager :: Manager where
  "New_manager = \<lparr>mgr_groups = [], mgr_heap = [], mgr_closed = False, mgr_batchCount = 0, mgr_execs = [],
     mgr_pc = (\<lambda>_. RNew), mgr_chan = (\<lambda>_. []), mgr_calls = []\<rparr>"

definition goto_req :: "Manager \<Rightarrow> nat \<Rightarrow> rpc \<Rightarrow> Manager" where
  "goto_req m i l = m\<lparr>mgr_pc := (mgr_pc m)(i := l)\<rparr>"

definition set_group :: "Manager \<Rightarrow> nat \<Rightarrow> BatchGroup \<Rightarrow> Manager" where
  "set_group m g grp = m\<lparr>mgr_heap := (mgr_heap m)[g := grp]\<rparr>"

definition goto_exec :: "Manager \<Rightarrow> nat \<Rightarrow> epc \<Rightarrow> Manager" where
  "goto_exec m e l = m\<lparr>mgr_execs := (mgr_execs m)[e := (mgr_execs m ! e)\<lparr>ex_pc := l\<rparr>]\<rparr>"

definition spawn :: "Manager \<Rightarrow> string \<Rightarrow> nat \<Rightarrow> Manager" where
  "spawn m key g = m\<lparr>mgr_execs := mgr_execs m @ [\<lparr>ex_key = key, ex_group = g, ex_pc = EStart\<rparr>]\<rparr>"

section \<open>The steps of Enqueue\<close>

text \<open>The closed check, and the immediate execution when there is no batch window.\<close>

definition Enqueue_begin :: "'d sqldb \<Rightarrow> 'd exec \<Rightarrow> job \<Rightarrow> nat \<Rightarrow> Manager \<Rightarrow> Manager" where
  "Enqueue_begin ops x j i m =
     (if mgr_closed m then goto_req m i (RDone (err_result ErrManagerClosed))
      else if job_batchMs j = 0 then
        (let result = snd (executeImmediate ops x (req_Query (job_req j)) (req_Params (job_req j)));
             m' = (if req_callback (job_req j) then m\<lparr>mgr_calls := mgr_calls m @ [(i, res_BatchSize result)]\<rparr> else m)
         in goto_req m' i (RDone result))
      else goto_req m i RLookup)"

definition Enqueue_load :: "job \<Rightarrow> nat \<Rightarrow> Manager \<Rightarrow> Manager" where
  "Enqueue_load j i m =
     (case mget (mgr_groups m) (job_key j) of
        Some g \<Rightarrow> goto_req m i (RLoaded g)
      | None \<Rightarrow> goto_req m i RCreate)"

text \<open>A new group and \<^verbatim>\<open>LoadOrStore\<close>; \<^verbatim>\<open>make\<close> panics for a negative capacity.\<close>

definition Enqueue_create :: "Config \<Rightarrow> job \<Rightarrow> nat \<Rightarrow> Manager \<Rightarrow> Manager" where
  "Enqueue_create cfg j i m =
     (if cfg_MaxBatchSize cfg < 0 then goto_req m i RPanicked
      else let g = length (mgr_heap m);
               m' = m\<lparr>mgr_heap := mgr_heap m @ [\<lparr>grp_BatchKey = job_key j, grp_Requests = Some [], grp_timer = NoTimer\<rparr>]\<rparr>
           in case mget (mgr_groups m) (job_key j) of
                Some g' \<Rightarrow> goto_req m' i (RLoaded g')
              | None \<Rightarrow> goto_req (m'\<lparr>mgr_groups := mset_key (mgr_groups m) (job_key j) g\<rparr>) i (RLoaded g))"

text \<open>The critical section: append the request, start the timer for the first one, take a full group out
  of the map; a group that was executed already means to start over.\<close>

definition Enqueue_append :: "Config \<Rightarrow> job \<Rightarrow> nat \<Rightarrow> nat \<Rightarrow> Manager \<Rightarrow> Manager" where
  "Enqueue_append cfg j i g m =
     (let grp = mgr_heap m ! g
      in case grp_Requests grp of
           None \<Rightarrow> goto_req m i RNew
         | Some rs \<Rightarrow>
             (let isFirst = (length rs = 0);
                  grp' = grp\<lparr>grp_Requests := Some (rs @ [job_req j])\<rparr>;
                  currentSize = length rs + 1
              in if isFirst then goto_req (set_group m g (grp'\<lparr>grp_timer := Pending\<rparr>)) i RWaiting
                 else if int currentSize \<ge> cfg_MaxBatchSize cfg then
                   goto_req ((set_group m g grp')\<lparr>mgr_groups := mdelete (mgr_groups m) (job_key j)\<rparr>) i (RStopping g)
                 else goto_req (set_group m g grp') i RWaiting))"

definition Enqueue_stop :: "nat \<Rightarrow> nat \<Rightarrow> Manager \<Rightarrow> Manager" where
  "Enqueue_stop i g m =
     (let grp = mgr_heap m ! g
      in goto_req (set_group m g (if grp_timer grp = Pending then grp\<lparr>grp_timer := Stopped\<rparr> else grp)) i (RSpawning g))"

definition Enqueue_spawn :: "job \<Rightarrow> nat \<Rightarrow> nat \<Rightarrow> Manager \<Rightarrow> Manager" where
  "Enqueue_spawn j i g m = goto_req (spawn m (job_key j) g) i RWaiting"

section \<open>The steps of executeBatch\<close>

text \<open>The step of an executor that needs no database. Sending blocks while the buffer of the channel, which
  holds one result, is full.\<close>

definition exec_step :: "nat \<Rightarrow> Manager \<Rightarrow> Manager option" where
  "exec_step e m =
     (let x = mgr_execs m ! e; grp = mgr_heap m ! ex_group x
      in case ex_pc x of
           EStart \<Rightarrow> Some (goto_exec m e (if mgr_closed m then EClosed else EOpen))
         | EClosed \<Rightarrow>
             Some (goto_exec m e (ESend (send_error (case grp_Requests grp of Some rs \<Rightarrow> rs | None \<Rightarrow> []) ErrManagerClosed)))
         | EOpen \<Rightarrow>
             Some (goto_exec (set_group m (ex_group x) (grp\<lparr>grp_Requests := None\<rparr>)) e
               (EDelete (case grp_Requests grp of Some rs \<Rightarrow> rs | None \<Rightarrow> [])))
         | EDelete rs \<Rightarrow>
             (let m' = (if mget (mgr_groups m) (ex_key x) = Some (ex_group x)
                        then m\<lparr>mgr_groups := mdelete (mgr_groups m) (ex_key x)\<rparr> else m)
              in Some (if rs = [] then goto_exec m' e (ESend [])
                       else goto_exec (m'\<lparr>mgr_batchCount := mgr_batchCount m + 1\<rparr>) e (ERun rs)))
         | ESend (Send i res # evs) \<Rightarrow>
             (if mgr_chan m i = [] then Some (goto_exec (m\<lparr>mgr_chan := (mgr_chan m)(i := [res])\<rparr>) e (ESend evs)) else None)
         | ESend (Notify i n # evs) \<Rightarrow>
             Some (goto_exec (m\<lparr>mgr_calls := mgr_calls m @ [(i, int n)]\<rparr>) e (ESend evs))
         | _ \<Rightarrow> None)"

section \<open>The system\<close>

datatype 'd mact =
    Begin nat "'d exec"
  | Load nat
  | Create nat
  | Append nat
  | StopTimer nat
  | Spawn nat
  | Receive nat
  | Fire nat
  | Exec nat
  | Batch nat "'d exec"

text \<open>
  One step: a call of \<open>Enqueue\<close> goes on, a timer fires (its goroutine gets the group's key), an executor
  goes on, or it runs its batch from some state of the database.
\<close>

fun mnext :: "'d sqldb \<Rightarrow> strategy \<Rightarrow> Config \<Rightarrow> (nat \<Rightarrow> job) \<Rightarrow> Manager \<Rightarrow> 'd mact \<Rightarrow> Manager option" where
  "mnext ops st cfg jobs m (Begin i x) =
     (if mgr_pc m i = RNew then Some (Enqueue_begin ops x (jobs i) i m) else None)"
| "mnext ops st cfg jobs m (Load i) =
     (if mgr_pc m i = RLookup then Some (Enqueue_load (jobs i) i m) else None)"
| "mnext ops st cfg jobs m (Create i) =
     (if mgr_pc m i = RCreate then Some (Enqueue_create cfg (jobs i) i m) else None)"
| "mnext ops st cfg jobs m (Append i) =
     (case mgr_pc m i of RLoaded g \<Rightarrow> Some (Enqueue_append cfg (jobs i) i g m) | _ \<Rightarrow> None)"
| "mnext ops st cfg jobs m (StopTimer i) =
     (case mgr_pc m i of RStopping g \<Rightarrow> Some (Enqueue_stop i g m) | _ \<Rightarrow> None)"
| "mnext ops st cfg jobs m (Spawn i) =
     (case mgr_pc m i of RSpawning g \<Rightarrow> Some (Enqueue_spawn (jobs i) i g m) | _ \<Rightarrow> None)"
| "mnext ops st cfg jobs m (Receive i) =
     (case (mgr_pc m i, mgr_chan m i) of
        (RWaiting, res # rest) \<Rightarrow> Some (goto_req (m\<lparr>mgr_chan := (mgr_chan m)(i := rest)\<rparr>) i (RDone res))
      | _ \<Rightarrow> None)"
| "mnext ops st cfg jobs m (Fire g) =
     (if g < length (mgr_heap m) \<and> grp_timer (mgr_heap m ! g) = Pending then
        Some (spawn (set_group m g ((mgr_heap m ! g)\<lparr>grp_timer := Expired\<rparr>)) (grp_BatchKey (mgr_heap m ! g)) g)
      else None)"
| "mnext ops st cfg jobs m (Exec e) =
     (if e < length (mgr_execs m) then exec_step e m else None)"
| "mnext ops st cfg jobs m (Batch e x) =
     (if e < length (mgr_execs m) then
        (case ex_pc (mgr_execs m ! e) of
           ERun rs \<Rightarrow>
             (case run_batch ops st x rs of
                Inl p \<Rightarrow> Some (goto_exec m e EPanicked)
              | Inr (x', evs) \<Rightarrow> Some (goto_exec m e (ESend evs)))
         | _ \<Rightarrow> None)
      else None)"

text \<open>Reachable states of a manager that is not closed, and runs of it.\<close>

inductive mreach :: "'d sqldb \<Rightarrow> strategy \<Rightarrow> Config \<Rightarrow> (nat \<Rightarrow> job) \<Rightarrow> Manager \<Rightarrow> bool" for ops st cfg jobs where
  start: "mreach ops st cfg jobs New_manager"
| step: "mreach ops st cfg jobs m \<Longrightarrow> mnext ops st cfg jobs m a = Some m' \<Longrightarrow> mreach ops st cfg jobs m'"

fun mrun :: "'d sqldb \<Rightarrow> strategy \<Rightarrow> Config \<Rightarrow> (nat \<Rightarrow> job) \<Rightarrow> Manager \<Rightarrow> 'd mact list \<Rightarrow> Manager option" where
  "mrun ops st cfg jobs m [] = Some m"
| "mrun ops st cfg jobs m (a # as) =
     (case mnext ops st cfg jobs m a of None \<Rightarrow> None | Some m' \<Rightarrow> mrun ops st cfg jobs m' as)"

definition Close_manager :: "Manager \<Rightarrow> Manager" where
  "Close_manager m = m\<lparr>mgr_closed := True\<rparr>"

section \<open>The invariant\<close>

text \<open>Where a request can be: in a group, in the hands of an executor, or answered in its channel.\<close>

definition group_ids :: "BatchGroup \<Rightarrow> nat list" where
  "group_ids grp = (case grp_Requests grp of None \<Rightarrow> [] | Some rs \<Rightarrow> map req_id rs)"

definition exec_ids :: "executor \<Rightarrow> nat list" where
  "exec_ids x = (case ex_pc x of
       EDelete rs \<Rightarrow> map req_id rs | ERun rs \<Rightarrow> map req_id rs | ESend evs \<Rightarrow> map fst (sent evs) | _ \<Rightarrow> [])"

definition tokens :: "Manager \<Rightarrow> nat \<Rightarrow> nat" where
  "tokens m i = sum_list (map (\<lambda>grp. count_list (group_ids grp) i) (mgr_heap m)) +
     sum_list (map (\<lambda>x. count_list (exec_ids x) i) (mgr_execs m)) + length (mgr_chan m i)"

definition enqueued :: "rpc \<Rightarrow> bool" where
  "enqueued l \<longleftrightarrow> (\<exists>g. l = RStopping g \<or> l = RSpawning g) \<or> l = RWaiting"

text \<open>A group is covered when somebody will execute it.\<close>

definition covered :: "Manager \<Rightarrow> nat \<Rightarrow> bool" where
  "covered m g \<longleftrightarrow> grp_timer (mgr_heap m ! g) = Pending \<or>
     (\<exists>x \<in> set (mgr_execs m). ex_group x = g \<and> (ex_pc x = EStart \<or> ex_pc x = EOpen)) \<or>
     (\<exists>i. mgr_pc m i = RStopping g \<or> mgr_pc m i = RSpawning g)"

definition pc_groups :: "rpc \<Rightarrow> nat set" where
  "pc_groups l = (case l of RLoaded g \<Rightarrow> {g} | RStopping g \<Rightarrow> {g} | RSpawning g \<Rightarrow> {g} | _ \<Rightarrow> {})"

definition exec_reqs :: "executor \<Rightarrow> WriteRequest list" where
  "exec_reqs x = (case ex_pc x of EDelete rs \<Rightarrow> rs | ERun rs \<Rightarrow> rs | _ \<Rightarrow> [])"

definition group_reqs :: "BatchGroup \<Rightarrow> WriteRequest list" where
  "group_reqs grp = (case grp_Requests grp of None \<Rightarrow> [] | Some rs \<Rightarrow> rs)"

text \<open>Every request that was enqueued and not answered is in exactly one place, and no other request is anywhere.\<close>

definition tok_ok :: "Manager \<Rightarrow> bool" where
  "tok_ok m \<longleftrightarrow> (\<forall>i. tokens m i = (if enqueued (mgr_pc m i) then 1 else 0))"

text \<open>Groups that are referred to exist.\<close>

definition refs_ok :: "Manager \<Rightarrow> bool" where
  "refs_ok m \<longleftrightarrow>
     (\<forall>k g. mget (mgr_groups m) k = Some g \<longrightarrow> g < length (mgr_heap m)) \<and>
     (\<forall>i. \<forall>g \<in> pc_groups (mgr_pc m i). g < length (mgr_heap m)) \<and>
     (\<forall>x \<in> set (mgr_execs m). ex_group x < length (mgr_heap m))"

text \<open>Every group with requests is covered.\<close>

definition cov_ok :: "Manager \<Rightarrow> bool" where
  "cov_ok m \<longleftrightarrow> (\<forall>g < length (mgr_heap m). group_reqs (mgr_heap m ! g) \<noteq> [] \<longrightarrow> covered m g)"

text \<open>The requests under way are those of the calls.\<close>

definition reqs_ok :: "(nat \<Rightarrow> job) \<Rightarrow> Manager \<Rightarrow> bool" where
  "reqs_ok jobs m \<longleftrightarrow>
     (\<forall>grp \<in> set (mgr_heap m). \<forall>r \<in> set (group_reqs grp). r = job_req (jobs (req_id r))) \<and>
     (\<forall>x \<in> set (mgr_execs m). \<forall>r \<in> set (exec_reqs x). r = job_req (jobs (req_id r)))"

definition alive :: "Manager \<Rightarrow> bool" where
  "alive m \<longleftrightarrow> \<not> mgr_closed m \<and> (\<forall>x \<in> set (mgr_execs m). ex_pc x \<noteq> EClosed \<and> ex_pc x \<noteq> EPanicked) \<and>
     (\<forall>i. mgr_pc m i \<noteq> RPanicked)"

definition minv :: "(nat \<Rightarrow> job) \<Rightarrow> Manager \<Rightarrow> bool" where
  "minv jobs m \<longleftrightarrow> tok_ok m \<and> refs_ok m \<and> cov_ok m \<and> reqs_ok jobs m \<and> alive m"

text \<open>Calls that do not make the executor panic: their numbers are their channels, their queries give labels that are
  accepted, and a DELETE that would be combined has a parameter.\<close>

definition jobs_ok :: "strategy \<Rightarrow> (nat \<Rightarrow> job) \<Rightarrow> bool" where
  "jobs_ok st jobs \<longleftrightarrow> (\<forall>i. req_id (job_req (jobs i)) = i \<and> accepts_all (st_prom st) (size_calls [job_req (jobs i)]) \<and>
     (isBatchableDelete (req_Query (job_req (jobs i))) \<longrightarrow> req_Params (job_req (jobs i)) \<noteq> []))"

section \<open>Preservation\<close>

lemma goto_req_sel [simp]:
  "mgr_groups (goto_req m i l) = mgr_groups m"
  "mgr_heap (goto_req m i l) = mgr_heap m"
  "mgr_closed (goto_req m i l) = mgr_closed m"
  "mgr_execs (goto_req m i l) = mgr_execs m"
  "mgr_pc (goto_req m i l) = (mgr_pc m)(i := l)"
  "mgr_chan (goto_req m i l) = mgr_chan m"
  by (simp_all add: goto_req_def)

lemma set_group_sel [simp]:
  "mgr_groups (set_group m g grp) = mgr_groups m"
  "mgr_heap (set_group m g grp) = (mgr_heap m)[g := grp]"
  "mgr_closed (set_group m g grp) = mgr_closed m"
  "mgr_execs (set_group m g grp) = mgr_execs m"
  "mgr_pc (set_group m g grp) = mgr_pc m"
  "mgr_chan (set_group m g grp) = mgr_chan m"
  by (simp_all add: set_group_def)

lemma goto_exec_sel [simp]:
  "mgr_groups (goto_exec m e l) = mgr_groups m"
  "mgr_heap (goto_exec m e l) = mgr_heap m"
  "mgr_closed (goto_exec m e l) = mgr_closed m"
  "mgr_execs (goto_exec m e l) = (mgr_execs m)[e := (mgr_execs m ! e)\<lparr>ex_pc := l\<rparr>]"
  "mgr_pc (goto_exec m e l) = mgr_pc m"
  "mgr_chan (goto_exec m e l) = mgr_chan m"
  by (simp_all add: goto_exec_def)

lemma spawn_sel [simp]:
  "mgr_groups (spawn m k g) = mgr_groups m"
  "mgr_heap (spawn m k g) = mgr_heap m"
  "mgr_closed (spawn m k g) = mgr_closed m"
  "mgr_execs (spawn m k g) = mgr_execs m @ [\<lparr>ex_key = k, ex_group = g, ex_pc = EStart\<rparr>]"
  "mgr_pc (spawn m k g) = mgr_pc m"
  "mgr_chan (spawn m k g) = mgr_chan m"
  by (simp_all add: spawn_def)

lemma sum_list_upd:
  "k < length xs \<Longrightarrow> sum_list (map f (xs[k := y])) + f (xs ! k) = sum_list (map f xs) + (f y :: nat)"
  by (induction xs arbitrary: k) (auto split: nat.splits)

lemma tokens_frame:
  "mgr_heap m' = mgr_heap m \<Longrightarrow> mgr_execs m' = mgr_execs m \<Longrightarrow> mgr_chan m' = mgr_chan m \<Longrightarrow> tokens m' = tokens m"
  by (simp add: tokens_def fun_eq_iff)

lemma tokens_heap:
  assumes "g < length (mgr_heap m)" and "mgr_heap m' = (mgr_heap m)[g := grp]"
    and "mgr_execs m' = mgr_execs m" and "mgr_chan m' = mgr_chan m"
  shows "tokens m' i + count_list (group_ids (mgr_heap m ! g)) i = tokens m i + count_list (group_ids grp) i"
  using sum_list_upd [OF assms(1), of "\<lambda>grp. count_list (group_ids grp) i" grp] assms(2-)
  by (simp add: tokens_def)

lemma tokens_same_ids:
  assumes "g < length (mgr_heap m)" and "mgr_heap m' = (mgr_heap m)[g := grp]"
    and "mgr_execs m' = mgr_execs m" and "mgr_chan m' = mgr_chan m"
    and "group_ids grp = group_ids (mgr_heap m ! g)"
  shows "tokens m' = tokens m"
  using tokens_heap [OF assms(1-4)] assms(5) by (simp add: fun_eq_iff)

lemma tokens_exec:
  assumes "e < length (mgr_execs m)" and "mgr_execs m' = (mgr_execs m)[e := x]"
    and "mgr_heap m' = mgr_heap m"
  shows "tokens m' i + count_list (exec_ids (mgr_execs m ! e)) i + length (mgr_chan m i)
    = tokens m i + count_list (exec_ids x) i + length (mgr_chan m' i)"
  using sum_list_upd [OF assms(1), of "\<lambda>x. count_list (exec_ids x) i" x] assms(2-)
  by (simp add: tokens_def)

lemma exec_ids_upd [simp]: 
  "exec_ids (x\<lparr>ex_pc := l\<rparr>) = (case l of
       EDelete rs \<Rightarrow> map req_id rs | ERun rs \<Rightarrow> map req_id rs | ESend evs \<Rightarrow> map fst (sent evs) | _ \<Rightarrow> [])"
  by (simp add: exec_ids_def)

lemma enqueued_simps [simp]:
  "\<not> enqueued RNew" "\<not> enqueued RLookup" "\<not> enqueued RCreate" "\<not> enqueued (RLoaded g)"
  "enqueued (RStopping g)" "enqueued (RSpawning g)" "enqueued RWaiting" "\<not> enqueued (RDone r)" "\<not> enqueued RPanicked"
  by (simp_all add: enqueued_def)

lemma pc_groups_simps [simp]:
  "pc_groups RNew = {}" "pc_groups RLookup = {}" "pc_groups RCreate = {}" "pc_groups (RLoaded g) = {g}"
  "pc_groups (RStopping g) = {g}" "pc_groups (RSpawning g) = {g}" "pc_groups RWaiting = {}"
  "pc_groups (RDone r) = {}" "pc_groups RPanicked = {}"
  by (simp_all add: pc_groups_def)

lemma refs_req:
  assumes "refs_ok m" and "mgr_pc m i = l" and "g \<in> pc_groups l" shows "g < length (mgr_heap m)"
  using assms by (auto simp: refs_ok_def)

lemma group_ids_reqs: "group_ids grp = map req_id (group_reqs grp)"
  by (simp add: group_ids_def group_reqs_def split: option.splits)

lemma begin_frame:
  "mgr_heap (Enqueue_begin ops x j i m) = mgr_heap m"
  "mgr_execs (Enqueue_begin ops x j i m) = mgr_execs m"
  "mgr_chan (Enqueue_begin ops x j i m) = mgr_chan m"
  "mgr_groups (Enqueue_begin ops x j i m) = mgr_groups m"
  "mgr_closed (Enqueue_begin ops x j i m) = mgr_closed m"
  by (simp_all add: Enqueue_begin_def Let_def)

lemma begin_pc:
  "\<exists>l. mgr_pc (Enqueue_begin ops x j i m) = (mgr_pc m)(i := l) \<and> (l = RLookup \<or> (\<exists>r. l = RDone r))"
proof -
  have "mgr_pc (Enqueue_begin ops x j i m) = (mgr_pc m)(i := mgr_pc (Enqueue_begin ops x j i m) i)"
    and "mgr_pc (Enqueue_begin ops x j i m) i = RLookup \<or> (\<exists>r. mgr_pc (Enqueue_begin ops x j i m) i = RDone r)"
    by (simp_all add: Enqueue_begin_def Let_def)
  then show ?thesis by blast
qed

lemma refs_step:
  assumes "refs_ok m" and "mnext ops st cfg jobs m a = Some m'"
  shows "refs_ok m'"
proof -
  have e: "ex_group (mgr_execs m ! e) < length (mgr_heap m)" if "e < length (mgr_execs m)" for e
    using assms(1) that by (auto simp: refs_ok_def)
  note r = refs_req [OF assms(1)]
  show ?thesis
  proof (cases a)
    case (Begin i x)
    with assms begin_frame [of ops x "jobs i" i m] begin_pc [of ops x "jobs i" i m] show ?thesis
      by (auto simp: refs_ok_def split: if_splits)
  next
    case (Load i)
    with assms show ?thesis
      by (auto simp: refs_ok_def Enqueue_load_def split: if_splits option.splits)
  next
    case (Create i)
    with assms show ?thesis
      by (auto simp: refs_ok_def Enqueue_create_def Let_def less_Suc_eq split: if_splits option.splits)
  next
    case (Append i)
    with assms r show ?thesis
      by (auto simp: refs_ok_def Enqueue_append_def Let_def split: if_splits option.splits rpc.splits)
  next
    case (StopTimer i)
    with assms r show ?thesis
      by (auto simp: refs_ok_def Enqueue_stop_def Let_def split: if_splits rpc.splits)
  next
    case (Spawn i)
    with assms r show ?thesis
      by (auto simp: refs_ok_def Enqueue_spawn_def split: rpc.splits if_splits)
  next
    case (Receive i)
    with assms show ?thesis
      by (auto simp: refs_ok_def split: rpc.splits list.splits if_splits)
  next
    case (Fire g)
    with assms show ?thesis
      by (auto simp: refs_ok_def split: if_splits)
  next
    case (Exec k)
    with assms e [of k] show ?thesis
      by (auto simp: refs_ok_def exec_step_def Let_def split: if_splits epc.splits list.splits event.splits
          dest!: set_update_subset_insert [THEN subsetD])
  next
    case (Batch k x)
    with assms e [of k] show ?thesis
      by (auto simp: refs_ok_def split: if_splits epc.splits sum.splits
          dest!: set_update_subset_insert [THEN subsetD])
  qed
qed

lemma tok_keep:
  assumes "tok_ok m" and "tokens m' = tokens m" and "mgr_pc m' = (mgr_pc m)(i := l)"
    and "enqueued l = enqueued (mgr_pc m i)"
  shows "tok_ok m'"
  using assms by (auto simp: tok_ok_def)

lemma tok_append:
  assumes tok: "tok_ok m" and g: "g < length (mgr_heap m)" and pc: "mgr_pc m i = RLoaded g"
    and rs: "grp_Requests (mgr_heap m ! g) = Some rs" and id: "req_id (job_req (jobs i)) = i"
  shows "tok_ok (Enqueue_append cfg (jobs i) i g m)"
proof -
  let ?m = "Enqueue_append cfg (jobs i) i g m"
  have h: "mgr_heap ?m = (mgr_heap m)[g := mgr_heap ?m ! g]" "grp_Requests (mgr_heap ?m ! g) = Some (rs @ [job_req (jobs i)])"
    and f: "mgr_execs ?m = mgr_execs m" "mgr_chan ?m = mgr_chan m"
    using rs g by (simp_all add: Enqueue_append_def Let_def)
  have pc': "mgr_pc ?m = (mgr_pc m)(i := mgr_pc ?m i)" "enqueued (mgr_pc ?m i)"
    using rs by (simp_all add: Enqueue_append_def Let_def)
  have "tokens ?m k = tokens m k + (if k = i then 1 else 0)" for k
    using tokens_heap [OF g h(1) f, of k] rs h(2) id by (simp add: group_ids_def count_list_append)
  moreover have "tokens m i = 0"
    using tok pc by (simp add: tok_ok_def)
  moreover have "mgr_pc ?m k = mgr_pc m k" if "k \<noteq> i" for k
    using pc'(1) that by (metis fun_upd_other)
  ultimately show ?thesis
    using tok pc'(2) by (auto simp: tok_ok_def)
qed

lemma tok_exec:
  assumes tok: "tok_ok m" and e: "e < length (mgr_execs m)" and s: "exec_step e m = Some m'" and r: "refs_ok m"
    and c: "\<not> mgr_closed m" and ne: "ex_pc (mgr_execs m ! e) \<noteq> EClosed"
  shows "tok_ok m'"
proof -
  let ?x = "mgr_execs m ! e"
  have g: "ex_group ?x < length (mgr_heap m)"
    using r e by (auto simp: refs_ok_def)
  have pc: "mgr_pc m' = mgr_pc m"
    using s by (auto simp: exec_step_def Let_def split: epc.splits list.splits event.splits if_splits)
  have "tokens m' i = tokens m i" for i
  proof (cases "ex_pc ?x = EOpen")
    case True
    let ?grp = "mgr_heap m ! ex_group ?x"
    let ?m1 = "set_group m (ex_group ?x) (?grp\<lparr>grp_Requests := None\<rparr>)"
    have m': "m' = goto_exec ?m1 e (EDelete (group_reqs ?grp))"
      using s True by (simp add: exec_step_def Let_def group_reqs_def)
    have "tokens ?m1 i + count_list (group_ids ?grp) i = tokens m i"
      using tokens_heap [OF g, of ?m1 _ i] by (simp add: group_ids_def)
    moreover have "tokens m' i = tokens ?m1 i + count_list (group_ids ?grp) i"
      using tokens_exec [of e ?m1 m' _ i] e m' True by (simp add: exec_ids_def group_ids_reqs)
    ultimately show ?thesis by simp
  next
    case False
    let ?l = "ex_pc (mgr_execs m' ! e)"
    have x: "mgr_execs m' = (mgr_execs m)[e := ?x\<lparr>ex_pc := ?l\<rparr>]" and h: "mgr_heap m' = mgr_heap m"
      and ids: "count_list (exec_ids ?x) i + length (mgr_chan m i)
        = count_list (exec_ids (?x\<lparr>ex_pc := ?l\<rparr>)) i + length (mgr_chan m' i)"
      using s c ne e False by (auto simp: exec_step_def Let_def exec_ids_def
          split: epc.splits list.splits event.splits if_splits)
    from tokens_exec [OF e x h, of i] ids show ?thesis by simp
  qed
  with tok pc show ?thesis by (simp add: tok_ok_def)
qed

lemma tok_batch:
  assumes tok: "tok_ok m" and e: "e < length (mgr_execs m)" and rs: "ex_pc (mgr_execs m ! e) = ERun rs"
    and run: "run_batch ops st x rs = Inr (x', evs)"
  shows "tok_ok (goto_exec m e (ESend evs))"
proof -
  let ?m = "goto_exec m e (ESend evs)"
  have "tokens ?m i = tokens m i" for i
    using tokens_exec [OF e, of ?m "(mgr_execs m ! e)\<lparr>ex_pc := ESend evs\<rparr>" i] rs batch.run_once [OF run]
    by (simp add: exec_ids_def)
  with tok show ?thesis by (simp add: tok_ok_def)
qed

lemma tok_step:
  assumes tok: "tok_ok m" and r: "refs_ok m" and c: "\<not> mgr_closed m"
    and ne: "\<forall>x \<in> set (mgr_execs m). ex_pc x \<noteq> EClosed"
    and ids: "\<forall>i. req_id (job_req (jobs i)) = i"
    and nx: "mnext ops st cfg jobs m a = Some m'" and np: "\<forall>x \<in> set (mgr_execs m'). ex_pc x \<noteq> EPanicked"
  shows "tok_ok m'"
proof (cases a)
  case (Begin i x)
  with nx have m': "mgr_pc m i = RNew" "m' = Enqueue_begin ops x (jobs i) i m"
    by (auto split: if_splits)
  obtain l where "mgr_pc m' = (mgr_pc m)(i := l)" "\<not> enqueued l"
    using begin_pc [of ops x "jobs i" i m] m'(2) by auto
  with m' tok show ?thesis
    by (intro tok_keep [OF tok, where i = i and l = l]) (auto intro!: tokens_frame simp: begin_frame)
next
  case (Load i)
  with nx obtain l where "mgr_pc m i = RLookup" "m' = goto_req m i l" "\<not> enqueued l"
    by (auto simp: Enqueue_load_def split: if_splits option.splits)
  then show ?thesis
    by (intro tok_keep [OF tok, where i = i and l = l]) (auto intro!: tokens_frame)
next
  case (Create i)
  with nx have m': "mgr_pc m i = RCreate" "m' = Enqueue_create cfg (jobs i) i m"
    by (auto split: if_splits)
  let ?l = "mgr_pc m' i"
  have "mgr_pc m' = (mgr_pc m)(i := ?l)" "\<not> enqueued ?l"
    using m'(2) by (auto simp: Enqueue_create_def Let_def split: option.splits)
  moreover have "tokens m' = tokens m"
    using m'(2) by (auto simp: Enqueue_create_def Let_def tokens_def group_ids_def fun_eq_iff split: option.splits)
  ultimately show ?thesis
    using m'(1) by (intro tok_keep [OF tok, where i = i and l = ?l]) auto
next
  case (Append i)
  with nx obtain g where pc: "mgr_pc m i = RLoaded g" and m': "m' = Enqueue_append cfg (jobs i) i g m"
    by (auto split: rpc.splits)
  have g: "g < length (mgr_heap m)"
    using refs_req [OF r pc] by simp
  show ?thesis
  proof (cases "grp_Requests (mgr_heap m ! g)")
    case None
    then show ?thesis
      using m' pc by (intro tok_keep [OF tok, where i = i and l = RNew]) (auto simp: Enqueue_append_def Let_def intro!: tokens_frame)
  next
    case (Some rs)
    from tok_append [where jobs = jobs, OF tok g pc this] ids m' show ?thesis by blast
  qed
next
  case (StopTimer i)
  with nx obtain g where pc: "mgr_pc m i = RStopping g" and m': "m' = Enqueue_stop i g m"
    by (auto split: rpc.splits)
  have g: "g < length (mgr_heap m)"
    using refs_req [OF r pc] by simp
  have "tokens m' = tokens m"
    using m' by (intro tokens_same_ids [OF g, of m' "mgr_heap m' ! g"]) (auto simp: Enqueue_stop_def Let_def group_ids_def g)
  with m' pc show ?thesis
    by (intro tok_keep [OF tok, where i = i and l = "RSpawning g"]) (auto simp: Enqueue_stop_def Let_def)
next
  case (Spawn i)
  with nx obtain g where pc: "mgr_pc m i = RSpawning g" and m': "m' = Enqueue_spawn (jobs i) i g m"
    by (auto split: rpc.splits)
  have "tokens m' = tokens m"
    using m' by (simp add: Enqueue_spawn_def tokens_def exec_ids_def fun_eq_iff)
  with m' pc show ?thesis
    by (intro tok_keep [OF tok, where i = i and l = RWaiting]) (auto simp: Enqueue_spawn_def)
next
  case (Receive i)
  then obtain res rest where m': "mgr_pc m i = RWaiting" "mgr_chan m i = res # rest"
    "m' = goto_req (m\<lparr>mgr_chan := (mgr_chan m)(i := rest)\<rparr>) i (RDone res)"
    using nx by (auto split: rpc.splits list.splits)
  have t: "tokens m' k + (if k = i then 1 else 0) = tokens m k" for k
    using m'(2,3) by (simp add: tokens_def)
  have "tokens m' k = (if enqueued (mgr_pc m' k) then 1 else 0)" for k
    using t [of k] tok m' by (cases "k = i") (simp_all add: tok_ok_def)
  then show ?thesis
    by (simp add: tok_ok_def)
next
  case (Fire g)
  with nx have g: "g < length (mgr_heap m)"
    and m': "m' = spawn (set_group m g ((mgr_heap m ! g)\<lparr>grp_timer := Expired\<rparr>)) (grp_BatchKey (mgr_heap m ! g)) g"
    by (auto split: if_splits)
  let ?m1 = "set_group m g ((mgr_heap m ! g)\<lparr>grp_timer := Expired\<rparr>)"
  have "tokens ?m1 = tokens m"
    by (intro tokens_same_ids [OF g, where grp = "(mgr_heap m ! g)\<lparr>grp_timer := Expired\<rparr>"]) (simp_all add: group_ids_def)
  moreover have "tokens m' = tokens ?m1"
    using m' by (simp add: tokens_def exec_ids_def fun_eq_iff)
  ultimately show ?thesis
    using tok m' by (simp add: tok_ok_def)
next
  case (Exec e)
  with nx tok_exec [OF tok _ _ r c] ne show ?thesis by (auto split: if_splits)
next
  case (Batch e x)
  with nx obtain rs where e: "e < length (mgr_execs m)" "ex_pc (mgr_execs m ! e) = ERun rs"
    by (auto split: if_splits epc.splits)
  have "m' \<noteq> goto_exec m e EPanicked"
    using np set_update_memI [OF e(1), of "(mgr_execs m ! e)\<lparr>ex_pc := EPanicked\<rparr>"] by force
  with Batch nx e tok_batch [OF tok e] show ?thesis
    by (auto split: sum.splits)
qed

lemma group_reqs_simps [simp]:
  "group_reqs (grp\<lparr>grp_timer := t\<rparr>) = group_reqs grp"
  "group_reqs (grp\<lparr>grp_Requests := Some rs\<rparr>) = rs"
  "group_reqs (grp\<lparr>grp_Requests := None\<rparr>) = []"
  "group_reqs \<lparr>grp_BatchKey = k, grp_Requests = Some rs, grp_timer = t\<rparr> = rs"
  "(case grp_Requests grp of Some rs \<Rightarrow> rs | None \<Rightarrow> []) = group_reqs grp"
  by (simp_all add: group_reqs_def)

lemma group_reqs_Some: "grp_Requests grp = Some rs \<Longrightarrow> group_reqs grp = rs"
  by (simp add: group_reqs_def)

lemma exec_reqs_simps [simp]:
  "exec_reqs \<lparr>ex_key = k, ex_group = g, ex_pc = EStart\<rparr> = []"
  "exec_reqs (x\<lparr>ex_pc := l\<rparr>) = (case l of EDelete rs \<Rightarrow> rs | ERun rs \<Rightarrow> rs | _ \<Rightarrow> [])"
  by (simp_all add: exec_reqs_def)

lemma in_set_update: "x \<in> set (xs[k := y]) \<Longrightarrow> x = y \<or> x \<in> set xs"
  using set_update_subset_insert [of xs k y] by auto

lemma reqs_step:
  assumes rq: "reqs_ok jobs m" and r: "refs_ok m" and ids: "\<forall>i. req_id (job_req (jobs i)) = i"
    and nx: "mnext ops st cfg jobs m a = Some m'"
  shows "reqs_ok jobs m'"
proof -
  have e: "ex_group (mgr_execs m ! e) < length (mgr_heap m)"
    "r \<in> set (exec_reqs (mgr_execs m ! e)) \<Longrightarrow> r = job_req (jobs (req_id r))" if "e < length (mgr_execs m)" for e r
    using r rq that by (auto simp: refs_ok_def reqs_ok_def)
  have h: "r \<in> set (group_reqs (mgr_heap m ! g)) \<Longrightarrow> r = job_req (jobs (req_id r))" if "g < length (mgr_heap m)" for g r
    using rq that by (auto simp: reqs_ok_def)
  show ?thesis
  proof (cases a)
    case (Begin i x)
    with rq nx begin_frame [of ops x "jobs i" i m] show ?thesis
      by (auto simp: reqs_ok_def split: if_splits)
  next
    case (Load i)
    with rq nx show ?thesis
      by (auto simp: reqs_ok_def Enqueue_load_def split: if_splits option.splits)
  next
    case (Create i)
    with rq nx show ?thesis
      by (auto simp: reqs_ok_def Enqueue_create_def Let_def split: if_splits option.splits)
  next
    case (Append i)
    with nx obtain g where pc: "mgr_pc m i = RLoaded g" and m': "m' = Enqueue_append cfg (jobs i) i g m"
      by (auto split: rpc.splits)
    have g: "g < length (mgr_heap m)"
      using refs_req [OF r pc] by simp
    with m' rq h [OF g] ids show ?thesis
      by (auto simp: reqs_ok_def Enqueue_append_def Let_def group_reqs_Some split: option.splits if_splits
          dest!: in_set_update)
  next
    case (StopTimer i)
    with nx obtain g where pc: "mgr_pc m i = RStopping g" and m': "m' = Enqueue_stop i g m"
      by (auto split: rpc.splits)
    have g: "g < length (mgr_heap m)"
      using refs_req [OF r pc] by simp
    with m' rq h [OF g] show ?thesis
      by (auto simp: reqs_ok_def Enqueue_stop_def Let_def split: option.splits if_splits
          dest!: in_set_update)
  next
    case (Spawn i)
    with rq nx show ?thesis
      by (auto simp: reqs_ok_def Enqueue_spawn_def split: rpc.splits)
  next
    case (Receive i)
    with rq nx show ?thesis
      by (auto simp: reqs_ok_def split: rpc.splits list.splits)
  next
    case (Fire g)
    with rq nx h [of g] show ?thesis
      by (auto simp: reqs_ok_def split: if_splits
          dest!: in_set_update)
  next
    case (Exec k)
    with nx have k: "k < length (mgr_execs m)" and s: "exec_step k m = Some m'"
      by (auto split: if_splits)
    show ?thesis
      using rq s e [OF k] h [OF e(1) [OF k]]
      by (auto simp: reqs_ok_def exec_step_def Let_def exec_reqs_def [of "mgr_execs m ! k"]
          split: if_splits epc.splits list.splits event.splits
          dest!: in_set_update)
  next
    case (Batch k x)
    with rq nx show ?thesis
      by (auto simp: reqs_ok_def split: if_splits epc.splits sum.splits
          dest!: in_set_update)
  qed
qed

lemma covered_mono:
  assumes "covered m g" and "grp_timer (mgr_heap m ! g) = Pending \<Longrightarrow> grp_timer (mgr_heap m' ! g) = Pending"
    and "\<And>x. x \<in> set (mgr_execs m) \<Longrightarrow> ex_group x = g \<Longrightarrow> ex_pc x = EStart \<or> ex_pc x = EOpen \<Longrightarrow>
       \<exists>x' \<in> set (mgr_execs m'). ex_group x' = g \<and> (ex_pc x' = EStart \<or> ex_pc x' = EOpen)"
    and "\<And>i. mgr_pc m i = RStopping g \<or> mgr_pc m i = RSpawning g \<Longrightarrow>
       \<exists>i. mgr_pc m' i = RStopping g \<or> mgr_pc m' i = RSpawning g"
  shows "covered m' g"
  using assms unfolding covered_def by blast

lemma covered_frame:
  assumes "covered m g" and "grp_timer (mgr_heap m' ! g) = grp_timer (mgr_heap m ! g)" and "mgr_execs m' = mgr_execs m"
    and "\<And>u. mgr_pc m u = RStopping g \<or> mgr_pc m u = RSpawning g \<Longrightarrow>
       \<exists>u. mgr_pc m' u = RStopping g \<or> mgr_pc m' u = RSpawning g"
  shows "covered m' g"
  using assms(1) unfolding covered_def assms(2,3) using assms(4) by blast

lemma covered_req:
  assumes "covered m g" and "mgr_heap m' ! g = mgr_heap m ! g" and "mgr_execs m' = mgr_execs m"
    and "mgr_pc m' = (mgr_pc m)(i := l)" and "mgr_pc m i \<noteq> RStopping g" and "mgr_pc m i \<noteq> RSpawning g"
  shows "covered m' g"
  using assms unfolding covered_def by (metis fun_upd_other)

lemma cov_append:
  assumes cov: "cov_ok m" and g: "g < length (mgr_heap m)" and pc: "mgr_pc m i = RLoaded g"
    and rs: "grp_Requests (mgr_heap m ! g) = Some rs"
  shows "cov_ok (Enqueue_append cfg (jobs i) i g m)"
proof -
  let ?m = "Enqueue_append cfg (jobs i) i g m"
  have f: "length (mgr_heap ?m) = length (mgr_heap m)" "mgr_execs ?m = mgr_execs m"
    "k \<noteq> g \<Longrightarrow> mgr_heap ?m ! k = mgr_heap m ! k" "u \<noteq> i \<Longrightarrow> mgr_pc ?m u = mgr_pc m u" for k u
    using rs by (simp_all add: Enqueue_append_def Let_def)
  have keep: "\<exists>u. mgr_pc ?m u = RStopping k \<or> mgr_pc ?m u = RSpawning k"
    if "mgr_pc m u = RStopping k \<or> mgr_pc m u = RSpawning k" for u k
    using that pc f(4) [of u] by (cases "u = i") (auto intro!: exI [of _ u])
  have "covered ?m g"
  proof (cases "rs = []")
    case True
    then have "grp_timer (mgr_heap ?m ! g) = Pending"
      using rs g by (simp add: Enqueue_append_def Let_def)
    then show ?thesis by (simp add: covered_def)
  next
    case False
    with cov g have "covered m g"
      by (simp add: cov_ok_def group_reqs_Some [OF rs])
    moreover have "grp_timer (mgr_heap ?m ! g) = grp_timer (mgr_heap m ! g)"
      using False rs g by (simp add: Enqueue_append_def Let_def)
    ultimately show ?thesis
      using f(2) keep by (rule covered_frame)
  qed
  moreover have "covered ?m k" if "covered m k" "k \<noteq> g" for k
    using that(1) arg_cong [OF f(3) [OF that(2)], of grp_timer] f(2) keep by (rule covered_frame)
  ultimately have "covered ?m k" if "k < length (mgr_heap m)" "group_reqs (mgr_heap ?m ! k) \<noteq> []" for k
    using that cov f(3) by (cases "k = g") (auto simp: cov_ok_def)
  then show ?thesis
    using f(1) by (simp add: cov_ok_def)
qed

lemma cov_exec:
  assumes cov: "cov_ok m" and e: "e < length (mgr_execs m)" and s: "exec_step e m = Some m'" and r: "refs_ok m"
    and c: "\<not> mgr_closed m"
  shows "cov_ok m'"
proof -
  let ?x = "mgr_execs m ! e"
  have g: "ex_group ?x < length (mgr_heap m)"
    using r e by (auto simp: refs_ok_def)
  note sd = s [unfolded exec_step_def Let_def]
  have pc: "mgr_pc m' = mgr_pc m"
    using sd by (simp split: epc.splits list.splits event.splits if_splits) auto
  have x: "mgr_execs m' = (mgr_execs m)[e := ?x\<lparr>ex_pc := ex_pc (mgr_execs m' ! e)\<rparr>]"
    using sd e by (simp split: epc.splits list.splits event.splits if_splits) auto
  have xo: "ex_pc ?x = EStart \<Longrightarrow> ex_pc (mgr_execs m' ! e) = EOpen"
    using sd c e by auto
  have h: "mgr_heap m' = (if ex_pc ?x = EOpen then (mgr_heap m)[ex_group ?x := (mgr_heap m ! ex_group ?x)\<lparr>grp_Requests := None\<rparr>]
      else mgr_heap m)"
    using sd by (simp split: epc.splits list.splits event.splits if_splits) auto
  then have len: "length (mgr_heap m') = length (mgr_heap m)"
    and h: "\<And>k. k \<noteq> ex_group ?x \<or> ex_pc ?x \<noteq> EOpen \<Longrightarrow> mgr_heap m' ! k = mgr_heap m ! k"
    and taken: "ex_pc ?x = EOpen \<Longrightarrow> group_reqs (mgr_heap m' ! ex_group ?x) = []"
    using g by auto
  have "covered m' k" if k: "covered m k" "group_reqs (mgr_heap m' ! k) \<noteq> []" for k
  proof (rule covered_mono [OF k(1)])
    have same: "mgr_heap m' ! k = mgr_heap m ! k"
      using h [of k] taken k(2) by blast
    then show "grp_timer (mgr_heap m ! k) = Pending \<Longrightarrow> grp_timer (mgr_heap m' ! k) = Pending"
      by simp
    fix y assume y: "y \<in> set (mgr_execs m)" "ex_group y = k" "ex_pc y = EStart \<or> ex_pc y = EOpen"
    obtain j where j: "j < length (mgr_execs m)" "y = mgr_execs m ! j"
      using y(1) by (metis in_set_conv_nth)
    show "\<exists>x' \<in> set (mgr_execs m'). ex_group x' = k \<and> (ex_pc x' = EStart \<or> ex_pc x' = EOpen)"
    proof (cases "j = e")
      case True
      with j y have "ex_pc ?x = EStart"
        using taken k(2) by auto
      with xo have "?x\<lparr>ex_pc := EOpen\<rparr> \<in> set (mgr_execs m')"
        using x e by (metis set_update_memI)
      with True j y show ?thesis
        by (intro bexI [of _ "?x\<lparr>ex_pc := EOpen\<rparr>"]) simp_all
    next
      case False
      with x j have "mgr_execs m' ! j = y" "j < length (mgr_execs m')"
        by (metis nth_list_update_neq, metis length_list_update)
      with y show ?thesis by (metis nth_mem)
    qed
  next
    show "\<And>i. mgr_pc m i = RStopping k \<or> mgr_pc m i = RSpawning k \<Longrightarrow>
       \<exists>i. mgr_pc m' i = RStopping k \<or> mgr_pc m' i = RSpawning k"
      using pc by auto
  qed
  moreover have "group_reqs (mgr_heap m ! k) \<noteq> []" if "group_reqs (mgr_heap m' ! k) \<noteq> []" for k
    using that h [of k] taken by (cases "k \<noteq> ex_group ?x \<or> ex_pc ?x \<noteq> EOpen") auto
  ultimately show ?thesis
    using cov len by (auto simp: cov_ok_def)
qed

lemma cov_step:
  assumes cov: "cov_ok m" and r: "refs_ok m" and c: "\<not> mgr_closed m" and nx: "mnext ops st cfg jobs m a = Some m'"
  shows "cov_ok m'"
proof -
  have req: "cov_ok m'" if "mgr_heap m' = mgr_heap m" "mgr_execs m' = mgr_execs m" "mgr_pc m' = (mgr_pc m)(i := l)"
    "\<And>g. mgr_pc m i \<noteq> RStopping g" "\<And>g. mgr_pc m i \<noteq> RSpawning g" for i l
    using cov that covered_req [where m = m and m' = m' and i = i and l = l] by (simp add: cov_ok_def)
  show ?thesis
  proof (cases a)
    case (Begin i x)
    with nx have m': "mgr_pc m i = RNew" "m' = Enqueue_begin ops x (jobs i) i m"
      by (auto split: if_splits)
    obtain l where "mgr_pc m' = (mgr_pc m)(i := l)"
      using begin_pc [of ops x "jobs i" i m] m'(2) by auto
    with m' show ?thesis
      by (intro req [of i l]) (auto simp: begin_frame)
  next
    case (Load i)
    with nx obtain l where "mgr_pc m i = RLookup" "m' = goto_req m i l"
      by (auto simp: Enqueue_load_def split: if_splits option.splits)
    then show ?thesis
      by (intro req [of i l]) auto
  next
    case (Create i)
    with nx have m': "mgr_pc m i = RCreate" "m' = Enqueue_create cfg (jobs i) i m"
      by (auto split: if_splits)
    have f: "mgr_execs m' = mgr_execs m" "mgr_pc m' = (mgr_pc m)(i := mgr_pc m' i)"
      and h: "mgr_heap m' = mgr_heap m \<or> (\<exists>k. mgr_heap m' = mgr_heap m @ [\<lparr>grp_BatchKey = k, grp_Requests = Some [], grp_timer = NoTimer\<rparr>])"
      using m'(2) by (auto simp: Enqueue_create_def Let_def split: option.splits)
    have same: "mgr_heap m' ! g = mgr_heap m ! g" if "g < length (mgr_heap m)" for g
      using h that by (auto simp: nth_append)
    have "covered m' g" if g: "g < length (mgr_heap m)" "covered m g" for g
      using covered_req [OF g(2) same [OF g(1)] f] m'(1) by simp
    moreover have "g < length (mgr_heap m)" if "g < length (mgr_heap m')" "group_reqs (mgr_heap m' ! g) \<noteq> []" for g
      using that h by (auto simp: nth_append less_Suc_eq)
    ultimately show ?thesis
      using cov same unfolding cov_ok_def by metis
  next
    case (Append i)
    with nx obtain g where pc: "mgr_pc m i = RLoaded g" and m': "m' = Enqueue_append cfg (jobs i) i g m"
      by (auto split: rpc.splits)
    have g: "g < length (mgr_heap m)"
      using refs_req [OF r pc] by simp
    show ?thesis
    proof (cases "grp_Requests (mgr_heap m ! g)")
      case None
      then show ?thesis
        using m' pc by (intro req [of i RNew]) (auto simp: Enqueue_append_def Let_def)
    next
      case (Some rs)
      from cov_append [where jobs = jobs, OF cov g pc this] m' show ?thesis by simp
    qed
  next
    case (StopTimer i)
    with nx obtain g where pc: "mgr_pc m i = RStopping g" and m': "m' = Enqueue_stop i g m"
      by (auto split: rpc.splits)
    have g: "g < length (mgr_heap m)"
      using refs_req [OF r pc] by simp
    have f: "mgr_execs m' = mgr_execs m" "mgr_pc m' = (mgr_pc m)(i := RSpawning g)" "length (mgr_heap m') = length (mgr_heap m)"
      "\<And>k. k \<noteq> g \<Longrightarrow> mgr_heap m' ! k = mgr_heap m ! k" "group_reqs (mgr_heap m' ! g) = group_reqs (mgr_heap m ! g)"
      using m' g by (simp_all add: Enqueue_stop_def Let_def)
    have "covered m' g"
      using f(2) unfolding covered_def by (metis fun_upd_same)
    moreover have "covered m' k" if "covered m k" "k \<noteq> g" for k
      using covered_req [OF that(1) f(4) [OF that(2)] f(1,2)] pc that(2) by simp
    ultimately show ?thesis
      using cov f(3,4,5) by (metis cov_ok_def)
  next
    case (Spawn i)
    with nx obtain g where pc: "mgr_pc m i = RSpawning g" and m': "m' = Enqueue_spawn (jobs i) i g m"
      by (auto split: rpc.splits)
    have "covered m' k" if "covered m k" for k
    proof (cases "k = g")
      case True
      then show ?thesis using m' by (auto simp: covered_def Enqueue_spawn_def)
    next
      case False
      show ?thesis
      proof (rule covered_mono [OF that])
        show "\<exists>i. mgr_pc m' i = RStopping k \<or> mgr_pc m' i = RSpawning k"
          if "mgr_pc m u = RStopping k \<or> mgr_pc m u = RSpawning k" for u
          using that m' pc False by (intro exI [of _ u]) (auto simp: Enqueue_spawn_def)
      qed (use m' in \<open>auto simp: Enqueue_spawn_def\<close>)
    qed
    with cov m' show ?thesis by (simp add: cov_ok_def Enqueue_spawn_def)
  next
    case (Receive i)
    then obtain res rest where "mgr_pc m i = RWaiting"
      "m' = goto_req (m\<lparr>mgr_chan := (mgr_chan m)(i := rest)\<rparr>) i (RDone res)"
      using nx by (auto split: rpc.splits list.splits)
    then show ?thesis by (intro req [of i "RDone res"]) auto
  next
    case (Fire g)
    with nx have g: "g < length (mgr_heap m)"
      and m': "m' = spawn (set_group m g ((mgr_heap m ! g)\<lparr>grp_timer := Expired\<rparr>)) (grp_BatchKey (mgr_heap m ! g)) g"
      by (auto split: if_splits)
    have "covered m' g"
      using m' by (auto simp: covered_def)
    moreover have "covered m' k" if k: "covered m k" "k \<noteq> g" for k
    proof (rule covered_mono [OF k(1)])
      show "grp_timer (mgr_heap m ! k) = Pending \<Longrightarrow> grp_timer (mgr_heap m' ! k) = Pending"
        using m' k(2) by simp
      show "\<exists>i. mgr_pc m' i = RStopping k \<or> mgr_pc m' i = RSpawning k"
        if "mgr_pc m u = RStopping k \<or> mgr_pc m u = RSpawning k" for u
        using that m' by (intro exI [of _ u]) simp
    qed (use m' in auto)
    ultimately have "covered m' k" if "k < length (mgr_heap m)" "group_reqs (mgr_heap m' ! k) \<noteq> []" for k
      using that cov m' g by (cases "k = g") (auto simp: cov_ok_def)
    then show ?thesis
      using m' by (simp add: cov_ok_def)
  next
    case (Exec e)
    with nx cov_exec [OF cov _ _ r c] show ?thesis by (auto split: if_splits)
  next
    case (Batch e x)
    with nx obtain rs l where e: "e < length (mgr_execs m)" "ex_pc (mgr_execs m ! e) = ERun rs" "m' = goto_exec m e l"
      by (auto split: if_splits epc.splits sum.splits)
    have "covered m' k" if "covered m k" for k
    proof (rule covered_mono [OF that])
      fix y assume y: "y \<in> set (mgr_execs m)" "ex_group y = k" "ex_pc y = EStart \<or> ex_pc y = EOpen"
      obtain j where j: "j < length (mgr_execs m)" "y = mgr_execs m ! j"
        using y(1) by (metis in_set_conv_nth)
      with e y have "j \<noteq> e" by auto
      with j e(3) have "mgr_execs m' ! j = y" "j < length (mgr_execs m')"
        by simp_all
      with y show "\<exists>x' \<in> set (mgr_execs m'). ex_group x' = k \<and> (ex_pc x' = EStart \<or> ex_pc x' = EOpen)"
        by (metis nth_mem)
    qed (use e(3) in auto)
    with cov e(3) show ?thesis by (simp add: cov_ok_def)
  qed
qed

lemma alive_step:
  assumes al: "alive m" and rq: "reqs_ok jobs m" and jobs: "jobs_ok st jobs" and cfg: "0 \<le> cfg_MaxBatchSize cfg"
    and nx: "mnext ops st cfg jobs m a = Some m'"
  shows "alive m'"
proof (cases a)
  case (Begin i x)
  with al nx begin_frame [of ops x "jobs i" i m] begin_pc [of ops x "jobs i" i m] show ?thesis
    by (auto simp: alive_def split: if_splits)
next
  case (Load i)
  with al nx show ?thesis
    by (auto simp: alive_def Enqueue_load_def split: if_splits option.splits)
next
  case (Create i)
  with al nx cfg show ?thesis
    by (auto simp: alive_def Enqueue_create_def Let_def split: if_splits option.splits)
next
  case (Append i)
  with al nx show ?thesis
    by (auto simp: alive_def Enqueue_append_def Let_def split: if_splits option.splits rpc.splits)
next
  case (StopTimer i)
  with al nx show ?thesis
    by (auto simp: alive_def Enqueue_stop_def Let_def split: rpc.splits if_splits)
next
  case (Spawn i)
  with al nx show ?thesis
    by (auto simp: alive_def Enqueue_spawn_def split: rpc.splits if_splits)
next
  case (Receive i)
  with al nx show ?thesis
    by (auto simp: alive_def split: rpc.splits list.splits if_splits)
next
  case (Fire g)
  with al nx show ?thesis
    by (auto simp: alive_def split: if_splits)
next
  case (Exec e)
  with al nx show ?thesis
    by (auto simp: alive_def exec_step_def Let_def split: if_splits epc.splits list.splits event.splits dest!: in_set_update)
next
  case (Batch e x)
  with nx obtain rs where e: "e < length (mgr_execs m)" "ex_pc (mgr_execs m ! e) = ERun rs"
    by (auto split: if_splits epc.splits)
  have "r = job_req (jobs (req_id r))" if "r \<in> set rs" for r
    using rq that nth_mem [OF e(1)] exec_reqs_def [of "mgr_execs m ! e"] unfolding reqs_ok_def e(2) by auto
  then have "batch_safe st rs"
    using jobs unfolding batch_safe_def list_all_iff jobs_ok_def by (metis hd_in_set size_calls_hd)
  from batch.run_total [OF this, of ops x] obtain x' evs where "run_batch ops st x rs = Inr (x', evs)"
    by blast
  with Batch nx e al show ?thesis
    by (auto simp: alive_def dest!: in_set_update)
qed

lemma minv_start: "minv jobs New_manager"
  by (simp add: minv_def tok_ok_def tokens_def refs_ok_def cov_ok_def reqs_ok_def alive_def New_manager_def)

lemma minv_step:
  assumes inv: "minv jobs m" and jobs: "jobs_ok st jobs" and cfg: "0 \<le> cfg_MaxBatchSize cfg"
    and nx: "mnext ops st cfg jobs m a = Some m'"
  shows "minv jobs m'"
proof -
  have al: "alive m'"
    using alive_step [OF _ _ jobs cfg nx] inv by (simp add: minv_def)
  have "tok_ok m'"
    using tok_step [OF _ _ _ _ _ nx] inv al jobs by (auto simp: minv_def alive_def jobs_ok_def)
  moreover have "refs_ok m'" "cov_ok m'" "reqs_ok jobs m'"
    using refs_step [OF _ nx] cov_step [OF _ _ _ nx] reqs_step [OF _ _ _ nx] inv jobs
    by (auto simp: minv_def alive_def jobs_ok_def)
  ultimately show ?thesis
    using al by (simp add: minv_def)
qed

lemma mreach_minv:
  assumes "mreach ops st cfg jobs m" and "jobs_ok st jobs" and "0 \<le> cfg_MaxBatchSize cfg"
  shows "minv jobs m"
  using assms(1) by (induction rule: mreach.induct) (auto intro: minv_start minv_step [OF _ assms(2,3)])

end
