(* ===== verification/WB_Delivery.thy ===== *)
theory WB_Delivery
  imports WB_Manager
begin

text \<open>
  What the callers of the write batcher get: no request is lost or answered twice, every one can always
  be answered, and where this ends: the maximum size of a batch and the closing of the manager.
\<close>

section \<open>Runs that answer a request\<close>

text \<open>Steps of what is under way, as opposed to steps of calls on their way into a group.\<close>

fun internal :: "'d mact \<Rightarrow> bool" where
  "internal (Begin i x) = False"
| "internal (Load i) = False"
| "internal (Create i) = False"
| "internal (Append i) = False"
| "internal a = True"

definition answerable :: "'d sqldb \<Rightarrow> strategy \<Rightarrow> Config \<Rightarrow> (nat \<Rightarrow> job) \<Rightarrow> nat \<Rightarrow> Manager \<Rightarrow> bool" where
  "answerable ops st cfg jobs i m \<longleftrightarrow>
     (\<exists>as m' res. mrun ops st cfg jobs m as = Some m' \<and> list_all internal as \<and> mgr_pc m' i = RDone res)"

lemma answerable_step:
  assumes "mnext ops st cfg jobs m a = Some m'" and "internal a" and "answerable ops st cfg jobs i m'"
  shows "answerable ops st cfg jobs i m"
proof -
  from assms(3) obtain as m'' res where "mrun ops st cfg jobs m' as = Some m''" "list_all internal as" "mgr_pc m'' i = RDone res"
    unfolding answerable_def by blast
  with assms(1,2) show ?thesis
    unfolding answerable_def by (intro exI [of _ "a # as"] exI [of _ m''] exI [of _ res]) simp
qed

lemma minvD:
  assumes "minv jobs m"
  shows "tok_ok m" "refs_ok m" "cov_ok m" "reqs_ok jobs m" "alive m"
  using assms by (simp_all add: minv_def)

lemma tokens_le1: "minv jobs m \<Longrightarrow> tokens m i \<le> 1"
  by (auto simp: minv_def tok_ok_def)

lemma count_list_pos: "i \<in> set xs \<Longrightarrow> 0 < count_list xs i"
  by (metis count_list_0_iff gr0I)

lemma exec_token:
  assumes "e < length (mgr_execs m)"
  shows "count_list (exec_ids (mgr_execs m ! e)) i + length (mgr_chan m i) \<le> tokens m i"
proof -
  have "count_list (exec_ids (mgr_execs m ! e)) i \<in> set (map (\<lambda>x. count_list (exec_ids x) i) (mgr_execs m))"
    using assms by simp
  from member_le_sum_list [OF this] show ?thesis
    by (simp add: tokens_def)
qed

text \<open>The channel of a request that is about to be answered is empty.\<close>

lemma send_ready:
  assumes "minv jobs m" and "e < length (mgr_execs m)" and "i \<in> set (exec_ids (mgr_execs m ! e))"
  shows "mgr_chan m i = []"
proof -
  have "0 < count_list (exec_ids (mgr_execs m ! e)) i"
    by (rule count_list_pos [OF assms(3)])
  with exec_token [OF assms(2), of i] tokens_le1 [OF assms(1), of i] have "length (mgr_chan m i) = 0"
    by linarith
  then show ?thesis by simp
qed

lemma answerable_minv:
  assumes "minv jobs m" and "jobs_ok st jobs" and "0 \<le> cfg_MaxBatchSize cfg" and "mnext ops st cfg jobs m a = Some m'"
    and "internal a" and "minv jobs m' \<Longrightarrow> answerable ops st cfg jobs i m'"
  shows "answerable ops st cfg jobs i m"
  using assms answerable_step minv_step by blast

lemma ans_chan:
  assumes "enqueued (mgr_pc m i)" and "mgr_chan m i \<noteq> []"
  shows "answerable ops st cfg jobs i m"
proof -
  have wait: "answerable ops st cfg jobs i m" if w: "mgr_pc m i = RWaiting" "mgr_chan m i \<noteq> []" for m
  proof -
    obtain res rest where "mgr_chan m i = res # rest"
      using w(2) by (cases "mgr_chan m i") auto
    with w(1) have "mrun ops st cfg jobs m [Receive i] =
        Some (goto_req (m\<lparr>mgr_chan := (mgr_chan m)(i := rest)\<rparr>) i (RDone res))"
      by simp
    then show ?thesis
      unfolding answerable_def by (intro exI [of _ "[Receive i]"] exI) auto
  qed
  have spawning: "answerable ops st cfg jobs i m" if pc: "mgr_pc m i = RSpawning g" and c: "mgr_chan m i \<noteq> []" for m g
    by (rule answerable_step [where a = "Spawn i"], simp add: pc, simp, rule wait)
       (simp_all add: Enqueue_spawn_def c)
  have stopping: "answerable ops st cfg jobs i m" if pc: "mgr_pc m i = RStopping g" and c: "mgr_chan m i \<noteq> []" for m g
    by (rule answerable_step [where a = "StopTimer i"], simp add: pc, simp, rule spawning [of _ g])
       (simp_all add: Enqueue_stop_def Let_def c)
  show ?thesis
    using assms wait spawning stopping by (auto simp: enqueued_def)
qed

lemma enqueued_exec:
  assumes "minv jobs m" and "e < length (mgr_execs m)" and "i \<in> set (exec_ids (mgr_execs m ! e))"
  shows "enqueued (mgr_pc m i)"
proof -
  have "0 < count_list (exec_ids (mgr_execs m ! e)) i"
    by (rule count_list_pos [OF assms(3)])
  with exec_token [OF assms(2), of i] have "tokens m i \<noteq> 0"
    by linarith
  with minvD(1) [OF assms(1)] show ?thesis
    unfolding tok_ok_def by metis
qed

lemma ans_send:
  assumes "jobs_ok st jobs" and "0 \<le> cfg_MaxBatchSize cfg"
  shows "minv jobs m \<Longrightarrow> e < length (mgr_execs m) \<Longrightarrow> ex_pc (mgr_execs m ! e) = ESend evs \<Longrightarrow>
    i \<in> fst ` set (sent evs) \<Longrightarrow> answerable ops st cfg jobs i m"
proof (induction evs arbitrary: m)
  case (Cons ev evs)
  note prems = Cons.prems
  show ?case
  proof (cases ev)
    case (Send j res)
    have j: "j \<in> set (exec_ids (mgr_execs m ! e))" and i: "i \<in> set (exec_ids (mgr_execs m ! e))"
      using prems Send by (auto simp: exec_ids_def)
    let ?m = "goto_exec (m\<lparr>mgr_chan := (mgr_chan m)(j := [res])\<rparr>) e (ESend evs)"
    have nx: "mnext ops st cfg jobs m (Exec e) = Some ?m"
      using prems Send send_ready [OF prems(1,2) j] by (simp add: exec_step_def Let_def)
    show ?thesis
    proof (rule answerable_minv [OF prems(1) assms nx])
      show "internal (Exec e)"
        by simp
      assume inv: "minv jobs ?m"
      show "answerable ops st cfg jobs i ?m"
      proof (cases "j = i")
        case True
        with enqueued_exec [OF prems(1,2) i] show ?thesis
          by (intro ans_chan) simp_all
      next
        case False
        with prems Send show ?thesis
          by (intro Cons.IH [OF inv]) simp_all
      qed
    qed
  next
    case (Notify j n)
    let ?m = "goto_exec (m\<lparr>mgr_calls := mgr_calls m @ [(j, int n)]\<rparr>) e (ESend evs)"
    have nx: "mnext ops st cfg jobs m (Exec e) = Some ?m"
      using prems Notify by (simp add: exec_step_def Let_def)
    show ?thesis
      by (rule answerable_minv [OF prems(1) assms nx], simp, rule Cons.IH) (use prems Notify in simp_all)
  qed
qed simp

lemma ans_run:
  fixes ops :: "'d sqldb"
  assumes ok: "jobs_ok st jobs" "0 \<le> cfg_MaxBatchSize cfg" and inv: "minv jobs m" and e: "e < length (mgr_execs m)"
    and rs: "ex_pc (mgr_execs m ! e) = ERun rs" and i: "i \<in> req_id ` set rs"
  shows "answerable ops st cfg jobs i m"
proof -
  fix x :: "'d exec"
  have "m' \<noteq> goto_exec m e EPanicked" if "minv jobs m'" for m'
    using that set_update_memI [OF e, of "(mgr_execs m ! e)\<lparr>ex_pc := EPanicked\<rparr>"]
    by (force simp: minv_def alive_def)
  moreover have "mnext ops st cfg jobs m (Batch e x) \<noteq> None"
    using e rs by (auto split: sum.splits)
  ultimately obtain x' evs where run: "run_batch ops st x rs = Inr (x', evs)"
    using minv_step [OF inv ok, of ops "Batch e x"] e rs by (auto split: sum.splits)
  have nx: "mnext ops st cfg jobs m (Batch e x) = Some (goto_exec m e (ESend evs))"
    using e rs run by simp
  have "i \<in> fst ` set (sent evs)"
    using batch.run_once [OF run] i by (metis image_set)
  with e show ?thesis
    by (intro answerable_minv [OF inv ok nx] ans_send [OF ok, of _ e evs]) simp_all
qed

lemma ans_taken:
  assumes ok: "jobs_ok st jobs" "0 \<le> cfg_MaxBatchSize cfg" and inv: "minv jobs m" and e: "e < length (mgr_execs m)"
    and rs: "ex_pc (mgr_execs m ! e) = EDelete rs" and i: "i \<in> req_id ` set rs"
  shows "answerable ops st cfg jobs i m"
proof -
  let ?x = "mgr_execs m ! e"
  let ?m1 = "if mget (mgr_groups m) (ex_key ?x) = Some (ex_group ?x)
      then m\<lparr>mgr_groups := mdelete (mgr_groups m) (ex_key ?x)\<rparr> else m"
  have nx: "mnext ops st cfg jobs m (Exec e) = Some (goto_exec (?m1\<lparr>mgr_batchCount := mgr_batchCount m + 1\<rparr>) e (ERun rs))"
    using e rs i by (auto simp: exec_step_def Let_def)
  have "mgr_execs (?m1\<lparr>mgr_batchCount := mgr_batchCount m + 1\<rparr>) = mgr_execs m"
    by simp
  with e i show ?thesis
    by (intro answerable_minv [OF inv ok nx] ans_run [OF ok, of _ e rs]) simp_all
qed

lemma ans_open:
  assumes ok: "jobs_ok st jobs" "0 \<le> cfg_MaxBatchSize cfg" and inv: "minv jobs m" and e: "e < length (mgr_execs m)"
    and pc: "ex_pc (mgr_execs m ! e) = EOpen" and i: "i \<in> set (group_ids (mgr_heap m ! ex_group (mgr_execs m ! e)))"
  shows "answerable ops st cfg jobs i m"
proof -
  let ?g = "ex_group (mgr_execs m ! e)"
  let ?m = "goto_exec (set_group m ?g ((mgr_heap m ! ?g)\<lparr>grp_Requests := None\<rparr>)) e (EDelete (group_reqs (mgr_heap m ! ?g)))"
  have nx: "mnext ops st cfg jobs m (Exec e) = Some ?m"
    using e pc by (simp add: exec_step_def Let_def)
  have "i \<in> req_id ` set (group_reqs (mgr_heap m ! ?g))"
    using i by (simp add: group_ids_reqs)
  with e show ?thesis
    by (intro answerable_minv [OF inv ok nx] ans_taken [OF ok, of _ e]) simp_all
qed

lemma ans_start:
  assumes ok: "jobs_ok st jobs" "0 \<le> cfg_MaxBatchSize cfg" and inv: "minv jobs m" and e: "e < length (mgr_execs m)"
    and pc: "ex_pc (mgr_execs m ! e) = EStart" and i: "i \<in> set (group_ids (mgr_heap m ! ex_group (mgr_execs m ! e)))"
  shows "answerable ops st cfg jobs i m"
proof -
  have nx: "mnext ops st cfg jobs m (Exec e) = Some (goto_exec m e EOpen)"
    using e pc minvD(5) [OF inv] by (simp add: exec_step_def Let_def alive_def)
  with e i show ?thesis
    by (intro answerable_minv [OF inv ok nx] ans_open [OF ok, of _ e]) simp_all
qed

lemma ans_spawned:
  assumes ok: "jobs_ok st jobs" "0 \<le> cfg_MaxBatchSize cfg" and inv: "minv jobs m"
    and x: "mgr_execs m = xs @ [\<lparr>ex_key = k, ex_group = g, ex_pc = EStart\<rparr>]" and i: "i \<in> set (group_ids (mgr_heap m ! g))"
  shows "answerable ops st cfg jobs i m"
  using x i by (intro ans_start [OF ok inv, of "length xs"]) simp_all

lemma ans_spawning:
  assumes ok: "jobs_ok st jobs" "0 \<le> cfg_MaxBatchSize cfg" and inv: "minv jobs m"
    and pc: "mgr_pc m u = RSpawning g" and i: "i \<in> set (group_ids (mgr_heap m ! g))"
  shows "answerable ops st cfg jobs i m"
proof -
  have nx: "mnext ops st cfg jobs m (Spawn u) = Some (Enqueue_spawn (jobs u) u g m)"
    using pc by simp
  with i show ?thesis
    by (intro answerable_minv [OF inv ok nx] ans_spawned [OF ok]) (simp_all add: Enqueue_spawn_def)
qed

lemma ans_group:
  assumes ok: "jobs_ok st jobs" "0 \<le> cfg_MaxBatchSize cfg" and inv: "minv jobs m" and g: "g < length (mgr_heap m)"
    and i: "i \<in> set (group_ids (mgr_heap m ! g))"
  shows "answerable ops st cfg jobs i m"
proof -
  have "covered m g"
    using minvD(3) [OF inv] g i by (auto simp: cov_ok_def group_ids_reqs)
  then consider "grp_timer (mgr_heap m ! g) = Pending"
    | x where "x \<in> set (mgr_execs m)" "ex_group x = g" "ex_pc x = EStart \<or> ex_pc x = EOpen"
    | u where "mgr_pc m u = RStopping g" | u where "mgr_pc m u = RSpawning g"
    unfolding covered_def by blast
  then show ?thesis
  proof cases
    case 1
    let ?m = "spawn (set_group m g ((mgr_heap m ! g)\<lparr>grp_timer := Expired\<rparr>)) (grp_BatchKey (mgr_heap m ! g)) g"
    have nx: "mnext ops st cfg jobs m (Fire g) = Some ?m"
      using 1 g by simp
    from g i show ?thesis
      by (intro answerable_minv [OF inv ok nx] ans_spawned [OF ok, where g = g]) (simp_all add: group_ids_reqs)
  next
    case 2
    then obtain e where "e < length (mgr_execs m)" "x = mgr_execs m ! e"
      by (metis in_set_conv_nth)
    with 2 i ans_start [OF ok inv, of e] ans_open [OF ok inv, of e] show ?thesis by blast
  next
    case 3
    then have nx: "mnext ops st cfg jobs m (StopTimer u) = Some (Enqueue_stop u g m)"
      by simp
    from g i show ?thesis
      by (intro answerable_minv [OF inv ok nx] ans_spawning [OF ok, of _ u g])
         (simp_all add: Enqueue_stop_def Let_def group_ids_reqs)
  next
    case 4
    with ans_spawning [OF ok inv] i show ?thesis by blast
  qed
qed

lemma ans_enqueued:
  assumes ok: "jobs_ok st jobs" "0 \<le> cfg_MaxBatchSize cfg" and inv: "minv jobs m" and i: "enqueued (mgr_pc m i)"
  shows "answerable ops st cfg jobs i m"
proof -
  have "tokens m i = 1"
    using minvD(1) [OF inv] i by (simp add: tok_ok_def)
  moreover have "tokens m i = 0" if "\<forall>grp \<in> set (mgr_heap m). i \<notin> set (group_ids grp)"
    "\<forall>x \<in> set (mgr_execs m). i \<notin> set (exec_ids x)" "mgr_chan m i = []"
    using that by (simp add: tokens_def)
  ultimately consider grp where "grp \<in> set (mgr_heap m)" "i \<in> set (group_ids grp)"
    | x where "x \<in> set (mgr_execs m)" "i \<in> set (exec_ids x)" | "mgr_chan m i \<noteq> []"
    by (metis zero_neq_one)
  then show ?thesis
  proof cases
    case 1
    with ans_group [OF ok inv] show ?thesis by (metis in_set_conv_nth)
  next
    case 2
    then obtain e where e: "e < length (mgr_execs m)" "x = mgr_execs m ! e"
      by (metis in_set_conv_nth)
    note at = ok inv e(1)
    from 2 e show ?thesis
      by (cases "ex_pc x") (auto simp: exec_ids_def intro: ans_taken [OF at] ans_run [OF at] ans_send [OF at(1,2,3,4)])
  next
    case 3
    from i 3 show ?thesis by (rule ans_chan)
  qed
qed

section \<open>Properties\<close>

text \<open>C2: No write is lost and none is answered twice. However the callers of \<open>Enqueue\<close>, the timers and the
  executors interleave, as long as the manager is not closed, every request that was enqueued and has
  not returned is in exactly one place (one group, one executor's batch, or its own channel with its
  result), all others are nowhere; a group that holds requests has a pending timer or somebody who is
  about to execute it; and a result that is to be sent finds an empty channel, so that no executor blocks.\<close>

theorem requests_neither_lost_nor_duplicated:
  assumes "mreach ops st cfg jobs m" and "jobs_ok st jobs" and "0 \<le> cfg_MaxBatchSize cfg"
  shows "(\<forall>i. tokens m i = (if enqueued (mgr_pc m i) then 1 else 0)) \<and>
    (\<forall>g < length (mgr_heap m). group_reqs (mgr_heap m ! g) \<noteq> [] \<longrightarrow> covered m g) \<and>
    (\<forall>e < length (mgr_execs m). \<forall>i \<in> set (exec_ids (mgr_execs m ! e)). mgr_chan m i = []) \<and>
    (\<forall>x \<in> set (mgr_execs m). ex_pc x \<noteq> EPanicked)"
proof -
  have inv: "minv jobs m"
    by (rule mreach_minv [OF assms])
  then show ?thesis
    using send_ready [OF inv] by (auto simp: minv_def tok_ok_def cov_ok_def alive_def)
qed

text \<open>C21: Every enqueued write can be answered. From every reachable state of a manager that is not closed,
  the steps of the timers, executors and callers under way, without any further call, lead to a state in
  which a given enqueued request has returned with a result: no deadlock and no lost wake-up.\<close>

theorem enqueued_request_can_return:
  assumes "mreach ops st cfg jobs m" and "jobs_ok st jobs" and "0 \<le> cfg_MaxBatchSize cfg" and "enqueued (mgr_pc m i)"
  shows "\<exists>as m' res. mrun ops st cfg jobs m as = Some m' \<and> list_all internal as \<and> mgr_pc m' i = RDone res"
  using ans_enqueued [OF assms(2,3) mreach_minv [OF assms(1-3)] assms(4)] unfolding answerable_def .

lemma mrun_reach: "mreach ops st cfg jobs m \<Longrightarrow> mrun ops st cfg jobs m as = Some m' \<Longrightarrow> mreach ops st cfg jobs m'"
  by (induction ops st cfg jobs m as rule: mrun.induct) (auto split: option.splits intro: mreach.step)

text \<open>Calls with one key, for the examples.\<close>

definition demo_jobs :: "nat \<Rightarrow> job" where
  "demo_jobs i = \<lparr>job_key = ''k'', job_batchMs = 5, job_req =
     \<lparr>req_id = i, req_Query = ''UPDATE t SET a = ?'', req_Params = [VInt 1], req_callback = False, req_HasReturning = False\<rparr>\<rparr>"

lemma demo_jobs_ok: "jobs_ok plain demo_jobs"
proof -
  have "valid_utf8 (truncateQuery ''UPDATE t SET a = ?'' 50)"
    by code_simp
  then show ?thesis
    by (simp add: jobs_ok_def demo_jobs_def size_calls_accepted documented_rules plain_def)
qed

lemmas demo_defs = New_manager_def demo_jobs_def Enqueue_begin_def Enqueue_load_def Enqueue_create_def
  Enqueue_append_def Enqueue_stop_def Enqueue_spawn_def exec_step_def goto_req_def set_group_def goto_exec_def spawn_def
  Let_def mget_def mset_key_def mdelete_def

definition one_call :: "logdb mact list" where
  "one_call = [Begin 0 log_start, Load 0, Create 0, Append 0]"

lemma one_call_run:
  "\<exists>m. mrun log_db plain DefaultConfig demo_jobs New_manager one_call = Some m \<and> mgr_pc m 0 = RWaiting \<and> mgr_pc m 1 = RNew"
  by (simp add: one_call_def demo_defs DefaultConfig_def)

theorem requests_neither_lost_nor_duplicated_witness:
  "\<exists>m. mreach log_db plain DefaultConfig demo_jobs m \<and> tokens m 0 = 1 \<and> tokens m 1 = 0"
proof -
  obtain m where m: "mrun log_db plain DefaultConfig demo_jobs New_manager one_call = Some m"
    "mgr_pc m 0 = RWaiting" "mgr_pc m 1 = RNew"
    using one_call_run by blast
  have r: "mreach log_db plain DefaultConfig demo_jobs m"
    by (rule mrun_reach [OF mreach.start m(1)])
  have "(0 :: int) \<le> cfg_MaxBatchSize DefaultConfig"
    by (simp add: DefaultConfig_def)
  from requests_neither_lost_nor_duplicated [OF r demo_jobs_ok this] m r show ?thesis
    by auto
qed

theorem enqueued_request_can_return_witness:
  "\<exists>m as m' res. mreach log_db plain DefaultConfig demo_jobs m \<and> enqueued (mgr_pc m 0) \<and>
     mrun log_db plain DefaultConfig demo_jobs m as = Some m' \<and> mgr_pc m' 0 = RDone res"
proof -
  obtain m where m: "mrun log_db plain DefaultConfig demo_jobs New_manager one_call = Some m" "mgr_pc m 0 = RWaiting"
    using one_call_run by blast
  have r: "mreach log_db plain DefaultConfig demo_jobs m"
    by (rule mrun_reach [OF mreach.start m(1)])
  have "(0 :: int) \<le> cfg_MaxBatchSize DefaultConfig" and e: "enqueued (mgr_pc m 0)"
    using m by (simp_all add: DefaultConfig_def)
  from enqueued_request_can_return [OF r demo_jobs_ok this] r e show ?thesis
    by blast
qed

text \<open>A statement in valid UTF-8 with a character of two bytes at the places 49 and 50, and its execution in a batch.\<close>

definition city_query :: string where
  "city_query = ''INSERT INTO customers (names, city) VALUES (?, '' @ [CHR 0x27, CHR 0x4D, CHR 0xC3, CHR 0xBC] @ ''nchen'' @ [CHR 0x27, CHR 0x29]"

definition city_jobs :: "nat \<Rightarrow> job" where
  "city_jobs i = \<lparr>job_key = city_query, job_batchMs = 5, job_req =
     \<lparr>req_id = i, req_Query = city_query, req_Params = [VInt 1], req_callback = False, req_HasReturning = False\<rparr>\<rparr>"

definition city_run :: "logdb mact list" where
  "city_run = one_call @ [Fire 0, Exec 0, Exec 0, Exec 0, Batch 0 log_start]"

text \<open>C24: A batched write can end the process. The query of a batch is cut after 50 bytes to be the label of metrics; for a
  query in valid UTF-8 this may cut a character in two, and Prometheus does not accept a label that is not valid UTF-8: \<^verbatim>\<open>WithLabelValues\<close>
  panics in the goroutine of the batch, which nothing recovers, before any statement is executed, while the caller waits.\<close>

theorem cut_label_ends_process:
  assumes "checks_labels (st_prom st)"
  shows "valid_utf8 city_query \<and>
    (\<exists>m. mrun log_db st DefaultConfig city_jobs New_manager city_run = Some m \<and>
       map ex_pc (mgr_execs m) = [EPanicked] \<and> mgr_pc m 0 = RWaiting)"
proof
  show "valid_utf8 city_query"
    by code_simp
  have label: "\<not> valid_utf8 (truncateQuery city_query 50)"
    by code_simp
  show "\<exists>m. mrun log_db st DefaultConfig city_jobs New_manager city_run = Some m \<and>
       map ex_pc (mgr_execs m) = [EPanicked] \<and> mgr_pc m 0 = RWaiting"
    by (simp add: city_run_def one_call_def demo_defs city_jobs_def DefaultConfig_def run_batch_def size_calls_accepted assms label)
qed

theorem cut_label_ends_process_witness:
  "\<exists>m. mrun log_db plain DefaultConfig city_jobs New_manager city_run = Some m \<and>
     map ex_pc (mgr_execs m) = [EPanicked] \<and> mgr_pc m 0 = RWaiting"
  using cut_label_ends_process [of plain] documented_rules(2) by (simp add: plain_def)

text \<open>The maximum batch size is not a maximum. The size is compared only when a request joins a group
  that has requests already, so with a maximum of one a batch of two is executed.\<close>

lemma max_batch_size_exceeded:
  "\<exists>as m. mrun log_db plain \<lparr>cfg_MaxBatchSize = 1, cfg_UseCopy = False\<rparr> demo_jobs New_manager as = Some m \<and>
     map ex_pc (mgr_execs m) = [ERun [job_req (demo_jobs 0), job_req (demo_jobs 1)]]"
  by (rule exI [of _ "[Begin 0 log_start, Load 0, Create 0, Append 0, Begin 1 log_start, Load 1, Append 1,
        StopTimer 1, Spawn 1, Exec 0, Exec 0, Exec 0]"])
     (simp add: demo_defs)

definition stranding :: "logdb mact list" where
  "stranding = [Fire 0, Exec 0, Exec 0, Exec 0, Receive 0, Append 1]"

text \<open>C37: A write can be stranded when the manager is closed. The second of two calls has passed the closed check
  and found the group of the first when the manager is closed; the executor of the group answers the
  first with an error but leaves the group as it is; the second then joins it and waits for ever: no
  step of the manager is possible any more, and later calls are refused.\<close>

theorem closing_strands_request:
  "\<exists>m m'. mrun log_db plain DefaultConfig demo_jobs New_manager
        [Begin 0 log_start, Load 0, Create 0, Append 0, Begin 1 log_start, Load 1] = Some m \<and>
     mrun log_db plain DefaultConfig demo_jobs (Close_manager m) stranding = Some m' \<and>
     mgr_pc m' 0 = RDone (err_result ErrManagerClosed) \<and> mgr_pc m' 1 = RWaiting \<and>
     \<not> (\<exists>a m''. internal a \<and> mnext log_db plain DefaultConfig demo_jobs m' a = Some m'')"
proof -
  define m where "m = the (mrun log_db plain DefaultConfig demo_jobs New_manager
        [Begin 0 log_start, Load 0, Create 0, Append 0, Begin 1 log_start, Load 1])"
  define m' where "m' = the (mrun log_db plain DefaultConfig demo_jobs (Close_manager m) stranding)"
  let ?r = "\<lambda>i. job_req (demo_jobs i)"
  have m: "m = \<lparr>mgr_groups = [(''k'', 0)], mgr_heap = [\<lparr>grp_BatchKey = ''k'', grp_Requests = Some [?r 0], grp_timer = Pending\<rparr>],
      mgr_closed = False, mgr_batchCount = 0, mgr_execs = [], mgr_pc = (\<lambda>_. RNew)(0 := RWaiting, 1 := RLoaded 0),
      mgr_chan = (\<lambda>_. []), mgr_calls = []\<rparr>"
    and s: "mrun log_db plain DefaultConfig demo_jobs New_manager
        [Begin 0 log_start, Load 0, Create 0, Append 0, Begin 1 log_start, Load 1] = Some m"
    by (simp_all add: m_def demo_defs DefaultConfig_def fun_eq_iff)
  have m': "m' = \<lparr>mgr_groups = [(''k'', 0)], mgr_heap = [\<lparr>grp_BatchKey = ''k'', grp_Requests = Some [?r 0, ?r 1], grp_timer = Expired\<rparr>],
      mgr_closed = True, mgr_batchCount = 0, mgr_execs = [\<lparr>ex_key = ''k'', ex_group = 0, ex_pc = ESend []\<rparr>],
      mgr_pc = (\<lambda>_. RNew)(0 := RDone (err_result ErrManagerClosed), 1 := RWaiting), mgr_chan = (\<lambda>_. []), mgr_calls = []\<rparr>"
    and s': "mrun log_db plain DefaultConfig demo_jobs (Close_manager m) stranding = Some m'"
    by (simp_all add: m'_def m stranding_def Close_manager_def demo_defs DefaultConfig_def fun_eq_iff)
  have "mnext log_db plain DefaultConfig demo_jobs m' a \<noteq> Some m''" if "internal a" for a m''
    using that by (cases a) (auto simp: m' exec_step_def Let_def split: if_splits)
  then have "\<not> (\<exists>a m''. internal a \<and> mnext log_db plain DefaultConfig demo_jobs m' a = Some m'')"
    by blast
  moreover have "mgr_pc m' 0 = RDone (err_result ErrManagerClosed)" "mgr_pc m' 1 = RWaiting"
    by (simp_all add: m')
  ultimately show ?thesis
    using s s' by blast
qed

end
