(* ===== verification/WB_Origin.thy ===== *)
theory WB_Origin
  imports WB_Delivery
begin

text \<open>
  Where the result of a call of \<open>Enqueue\<close> comes from: from the execution of one batch, in which the request of the
  call is one of several with the same batch key. Together with the delivery of results this is what the proxies rely on
  when they answer a client with the result of a call.
\<close>

section \<open>One key per batch\<close>

text \<open>The groups in the map, the groups that calls are about to join, and the requests in groups and executors all have the key of
  their group.\<close>

definition key_ok :: "(nat \<Rightarrow> job) \<Rightarrow> Manager \<Rightarrow> bool" where
  "key_ok jobs m \<longleftrightarrow>
     (\<forall>k g. mget (mgr_groups m) k = Some g \<longrightarrow> g < length (mgr_heap m) \<and> grp_BatchKey (mgr_heap m ! g) = k) \<and>
     (\<forall>i. \<forall>g \<in> pc_groups (mgr_pc m i). g < length (mgr_heap m) \<and> grp_BatchKey (mgr_heap m ! g) = job_key (jobs i)) \<and>
     (\<forall>g < length (mgr_heap m). \<forall>r \<in> set (group_reqs (mgr_heap m ! g)).
        job_key (jobs (req_id r)) = grp_BatchKey (mgr_heap m ! g)) \<and>
     (\<forall>x \<in> set (mgr_execs m). ex_group x < length (mgr_heap m) \<and>
        (\<forall>r \<in> set (exec_reqs x). job_key (jobs (req_id r)) = grp_BatchKey (mgr_heap m ! ex_group x)))"

lemma key_okD:
  assumes "key_ok jobs m"
  shows "mget (mgr_groups m) k = Some g \<Longrightarrow> g < length (mgr_heap m) \<and> grp_BatchKey (mgr_heap m ! g) = k"
    and "g \<in> pc_groups (mgr_pc m i) \<Longrightarrow> g < length (mgr_heap m) \<and> grp_BatchKey (mgr_heap m ! g) = job_key (jobs i)"
    and "g < length (mgr_heap m) \<Longrightarrow> r \<in> set (group_reqs (mgr_heap m ! g)) \<Longrightarrow>
      job_key (jobs (req_id r)) = grp_BatchKey (mgr_heap m ! g)"
    and "x \<in> set (mgr_execs m) \<Longrightarrow> ex_group x < length (mgr_heap m)"
    and "x \<in> set (mgr_execs m) \<Longrightarrow> r \<in> set (exec_reqs x) \<Longrightarrow>
      job_key (jobs (req_id r)) = grp_BatchKey (mgr_heap m ! ex_group x)"
  using assms by (simp_all add: key_ok_def)

text \<open>A step keeps the keys of the groups; what it changes or adds is to have the key of its group.\<close>

lemma key_okI:
  assumes k: "key_ok jobs m" and len: "length (mgr_heap m) \<le> length (mgr_heap m')"
    and keys: "\<And>g. g < length (mgr_heap m) \<Longrightarrow> grp_BatchKey (mgr_heap m' ! g) = grp_BatchKey (mgr_heap m ! g)"
    and groups: "\<And>key g. mget (mgr_groups m') key = Some g \<Longrightarrow>
      mget (mgr_groups m) key = Some g \<or> g < length (mgr_heap m') \<and> grp_BatchKey (mgr_heap m' ! g) = key"
    and pcs: "\<And>i g. g \<in> pc_groups (mgr_pc m' i) \<Longrightarrow>
      g \<in> pc_groups (mgr_pc m i) \<or> g < length (mgr_heap m') \<and> grp_BatchKey (mgr_heap m' ! g) = job_key (jobs i)"
    and reqs: "\<And>g r. g < length (mgr_heap m') \<Longrightarrow> r \<in> set (group_reqs (mgr_heap m' ! g)) \<Longrightarrow>
      g < length (mgr_heap m) \<and> r \<in> set (group_reqs (mgr_heap m ! g)) \<or> job_key (jobs (req_id r)) = grp_BatchKey (mgr_heap m' ! g)"
    and execs: "\<And>x. x \<in> set (mgr_execs m') \<Longrightarrow> x \<in> set (mgr_execs m) \<or>
      ex_group x < length (mgr_heap m) \<and> (\<forall>r \<in> set (exec_reqs x). job_key (jobs (req_id r)) = grp_BatchKey (mgr_heap m ! ex_group x))"
  shows "key_ok jobs m'"
  unfolding key_ok_def
proof (intro conjI allI impI ballI)
  fix key g assume "mget (mgr_groups m') key = Some g"
  from groups [OF this] key_okD(1) [OF k, of key g] len keys [of g]
  show "g < length (mgr_heap m')" "grp_BatchKey (mgr_heap m' ! g) = key" by auto
next
  fix i g assume "g \<in> pc_groups (mgr_pc m' i)"
  from pcs [OF this] key_okD(2) [OF k, of g i] len keys [of g]
  show "g < length (mgr_heap m')" "grp_BatchKey (mgr_heap m' ! g) = job_key (jobs i)" by auto
next
  fix g r assume "g < length (mgr_heap m')" "r \<in> set (group_reqs (mgr_heap m' ! g))"
  from reqs [OF this] key_okD(3) [OF k, of g r] keys [of g]
  show "job_key (jobs (req_id r)) = grp_BatchKey (mgr_heap m' ! g)" by auto
next
  fix x assume x: "x \<in> set (mgr_execs m')"
  have g: "ex_group x < length (mgr_heap m)"
    using execs [OF x] key_okD(4) [OF k, of x] by auto
  with len show "ex_group x < length (mgr_heap m')" by simp
  fix r assume "r \<in> set (exec_reqs x)"
  with execs [OF x] key_okD(5) [OF k, of x r] keys [OF g]
  show "job_key (jobs (req_id r)) = grp_BatchKey (mgr_heap m' ! ex_group x)" by auto
qed

lemma key_append:
  assumes k: "key_ok jobs m" and ids: "\<forall>i. req_id (job_req (jobs i)) = i" and pc: "mgr_pc m i = RLoaded g"
  shows "key_ok jobs (Enqueue_append cfg (jobs i) i g m)" (is "key_ok jobs ?m")
proof -
  have g: "g < length (mgr_heap m)" "grp_BatchKey (mgr_heap m ! g) = job_key (jobs i)"
    using key_okD(2) [OF k, of g i] pc by auto
  show ?thesis
  proof (rule key_okI [OF k])
    show "mget (mgr_groups ?m) key = Some h \<Longrightarrow> mget (mgr_groups m) key = Some h \<or>
        h < length (mgr_heap ?m) \<and> grp_BatchKey (mgr_heap ?m ! h) = key" for key h
      by (simp add: Enqueue_append_def Let_def split: option.splits if_splits)
    show "h \<in> pc_groups (mgr_pc ?m j) \<Longrightarrow> h \<in> pc_groups (mgr_pc m j) \<or>
        h < length (mgr_heap ?m) \<and> grp_BatchKey (mgr_heap ?m ! h) = job_key (jobs j)" for j h
      using g by (auto simp: Enqueue_append_def Let_def split: option.splits if_splits)
    show "h < length (mgr_heap ?m) \<Longrightarrow> r \<in> set (group_reqs (mgr_heap ?m ! h)) \<Longrightarrow>
        h < length (mgr_heap m) \<and> r \<in> set (group_reqs (mgr_heap m ! h)) \<or> job_key (jobs (req_id r)) = grp_BatchKey (mgr_heap ?m ! h)" for h r
      using g ids by (auto simp: Enqueue_append_def Let_def nth_list_update group_reqs_Some split: option.splits if_splits)
    show "grp_BatchKey (mgr_heap ?m ! h) = grp_BatchKey (mgr_heap m ! h)" if "h < length (mgr_heap m)" for h
      using that g(1) by (auto simp: Enqueue_append_def Let_def nth_list_update split: option.splits)
  qed (simp_all add: Enqueue_append_def Let_def split: option.splits if_splits)
qed

lemma key_exec:
  assumes k: "key_ok jobs m" and e: "e < length (mgr_execs m)" and s: "exec_step e m = Some m'"
  shows "key_ok jobs m'"
proof -
  let ?x = "mgr_execs m ! e"
  have x: "ex_group ?x < length (mgr_heap m)"
    "\<And>r. r \<in> set (exec_reqs ?x) \<Longrightarrow> job_key (jobs (req_id r)) = grp_BatchKey (mgr_heap m ! ex_group ?x)"
    "\<And>r. r \<in> set (group_reqs (mgr_heap m ! ex_group ?x)) \<Longrightarrow> job_key (jobs (req_id r)) = grp_BatchKey (mgr_heap m ! ex_group ?x)"
    using key_okD(3,4,5) [OF k] nth_mem [OF e] by blast+
  have frame: "mgr_pc m' = mgr_pc m" "length (mgr_heap m') = length (mgr_heap m)"
    "\<And>g. grp_BatchKey (mgr_heap m' ! g) = grp_BatchKey (mgr_heap m ! g)"
    "\<And>g r. r \<in> set (group_reqs (mgr_heap m' ! g)) \<Longrightarrow> r \<in> set (group_reqs (mgr_heap m ! g))"
    "\<And>key g. mget (mgr_groups m') key = Some g \<Longrightarrow> mget (mgr_groups m) key = Some g"
    using s x(1)
    by (auto simp: exec_step_def Let_def nth_list_update split: epc.splits list.splits event.splits if_splits)
  have execs: "y \<in> set (mgr_execs m) \<or> ex_group y = ex_group ?x \<and>
      (\<forall>r \<in> set (exec_reqs y). r \<in> set (exec_reqs ?x) \<or> r \<in> set (group_reqs (mgr_heap m ! ex_group ?x)))"
    if "y \<in> set (mgr_execs m')" for y
    using s that
    by (auto simp: exec_step_def Let_def exec_reqs_def [of ?x] split: epc.splits list.splits event.splits if_splits
        dest!: in_set_update)
  show ?thesis
    using frame execs x by (intro key_okI [OF k]) fastforce+
qed

lemma key_step:
  assumes k: "key_ok jobs m" and ids: "\<forall>i. req_id (job_req (jobs i)) = i"
    and nx: "mnext ops st cfg jobs m a = Some m'"
  shows "key_ok jobs m'"
proof (cases a)
  case (Begin i x)
  with nx begin_pc [of ops x "jobs i" i m] show ?thesis
    by (intro key_okI [OF k]) (auto simp: begin_frame split: if_splits)
next
  case (Load i)
  with nx show ?thesis
    using key_okD(1) [OF k, of "job_key (jobs i)"]
    by (intro key_okI [OF k]) (auto simp: Enqueue_load_def split: if_splits option.splits)
next
  case (Create i)
  with nx show ?thesis
    using key_okD(1) [OF k, of "job_key (jobs i)"]
    by (intro key_okI [OF k]) (auto simp: Enqueue_create_def Let_def nth_append less_Suc_eq split: if_splits option.splits)
next
  case (Append i)
  with nx show ?thesis
    using key_append [OF k ids] by (auto split: rpc.splits)
next
  case (StopTimer i)
  with nx show ?thesis
    using key_okD(2) [OF k, of _ i]
    by (intro key_okI [OF k]) (auto simp: Enqueue_stop_def Let_def nth_list_update split: if_splits rpc.splits)
next
  case (Spawn i)
  with nx show ?thesis
    using key_okD(2) [OF k, of _ i]
    by (intro key_okI [OF k]) (auto simp: Enqueue_spawn_def split: rpc.splits if_splits)
next
  case (Receive i)
  with nx show ?thesis
    by (intro key_okI [OF k]) (auto split: rpc.splits list.splits if_splits)
next
  case (Fire g)
  with nx show ?thesis
    by (intro key_okI [OF k]) (auto simp: nth_list_update split: if_splits)
next
  case (Exec e)
  with nx show ?thesis
    using key_exec [OF k] by (auto split: if_splits)
next
  case (Batch e x)
  with nx show ?thesis
    using key_okD(4) [OF k, OF nth_mem, of e]
    by (intro key_okI [OF k]) (auto split: if_splits epc.splits sum.splits dest!: in_set_update)
qed

section \<open>The origin of results\<close>

text \<open>The result is one that a batch sent to the call; all requests of the batch are requests of calls with the same key.\<close>

definition from_batch :: "'d sqldb \<Rightarrow> strategy \<Rightarrow> (nat \<Rightarrow> job) \<Rightarrow> nat \<Rightarrow> WriteResult \<Rightarrow> bool" where
  "from_batch ops st jobs i res \<longleftrightarrow> (\<exists>x rs x' evs. run_batch ops st x rs = Inr (x', evs) \<and> (i, res) \<in> set (sent evs) \<and>
     (\<forall>r \<in> set rs. r = job_req (jobs (req_id r)) \<and> job_key (jobs (req_id r)) = job_key (jobs i)))"

definition origin_ok :: "'d sqldb \<Rightarrow> strategy \<Rightarrow> (nat \<Rightarrow> job) \<Rightarrow> Manager \<Rightarrow> bool" where
  "origin_ok ops st jobs m \<longleftrightarrow>
     (\<forall>x \<in> set (mgr_execs m). \<forall>evs i res. ex_pc x = ESend evs \<longrightarrow> (i, res) \<in> set (sent evs) \<longrightarrow> from_batch ops st jobs i res) \<and>
     (\<forall>i. \<forall>res \<in> set (mgr_chan m i). from_batch ops st jobs i res) \<and>
     (\<forall>i res. mgr_pc m i = RDone res \<longrightarrow> job_batchMs (jobs i) \<noteq> 0 \<longrightarrow> from_batch ops st jobs i res)"

lemma batch_origin:
  assumes inv: "minv jobs m" and k: "key_ok jobs m" and e: "e < length (mgr_execs m)"
    and pc: "ex_pc (mgr_execs m ! e) = ERun rs" and run: "run_batch ops st x rs = Inr (x', evs)" and "(i, res) \<in> set (sent evs)"
  shows "from_batch ops st jobs i res"
proof -
  let ?x = "mgr_execs m ! e"
  have rs: "exec_reqs ?x = rs"
    by (simp add: exec_reqs_def pc)
  have r: "r = job_req (jobs (req_id r)) \<and> job_key (jobs (req_id r)) = grp_BatchKey (mgr_heap m ! ex_group ?x)" if "r \<in> set rs" for r
    using that key_okD(5) [OF k nth_mem [OF e]] minvD(4) [OF inv] nth_mem [OF e] by (simp add: reqs_ok_def rs)
  have "i \<in> req_id ` set rs"
    using batch.run_once [OF run] assms(6) by (metis image_eqI list.set_map fst_conv)
  then show ?thesis
    unfolding from_batch_def using run assms(6) r by (intro exI [of _ x] exI [of _ rs] exI) auto
qed

lemma origin_step:
  assumes o: "origin_ok ops st jobs m" and inv: "minv jobs m" and k: "key_ok jobs m" and nx: "mnext ops st cfg jobs m a = Some m'"
  shows "origin_ok ops st jobs m'"
proof (cases a)
  case (Begin i x)
  with o nx minvD(5) [OF inv] show ?thesis
    by (auto simp: origin_ok_def Enqueue_begin_def Let_def alive_def split: if_splits)
next
  case (Load i)
  with o nx show ?thesis
    by (auto simp: origin_ok_def Enqueue_load_def split: if_splits option.splits)
next
  case (Create i)
  with o nx show ?thesis
    by (auto simp: origin_ok_def Enqueue_create_def Let_def split: if_splits option.splits)
next
  case (Append i)
  with o nx show ?thesis
    by (auto simp: origin_ok_def Enqueue_append_def Let_def split: if_splits option.splits rpc.splits)
next
  case (StopTimer i)
  with o nx show ?thesis
    by (auto simp: origin_ok_def Enqueue_stop_def Let_def split: if_splits rpc.splits)
next
  case (Spawn i)
  with o nx show ?thesis
    by (auto simp: origin_ok_def Enqueue_spawn_def split: rpc.splits if_splits)
next
  case (Receive i)
  with o nx show ?thesis
    by (auto simp: origin_ok_def split: rpc.splits list.splits if_splits)
next
  case (Fire g)
  with o nx show ?thesis
    by (auto simp: origin_ok_def split: if_splits)
next
  case (Exec e)
  then have e: "e < length (mgr_execs m)" and s: "exec_step e m = Some m'"
    using nx by (auto split: if_splits)
  have x: "ex_pc (mgr_execs m ! e) \<noteq> EClosed"
    "\<And>evs i res. ex_pc (mgr_execs m ! e) = ESend evs \<Longrightarrow> (i, res) \<in> set (sent evs) \<Longrightarrow> from_batch ops st jobs i res"
    using o minvD(5) [OF inv] nth_mem [OF e] by (auto simp: origin_ok_def alive_def)
  show ?thesis
    using o s x
    by (auto simp: origin_ok_def exec_step_def Let_def split: if_splits epc.splits list.splits event.splits dest!: in_set_update)
next
  case (Batch e x)
  with o nx show ?thesis
    by (auto simp: origin_ok_def split: if_splits epc.splits sum.splits dest!: in_set_update)
      (rule batch_origin [OF inv k])
qed

lemma reach_origin:
  assumes "mreach ops st cfg jobs m" and "jobs_ok st jobs" and "0 \<le> cfg_MaxBatchSize cfg"
  shows "key_ok jobs m \<and> origin_ok ops st jobs m"
  using assms(1)
proof (induction rule: mreach.induct)
  case start
  show ?case
    by (simp add: key_ok_def origin_ok_def New_manager_def)
next
  case (step m a m')
  then show ?case
    using key_step origin_step mreach_minv [OF step.hyps(1) assms(2,3)] assms(2) unfolding jobs_ok_def by metis
qed

lemma from_batchE:
  assumes "from_batch ops st jobs i res"
  obtains x rs x' evs where "run_batch ops st x rs = Inr (x', evs)" "(i, res) \<in> set (sent evs)" "job_req (jobs i) \<in> set rs"
    "\<forall>r \<in> set rs. r = job_req (jobs (req_id r)) \<and> job_key (jobs (req_id r)) = job_key (jobs i)"
proof -
  obtain x rs x' evs where b: "run_batch ops st x rs = Inr (x', evs)" "(i, res) \<in> set (sent evs)"
    "\<forall>r \<in> set rs. r = job_req (jobs (req_id r)) \<and> job_key (jobs (req_id r)) = job_key (jobs i)"
    using assms unfolding from_batch_def by blast
  then have "i \<in> req_id ` set rs"
    using batch.run_once [OF b(1)] by (metis image_eqI list.set_map fst_conv)
  with b(3) have "job_req (jobs i) \<in> set rs"
    by auto
  with b that show thesis by blast
qed

section \<open>Properties\<close>

text \<open>C9: A call of \<open>Enqueue\<close> with a batch window that returns has the result of its own request: one batch was executed that contained this
  request, and only requests of calls with the same batch key, and it sent this result to the call. So the
  statements that are executed together are equal up to their parameters when the keys are the statements, as in both proxies.\<close>

theorem result_of_own_batch:
  assumes "mreach ops st cfg jobs m" and "jobs_ok st jobs" and "0 \<le> cfg_MaxBatchSize cfg"
    and "mgr_pc m i = RDone res" and "job_batchMs (jobs i) \<noteq> 0"
  shows "\<exists>x rs x' evs. run_batch ops st x rs = Inr (x', evs) \<and> (i, res) \<in> set (sent evs) \<and> job_req (jobs i) \<in> set rs \<and>
     (\<forall>r \<in> set rs. r = job_req (jobs (req_id r)) \<and> job_key (jobs (req_id r)) = job_key (jobs i))"
proof -
  have "from_batch ops st jobs i res"
    using reach_origin [OF assms(1-3)] assms(4,5) by (simp add: origin_ok_def)
  then show ?thesis
    by (rule from_batchE) blast
qed

theorem result_of_own_batch_witness:
  "\<exists>m res x rs x' evs. mreach log_db plain DefaultConfig demo_jobs m \<and> mgr_pc m 0 = RDone res \<and>
     run_batch log_db plain x rs = Inr (x', evs) \<and> (0, res) \<in> set (sent evs) \<and> job_req (demo_jobs 0) \<in> set rs"
proof -
  have c: "(0 :: int) \<le> cfg_MaxBatchSize DefaultConfig"
    by (simp add: DefaultConfig_def)
  obtain m where m: "mrun log_db plain DefaultConfig demo_jobs New_manager one_call = Some m" "mgr_pc m 0 = RWaiting"
    using one_call_run by blast
  have r: "mreach log_db plain DefaultConfig demo_jobs m"
    by (rule mrun_reach [OF mreach.start m(1)])
  have "enqueued (mgr_pc m 0)"
    by (simp add: m(2))
  then obtain as m' res where m': "mrun log_db plain DefaultConfig demo_jobs m as = Some m'" "mgr_pc m' 0 = RDone res"
    using ans_enqueued [OF demo_jobs_ok c mreach_minv [OF r demo_jobs_ok c], of 0] unfolding answerable_def by blast
  have r': "mreach log_db plain DefaultConfig demo_jobs m'"
    by (rule mrun_reach [OF r m'(1)])
  have "job_batchMs (demo_jobs 0) \<noteq> 0"
    by (simp add: demo_jobs_def)
  from result_of_own_batch [OF r' demo_jobs_ok c m'(2) this] r' m'(2) show ?thesis
    by blast
qed

end
