(* ===== verification/WB_Refinement.thy ===== *)
theory WB_Refinement
  imports WB_Origin "HOL-Library.Sublist"
begin

text \<open>
  The contract of the write batcher, \<^verbatim>\<open>writebatch/manager.go\<close>, as an abstract machine, and the refinement of it by the
  manager with its map, groups, timers, goroutines and channels. The abstract machine knows only the calls, each idle, held,
  answered or returned, and the order in which the held calls were submitted. It submits a call, runs a batch on held calls
  that have one key, in the order of their submission, and returns the answer to the caller; a call without a batch window
  is executed at once. Every run of the manager is a run of this machine.
\<close>

section \<open>Forward simulation\<close>

text \<open>Runs of a deterministic step function, and the visible actions of a run.\<close>

fun run_steps :: "('s \<Rightarrow> 'a \<Rightarrow> 's option) \<Rightarrow> 's \<Rightarrow> 'a list \<Rightarrow> 's option" where
  "run_steps step s [] = Some s"
| "run_steps step s (a # as) = (case step s a of None \<Rightarrow> None | Some s' \<Rightarrow> run_steps step s' as)"

fun visible :: "('s \<Rightarrow> 'a \<Rightarrow> 's option) \<Rightarrow> ('s \<Rightarrow> 'a \<Rightarrow> 'b option) \<Rightarrow> 's \<Rightarrow> 'a list \<Rightarrow> 'b list" where
  "visible step obs s [] = []"
| "visible step obs s (a # as) = (case obs s a of None \<Rightarrow> [] | Some b \<Rightarrow> [b]) @
     (case step s a of None \<Rightarrow> [] | Some s' \<Rightarrow> visible step obs s' as)"

locale forward_simulation =
  fixes step :: "'c \<Rightarrow> 'a \<Rightarrow> 'c option" and spec :: "'s \<Rightarrow> 'b \<Rightarrow> 's option"
    and obs :: "'c \<Rightarrow> 'a \<Rightarrow> 'b option" and sim :: "'c \<Rightarrow> 's \<Rightarrow> bool"
  assumes stutter: "sim c s \<Longrightarrow> step c a = Some c' \<Longrightarrow> obs c a = None \<Longrightarrow> sim c' s"
    and follow: "sim c s \<Longrightarrow> step c a = Some c' \<Longrightarrow> obs c a = Some b \<Longrightarrow> \<exists>s'. spec s b = Some s' \<and> sim c' s'"
begin

lemma run_simulated:
  "sim c s \<Longrightarrow> run_steps step c as = Some c' \<Longrightarrow> \<exists>s'. run_steps spec s (visible step obs c as) = Some s' \<and> sim c' s'"
proof (induction as arbitrary: c s)
  case (Cons a as)
  then obtain c1 where c1: "step c a = Some c1" "run_steps step c1 as = Some c'"
    by (auto split: option.splits)
  show ?case
  proof (cases "obs c a")
    case None
    with Cons.IH [OF stutter [OF Cons.prems(1) c1(1)] c1(2)] c1(1) show ?thesis by simp
  next
    case (Some b)
    from follow [OF Cons.prems(1) c1(1) Some] obtain s1 where "spec s b = Some s1" "sim c1 s1"
      by blast
    with Cons.IH [OF _ c1(2)] c1(1) Some show ?thesis by simp
  qed
qed simp

end

section \<open>The abstract batcher\<close>

datatype call = Idle | Held | Ready WriteResult | Returned WriteResult

record batcher =
  bt_call :: "nat \<Rightarrow> call"
  bt_pending :: "nat list"

datatype 'd bact = Immediate nat "'d exec" | Submit nat | RunBatch "nat list" "'d exec" | Return nat

definition New_batcher :: batcher where
  "New_batcher = \<lparr>bt_call = (\<lambda>_. Idle), bt_pending = []\<rparr>"

definition same_key :: "(nat \<Rightarrow> job) \<Rightarrow> nat list \<Rightarrow> bool" where
  "same_key jobs ids \<longleftrightarrow> (\<forall>i \<in> set ids. job_key (jobs i) = job_key (jobs (hd ids)))"

text \<open>The answers of a batch.\<close>

definition take_results :: "(nat \<times> WriteResult) list \<Rightarrow> (nat \<Rightarrow> call) \<Rightarrow> nat \<Rightarrow> call" where
  "take_results results calls i = (case map_of results i of Some res \<Rightarrow> Ready res | None \<Rightarrow> calls i)"

fun bnext :: "'d sqldb \<Rightarrow> strategy \<Rightarrow> (nat \<Rightarrow> job) \<Rightarrow> batcher \<Rightarrow> 'd bact \<Rightarrow> batcher option" where
  "bnext ops st jobs s (Immediate i x) =
     (if bt_call s i = Idle \<and> job_batchMs (jobs i) = 0 then
        Some (s\<lparr>bt_call := (bt_call s)(i :=
          Returned (snd (executeImmediate ops x (req_Query (job_req (jobs i))) (req_Params (job_req (jobs i))))))\<rparr>)
      else None)"
| "bnext ops st jobs s (Submit i) =
     (if bt_call s i = Idle \<and> job_batchMs (jobs i) \<noteq> 0 then
        Some (s\<lparr>bt_call := (bt_call s)(i := Held), bt_pending := bt_pending s @ [i]\<rparr>)
      else None)"
| "bnext ops st jobs s (RunBatch ids x) =
     (if ids \<noteq> [] \<and> subseq ids (bt_pending s) \<and> same_key jobs ids then
        (case run_batch ops st x (map (\<lambda>i. job_req (jobs i)) ids) of
           Inl p \<Rightarrow> None
         | Inr (x', evs) \<Rightarrow> Some (s\<lparr>bt_call := take_results (sent evs) (bt_call s),
             bt_pending := filter (\<lambda>i. i \<notin> set ids) (bt_pending s)\<rparr>))
      else None)"
| "bnext ops st jobs s (Return i) =
     (case bt_call s i of Ready res \<Rightarrow> Some (s\<lparr>bt_call := (bt_call s)(i := Returned res)\<rparr>) | _ \<Rightarrow> None)"

text \<open>The held calls are those that wait in line, each once.\<close>

definition line_ok :: "batcher \<Rightarrow> bool" where
  "line_ok s \<longleftrightarrow> distinct (bt_pending s) \<and> (\<forall>i. i \<in> set (bt_pending s) \<longleftrightarrow> bt_call s i = Held)"

lemma take_results_Held:
  "take_results results calls i = Held \<longleftrightarrow> i \<notin> fst ` set results \<and> calls i = Held"
  by (auto simp: take_results_def map_of_eq_None_iff split: option.splits dest: map_of_SomeD)
     (force dest: map_of_SomeD)

lemma line_step:
  assumes line: "line_ok s" and ids: "\<forall>i. req_id (job_req (jobs i)) = i" and b: "bnext ops st jobs s b = Some s'"
  shows "line_ok s'"
proof (cases b)
  case (RunBatch js x)
  with b obtain x' evs where run: "run_batch ops st x (map (\<lambda>i. job_req (jobs i)) js) = Inr (x', evs)"
    and s': "s' = s\<lparr>bt_call := take_results (sent evs) (bt_call s), bt_pending := filter (\<lambda>i. i \<notin> set js) (bt_pending s)\<rparr>"
    by (auto split: if_splits sum.splits)
  have "fst ` set (sent evs) = set js"
    using batch.run_once [OF run] ids by (metis (no_types, lifting) list.map_comp list.set_map map_idI comp_apply)
  with line show ?thesis
    by (auto simp: line_ok_def s' take_results_Held)
qed (use assms in \<open>auto simp: line_ok_def split: if_splits call.splits\<close>)

section \<open>The manager seen as a batcher\<close>

lemma enqueued_code [code]:
  "enqueued l \<longleftrightarrow> (case l of RStopping g \<Rightarrow> True | RSpawning g \<Rightarrow> True | RWaiting \<Rightarrow> True | _ \<Rightarrow> False)"
  by (simp add: enqueued_def split: rpc.splits)

text \<open>The results that executors still have to send, and the state of a call.\<close>

definition results_of :: "executor \<Rightarrow> (nat \<times> WriteResult) list" where
  "results_of x = (case ex_pc x of ESend evs \<Rightarrow> sent evs | _ \<Rightarrow> [])"

definition outgoing :: "Manager \<Rightarrow> (nat \<times> WriteResult) list" where
  "outgoing m = concat (map results_of (mgr_execs m))"

definition call_state :: "Manager \<Rightarrow> nat \<Rightarrow> call" where
  "call_state m i = (case mgr_pc m i of
       RDone res \<Rightarrow> Returned res
     | l \<Rightarrow> if \<not> enqueued l then Idle
            else (case mgr_chan m i of
                    res # _ \<Rightarrow> Ready res
                  | [] \<Rightarrow> (case map_of (outgoing m) i of Some res \<Rightarrow> Ready res | None \<Rightarrow> Held)))"

text \<open>What a step of the manager is for the abstract batcher.\<close>

fun batcher_act :: "(nat \<Rightarrow> job) \<Rightarrow> Manager \<Rightarrow> 'd mact \<Rightarrow> 'd bact option" where
  "batcher_act jobs m (Begin i x) = (if job_batchMs (jobs i) = 0 then Some (Immediate i x) else None)"
| "batcher_act jobs m (Append i) =
     (case mgr_pc m i of
        RLoaded g \<Rightarrow> (case grp_Requests (mgr_heap m ! g) of None \<Rightarrow> None | Some rs \<Rightarrow> Some (Submit i))
      | _ \<Rightarrow> None)"
| "batcher_act jobs m (Batch e x) =
     (case ex_pc (mgr_execs m ! e) of ERun rs \<Rightarrow> Some (RunBatch (map req_id rs) x) | _ \<Rightarrow> None)"
| "batcher_act jobs m (Receive i) = Some (Return i)"
| "batcher_act jobs m a = None"

section \<open>The state of a call\<close>

definition has_result :: "Manager \<Rightarrow> nat \<Rightarrow> WriteResult \<Rightarrow> bool" where
  "has_result m i res \<longleftrightarrow> res \<in> set (mgr_chan m i) \<or> (i, res) \<in> set (outgoing m)"

lemma map_of_once: "count_list (map fst xs) i \<le> 1 \<Longrightarrow> (i, r) \<in> set xs \<Longrightarrow> map_of xs i = Some r"
proof (induction xs)
  case (Cons y xs)
  show ?case
  proof (cases "fst y = i")
    case True
    with Cons.prems(1) have "i \<notin> fst ` set xs"
      using count_list_pos [of i "map fst xs"] by auto
    with True Cons.prems(2) show ?thesis by (metis fst_conv image_eqI map_of_Cons_code(2) prod.collapse set_ConsD snd_conv)
  next
    case False
    with Cons show ?thesis by (cases y) auto
  qed
qed simp

lemma results_ids: "count_list (map fst (results_of x)) i \<le> count_list (exec_ids x) i"
  by (simp add: results_of_def exec_ids_def split: epc.splits)

lemma outgoing_tokens: "count_list (map fst (outgoing m)) i + length (mgr_chan m i) \<le> tokens m i"
proof -
  have "count_list (map fst (concat (map results_of xs))) i \<le> sum_list (map (\<lambda>x. count_list (exec_ids x) i) xs)" for xs
    by (induction xs) (use results_ids in \<open>auto intro: add_mono\<close>)
  then show ?thesis
    by (simp add: tokens_def outgoing_def add_mono trans_le_add2)
qed

lemma enqueued_token:
  assumes "minv jobs m" and "0 < tokens m i" shows "enqueued (mgr_pc m i)"
  using minvD(1) [OF assms(1)] assms(2) by (metis tok_ok_def less_numeral_extra(3))

lemma has_result_enqueued:
  assumes "minv jobs m" and "has_result m i res" shows "enqueued (mgr_pc m i)"
proof (rule enqueued_token [OF assms(1)])
  have "0 < count_list (map fst (outgoing m)) i + length (mgr_chan m i)"
    using assms(2) count_list_pos [of i "map fst (outgoing m)"] by (force simp: has_result_def)
  with outgoing_tokens [of m i] show "0 < tokens m i" by linarith
qed

lemma call_enqueued:
  "enqueued (mgr_pc m i) \<Longrightarrow> call_state m i = (case mgr_chan m i of res # _ \<Rightarrow> Ready res
     | [] \<Rightarrow> (case map_of (outgoing m) i of Some res \<Rightarrow> Ready res | None \<Rightarrow> Held))"
  by (cases "mgr_pc m i") (simp_all add: call_state_def)

lemma call_has_result:
  assumes inv: "minv jobs m" and r: "has_result m i res" shows "call_state m i = Ready res"
proof -
  have le: "count_list (map fst (outgoing m)) i + length (mgr_chan m i) \<le> 1"
    using outgoing_tokens [of m i] tokens_le1 [OF inv, of i] by linarith
  show ?thesis
  proof (cases "mgr_chan m i")
    case Nil
    with r le have "map_of (outgoing m) i = Some res"
      by (intro map_of_once) (simp_all add: has_result_def)
    with Nil show ?thesis
      by (simp add: call_enqueued [OF has_result_enqueued [OF inv r]])
  next
    case (Cons res' rest)
    with le have "rest = []" "count_list (map fst (outgoing m)) i = 0"
      by simp_all
    with r Cons have "res' = res"
      by (force simp: has_result_def count_list_0_iff)
    with Cons show ?thesis
      by (simp add: call_enqueued [OF has_result_enqueued [OF inv r]])
  qed
qed

lemma call_no_result:
  assumes "enqueued (mgr_pc m i)" and "\<And>res. \<not> has_result m i res" shows "call_state m i = Held"
proof -
  have "mgr_chan m i = []"
    using assms(2) by (metis has_result_def list.set_intros(1) neq_Nil_conv)
  moreover have "map_of (outgoing m) i = None"
    using assms(2) by (cases "map_of (outgoing m) i") (auto simp: has_result_def dest: map_of_SomeD)
  ultimately show ?thesis
    by (simp add: call_enqueued [OF assms(1)])
qed

lemma call_not_enqueued: "\<not> enqueued (mgr_pc m i) \<Longrightarrow> call_state m i = (case mgr_pc m i of RDone res \<Rightarrow> Returned res | _ \<Rightarrow> Idle)"
  by (cases "mgr_pc m i") (simp_all add: call_state_def)

lemma call_same:
  "mgr_pc m' i = mgr_pc m i \<Longrightarrow> mgr_chan m' i = mgr_chan m i \<Longrightarrow> outgoing m' = outgoing m \<Longrightarrow> call_state m' i = call_state m i"
  by (simp only: call_state_def)

lemma call_returned [simp]: "mgr_pc m i = RDone res \<Longrightarrow> call_state m i = Returned res"
  by (simp add: call_state_def)

text \<open>The state of a call depends on its control point up to \<open>enqueued\<close> and on its result.\<close>

lemma call_cong:
  assumes inv: "minv jobs m" "minv jobs m'" and e: "enqueued (mgr_pc m' i) = enqueued (mgr_pc m i)"
    and d: "\<not> enqueued (mgr_pc m i) \<Longrightarrow> mgr_pc m' i = mgr_pc m i \<or> (\<forall>res. mgr_pc m' i \<noteq> RDone res \<and> mgr_pc m i \<noteq> RDone res)"
    and r: "\<And>res. has_result m' i res \<longleftrightarrow> has_result m i res"
  shows "call_state m' i = call_state m i"
proof (cases "enqueued (mgr_pc m i)")
  case True
  show ?thesis
  proof (cases "\<exists>res. has_result m i res")
    case True
    with r call_has_result [OF inv(1)] call_has_result [OF inv(2)] show ?thesis by metis
  next
    case False
    with True e r call_no_result [of m] call_no_result [of m'] show ?thesis by metis
  qed
next
  case False
  with e d [OF False] show ?thesis
    by (auto simp: call_not_enqueued split: rpc.splits)
qed


section \<open>The simulation\<close>

text \<open>Where held calls are: in groups, and with executors that have not run their batch.\<close>

definition places :: "Manager \<Rightarrow> nat list list" where
  "places m = map group_ids (mgr_heap m) @ map (\<lambda>x. map req_id (exec_reqs x)) (mgr_execs m)"

definition joins :: "rpc \<Rightarrow> bool" where
  "joins l \<longleftrightarrow> l = RLookup \<or> l = RCreate \<or> (\<exists>g. l = RLoaded g)"

definition batcher_sim :: "strategy \<Rightarrow> Config \<Rightarrow> (nat \<Rightarrow> job) \<Rightarrow> Manager \<Rightarrow> batcher \<Rightarrow> bool" where
  "batcher_sim st cfg jobs m s \<longleftrightarrow> jobs_ok st jobs \<and> 0 \<le> cfg_MaxBatchSize cfg \<and> minv jobs m \<and> key_ok jobs m \<and>
     (\<forall>x \<in> set (mgr_execs m). ex_pc x \<noteq> ERun []) \<and> (\<forall>i. joins (mgr_pc m i) \<longrightarrow> job_batchMs (jobs i) \<noteq> 0) \<and>
     line_ok s \<and> bt_call s = call_state m \<and> (\<forall>p \<in> set (places m). subseq p (bt_pending s))"

lemma joins_simps [simp]:
  "joins RLookup" "joins RCreate" "joins (RLoaded g)" "\<not> joins RNew" "\<not> joins (RStopping g)" "\<not> joins (RSpawning g)"
  "\<not> joins RWaiting" "\<not> joins (RDone r)" "\<not> joins RPanicked"
  by (simp_all add: joins_def)

lemma joins_step:
  assumes "\<forall>i. joins (mgr_pc m i) \<longrightarrow> job_batchMs (jobs i) \<noteq> 0" and "mnext ops st cfg jobs m a = Some m'"
  shows "joins (mgr_pc m' i) \<longrightarrow> job_batchMs (jobs i) \<noteq> 0"
proof -
  have "joins (mgr_pc m j)" if "mgr_pc m j = RLookup \<or> mgr_pc m j = RCreate" for j
    using that by auto
  then show ?thesis
    using assms
    by (cases a) (auto simp: Enqueue_begin_def Enqueue_load_def Enqueue_create_def Enqueue_append_def Enqueue_stop_def
        Enqueue_spawn_def exec_step_def Let_def split: if_splits option.splits rpc.splits list.splits epc.splits event.splits sum.splits)
qed

lemma nonempty_step:
  assumes "\<forall>x \<in> set (mgr_execs m). ex_pc x \<noteq> ERun []" and "mnext ops st cfg jobs m a = Some m'"
  shows "\<forall>x \<in> set (mgr_execs m'). ex_pc x \<noteq> ERun []"
  using assms
  by (cases a) (auto simp: begin_frame Enqueue_load_def Enqueue_create_def Enqueue_append_def Enqueue_stop_def
      Enqueue_spawn_def exec_step_def Let_def split: if_splits option.splits rpc.splits list.splits epc.splits event.splits sum.splits
      dest!: in_set_update)

text \<open>A step that leaves the state of every call and puts held calls into no new place.\<close>

lemma sim_stutter:
  assumes sim: "batcher_sim st cfg jobs m s" and nx: "mnext ops st cfg jobs m a = Some m'"
    and pc: "\<And>i. enqueued (mgr_pc m' i) = enqueued (mgr_pc m i)"
    and away: "\<And>i. \<not> enqueued (mgr_pc m i) \<Longrightarrow> mgr_pc m' i = mgr_pc m i \<or>
      (\<forall>res. mgr_pc m' i \<noteq> RDone res \<and> mgr_pc m i \<noteq> RDone res)"
    and res: "\<And>i res. has_result m' i res \<longleftrightarrow> has_result m i res"
    and places: "\<And>p. p \<in> set (places m') \<Longrightarrow> p = [] \<or> p \<in> set (places m)"
  shows "batcher_sim st cfg jobs m' s"
proof -
  have s: "jobs_ok st jobs" "0 \<le> cfg_MaxBatchSize cfg" "minv jobs m" "key_ok jobs m"
    "\<forall>i. joins (mgr_pc m i) \<longrightarrow> job_batchMs (jobs i) \<noteq> 0" "line_ok s" "\<forall>x \<in> set (mgr_execs m). ex_pc x \<noteq> ERun []" "bt_call s = call_state m"
    "\<forall>p \<in> set (places m). subseq p (bt_pending s)"
    using sim unfolding batcher_sim_def by blast+
  have inv: "minv jobs m'" "key_ok jobs m'"
    using minv_step [OF s(3,1,2) nx] key_step [OF s(4) _ nx] s(1) by (auto simp: jobs_ok_def)
  have "call_state m' = call_state m"
    using call_cong [OF s(3) inv(1) pc away res] by blast
  moreover have "subseq p (bt_pending s)" if "p \<in> set (places m')" for p
    using places [OF that] s(9) by auto
  ultimately show ?thesis
    unfolding batcher_sim_def using s inv joins_step [OF s(5) nx] nonempty_step [OF s(7) nx] by simp
qed


lemma outgoing_same:
  assumes "e < length (mgr_execs m)" and "mgr_execs m' = (mgr_execs m)[e := x]" and "results_of x = results_of (mgr_execs m ! e)"
  shows "outgoing m' = outgoing m"
  using assms(3) list_update_id [of "map results_of (mgr_execs m)" e] assms(1)
  by (simp add: outgoing_def assms(2) map_update)

lemma outgoing_insert:
  assumes e: "e < length (mgr_execs m)" and m': "mgr_execs m' = (mgr_execs m)[e := x]"
    and r: "results_of (mgr_execs m ! e) = rs @ results_of x"
  shows "set (outgoing m) = set rs \<union> set (outgoing m')"
proof -
  have "set (outgoing m) = set (concat (map results_of (take e (mgr_execs m) @ (mgr_execs m ! e) # drop (Suc e) (mgr_execs m))))"
    unfolding outgoing_def by (simp only: id_take_nth_drop [OF e, symmetric])
  then show ?thesis
    unfolding outgoing_def m' upd_conv_take_nth_drop [OF e] by (auto simp: r)
qed

lemma in_map_update: "p \<in> f ` set (xs[k := y]) \<Longrightarrow> p = f y \<or> p \<in> f ` set xs"
  by (auto dest!: in_set_update)

lemma map_group_ids_same:
  "group_ids grp = group_ids (heap ! g) \<Longrightarrow> map group_ids (heap[g := grp]) = map group_ids heap"
  by (metis list_update_id map_update)

lemma places_update:
  assumes "mgr_heap m' = mgr_heap m" and "mgr_execs m' = (mgr_execs m)[e := x]" and "p \<in> set (places m')"
  shows "p = map req_id (exec_reqs x) \<or> p \<in> set (places m)"
  using assms by (auto simp: places_def dest!: in_set_update)

lemma place_exec: "e < length (mgr_execs m) \<Longrightarrow> map req_id (exec_reqs (mgr_execs m ! e)) \<in> set (places m)"
  by (simp add: places_def)

lemma stutter_req:
  assumes sim: "batcher_sim st cfg jobs m s" and nx: "mnext ops st cfg jobs m a = Some m'"
    and pc: "mgr_pc m' = (mgr_pc m)(i := l)" and e: "enqueued l = enqueued (mgr_pc m i)"
    and l: "\<And>res. l \<noteq> RDone res" "\<And>res. mgr_pc m i \<noteq> RDone res"
    and ch: "mgr_chan m' = mgr_chan m" and out: "outgoing m' = outgoing m"
    and places: "\<And>p. p \<in> set (places m') \<Longrightarrow> p = [] \<or> p \<in> set (places m)"
  shows "batcher_sim st cfg jobs m' s"
  by (rule sim_stutter [OF sim nx]) (use e l pc in \<open>auto simp: has_result_def ch out dest: places\<close>)

lemma exec_pcs: "exec_step e m = Some m' \<Longrightarrow> mgr_pc m' = mgr_pc m"
  by (auto simp: exec_step_def Let_def split: epc.splits list.splits event.splits if_splits)

lemma exec_places:
  assumes e: "e < length (mgr_execs m)" and s: "exec_step e m = Some m'" and p: "p \<in> set (places m')"
    and g: "ex_group (mgr_execs m ! e) < length (mgr_heap m)"
  shows "p = [] \<or> p \<in> set (places m)"
proof -
  let ?x = "mgr_execs m ! e"
  show ?thesis
  proof (cases "ex_pc ?x = EOpen")
    case True
    then have m': "m' = goto_exec (set_group m (ex_group ?x) ((mgr_heap m ! ex_group ?x)\<lparr>grp_Requests := None\<rparr>)) e
        (EDelete (group_reqs (mgr_heap m ! ex_group ?x)))"
      using s by (simp add: exec_step_def Let_def)
    have taken: "group_ids (mgr_heap m ! ex_group ?x) \<in> set (places m)"
      using g by (simp add: places_def)
    from p consider "p \<in> group_ids ` set ((mgr_heap m)[ex_group ?x := (mgr_heap m ! ex_group ?x)\<lparr>grp_Requests := None\<rparr>])"
      | "p \<in> (\<lambda>x. map req_id (exec_reqs x)) `
          set ((mgr_execs m)[e := ?x\<lparr>ex_pc := EDelete (group_reqs (mgr_heap m ! ex_group ?x))\<rparr>])"
      by (auto simp: places_def m')
    then show ?thesis
    proof cases
      case 1
      from in_map_update [OF this] show ?thesis by (auto simp: places_def group_ids_def)
    next
      case 2
      from in_map_update [OF this] taken show ?thesis by (auto simp: places_def group_ids_reqs)
    qed
  next
    case False
    then have "mgr_heap m' = mgr_heap m" "mgr_execs m' = (mgr_execs m)[e := mgr_execs m' ! e]"
      "exec_reqs (mgr_execs m' ! e) = [] \<or> exec_reqs (mgr_execs m' ! e) = exec_reqs ?x"
      using s e by (auto simp: exec_step_def Let_def exec_reqs_def split: epc.splits list.splits event.splits if_splits)
    with places_update [of m' m e "mgr_execs m' ! e" p] p place_exec [OF e] show ?thesis by auto
  qed
qed

lemma exec_result:
  assumes e: "e < length (mgr_execs m)" and s: "exec_step e m = Some m'" and c: "ex_pc (mgr_execs m ! e) \<noteq> EClosed"
  shows "has_result m' i res \<longleftrightarrow> has_result m i res"
proof (cases "\<exists>j r evs. ex_pc (mgr_execs m ! e) = ESend (Send j r # evs)")
  case True
  then obtain j r evs where pc: "ex_pc (mgr_execs m ! e) = ESend (Send j r # evs)"
    by blast
  with s have c: "mgr_chan m j = []" and m': "m' = goto_exec (m\<lparr>mgr_chan := (mgr_chan m)(j := [r])\<rparr>) e (ESend evs)"
    by (auto simp: exec_step_def Let_def split: if_splits)
  have "set (outgoing m) = set [(j, r)] \<union> set (outgoing m')"
    by (rule outgoing_insert [OF e, where x = "(mgr_execs m ! e)\<lparr>ex_pc := ESend evs\<rparr>"]) (simp_all add: m' results_of_def pc)
  with c show ?thesis
    by (auto simp: has_result_def m')
next
  case False
  have "outgoing m' = outgoing m"
    by (rule outgoing_same [OF e, where x = "mgr_execs m' ! e"])
       (use s e False c in \<open>auto simp: exec_step_def Let_def results_of_def split: epc.splits list.splits event.splits if_splits\<close>)
  moreover have "mgr_chan m' = mgr_chan m"
    using s False by (auto simp: exec_step_def Let_def split: epc.splits list.splits event.splits if_splits)
  ultimately show ?thesis
    by (simp add: has_result_def)
qed

lemma sim_stutter_step:
  assumes sim: "batcher_sim st cfg jobs m s" and nx: "mnext ops st cfg jobs m a = Some m'" and no: "batcher_act jobs m a = None"
  shows "batcher_sim st cfg jobs m' s"
proof (cases a)
  case (Begin i x)
  with nx no sim have "mgr_pc m i = RNew" "m' = goto_req m i RLookup"
    by (auto simp: Enqueue_begin_def batcher_sim_def minv_def alive_def split: if_splits)
  then show ?thesis
    by (intro stutter_req [OF sim nx, of i RLookup]) (auto simp: outgoing_def places_def)
next
  case (Load i)
  with nx obtain l where "mgr_pc m i = RLookup" "m' = goto_req m i l" "\<not> enqueued l" "\<And>res. l \<noteq> RDone res"
    by (auto simp: Enqueue_load_def split: if_splits option.splits)
  then show ?thesis
    by (intro stutter_req [OF sim nx, of i l]) (auto simp: outgoing_def places_def)
next
  case (Create i)
  with nx sim have pc: "mgr_pc m i = RCreate" and m': "m' = Enqueue_create cfg (jobs i) i m" "\<not> cfg_MaxBatchSize cfg < 0"
    by (auto simp: batcher_sim_def split: if_splits)
  then obtain g where "mgr_pc m' = (mgr_pc m)(i := RLoaded g)"
    by (cases "mget (mgr_groups m) (job_key (jobs i))") (auto simp: Enqueue_create_def Let_def)
  with pc m' show ?thesis
    by (intro stutter_req [OF sim nx, of i "RLoaded g"])
       (auto simp: Enqueue_create_def Let_def outgoing_def places_def group_ids_def split: option.splits)
next
  case (Append i)
  with nx no obtain g where "mgr_pc m i = RLoaded g" "m' = goto_req m i RNew"
    by (auto simp: Enqueue_append_def split: rpc.splits option.splits)
  then show ?thesis
    by (intro stutter_req [OF sim nx, of i RNew]) (auto simp: outgoing_def places_def)
next
  case (StopTimer i)
  with nx obtain g where pc: "mgr_pc m i = RStopping g" and m': "m' = Enqueue_stop i g m"
    by (auto split: rpc.splits)
  then have "mgr_pc m' = (mgr_pc m)(i := RSpawning g)" "mgr_execs m' = mgr_execs m" "mgr_chan m' = mgr_chan m"
    "map group_ids (mgr_heap m') = map group_ids (mgr_heap m)"
    by (auto simp: Enqueue_stop_def Let_def group_ids_reqs intro!: map_group_ids_same)
  with pc show ?thesis
    by (intro stutter_req [OF sim nx, of i "RSpawning g"]) (simp_all add: outgoing_def places_def)
next
  case (Spawn i)
  with nx obtain g where pc: "mgr_pc m i = RSpawning g" and m': "m' = Enqueue_spawn (jobs i) i g m"
    by (auto split: rpc.splits)
  then show ?thesis
    by (intro stutter_req [OF sim nx, of i RWaiting])
       (auto simp: Enqueue_spawn_def outgoing_def places_def results_of_def exec_reqs_def)
next
  case (Receive i)
  with no show ?thesis by simp
next
  case (Fire g)
  with nx have m': "m' = spawn (set_group m g ((mgr_heap m ! g)\<lparr>grp_timer := Expired\<rparr>)) (grp_BatchKey (mgr_heap m ! g)) g"
    by (auto split: if_splits)
  have h: "map group_ids (mgr_heap m') = map group_ids (mgr_heap m)"
    by (simp add: m' map_group_ids_same group_ids_reqs)
  have "places m' = places m @ [[]]"
    unfolding places_def h by (simp add: m' exec_reqs_def)
  then show ?thesis
    by (intro sim_stutter [OF sim nx]) (auto simp: m' outgoing_def results_of_def has_result_def)
next
  case (Exec e)
  then have "e < length (mgr_execs m)" "exec_step e m = Some m'"
    using nx by (auto split: if_splits)
  moreover have "ex_group (mgr_execs m ! e) < length (mgr_heap m)" "ex_pc (mgr_execs m ! e) \<noteq> EClosed"
    using key_okD(4) [of jobs m] sim calculation(1) by (simp_all add: batcher_sim_def minv_def alive_def)
  ultimately show ?thesis
    using exec_result exec_places exec_pcs by (intro sim_stutter [OF sim nx]) simp_all
next
  case (Batch e x)
  with nx no show ?thesis by (auto split: if_splits epc.splits)
qed


lemma subseq_disjoint_filter:
  assumes "subseq p q" and "set p \<inter> A = {}"
  shows "subseq p (filter (\<lambda>i. i \<notin> A) q)"
proof -
  have "filter (\<lambda>i. i \<notin> A) p = p"
    using assms(2) by (auto simp: filter_id_conv)
  with subseq_filter [OF assms(1), of "\<lambda>i. i \<notin> A"] show ?thesis by simp
qed

text \<open>A step that is one of the batcher.\<close>

lemma sim_follow:
  assumes sim: "batcher_sim st cfg jobs m s" and nx: "mnext ops st cfg jobs m a = Some m'"
    and b: "bnext ops st jobs s b = Some s'" and calls: "bt_call s' = call_state m'"
    and places: "\<And>p. p \<in> set (places m') \<Longrightarrow> subseq p (bt_pending s')"
  shows "\<exists>s'. bnext ops st jobs s b = Some s' \<and> batcher_sim st cfg jobs m' s'"
proof -
  have s: "jobs_ok st jobs" "0 \<le> cfg_MaxBatchSize cfg" "minv jobs m" "key_ok jobs m"
    "\<forall>i. joins (mgr_pc m i) \<longrightarrow> job_batchMs (jobs i) \<noteq> 0" "line_ok s" "\<forall>x \<in> set (mgr_execs m). ex_pc x \<noteq> ERun []"
    using sim unfolding batcher_sim_def by blast+
  have "minv jobs m'" "key_ok jobs m'" "line_ok s'"
    using minv_step [OF s(3,1,2) nx] key_step [OF s(4) _ nx] line_step [OF s(6) _ b] s(1) by (auto simp: jobs_ok_def)
  then have "batcher_sim st cfg jobs m' s'"
    unfolding batcher_sim_def using s joins_step [OF s(5) nx] nonempty_step [OF s(7) nx] calls places by simp
  with b show ?thesis by blast
qed

lemma follow_begin:
  assumes sim: "batcher_sim st cfg jobs m s" and nx: "mnext ops st cfg jobs m (Begin i x) = Some m'" and z: "job_batchMs (jobs i) = 0"
  shows "\<exists>s'. bnext ops st jobs s (Immediate i x) = Some s' \<and> batcher_sim st cfg jobs m' s'"
proof -
  let ?res = "snd (executeImmediate ops x (req_Query (job_req (jobs i))) (req_Params (job_req (jobs i))))"
  have pc: "mgr_pc m i = RNew" and c: "\<not> mgr_closed m" and m': "m' = Enqueue_begin ops x (jobs i) i m"
    using nx sim by (auto simp: batcher_sim_def minv_def alive_def split: if_splits)
  have calls: "bt_call s = call_state m"
    using sim by (simp add: batcher_sim_def)
  have idle: "call_state m i = Idle"
    using pc by (simp add: call_state_def)
  have f: "mgr_pc m' = (mgr_pc m)(i := RDone ?res)" "outgoing m' = outgoing m" "mgr_chan m' = mgr_chan m" "places m' = places m"
    using c z by (simp_all add: m' Enqueue_begin_def Let_def outgoing_def places_def)
  then have "call_state m' = (call_state m)(i := Returned ?res)"
    using call_same [of m' _ m] by (simp add: fun_eq_iff)
  with f sim idle z show ?thesis
    by (intro sim_follow [OF sim nx, where s' = "s\<lparr>bt_call := (bt_call s)(i := Returned ?res)\<rparr>"])
       (simp_all add: calls batcher_sim_def)
qed

lemma follow_receive:
  assumes sim: "batcher_sim st cfg jobs m s" and nx: "mnext ops st cfg jobs m (Receive i) = Some m'"
  shows "\<exists>s'. bnext ops st jobs s (Return i) = Some s' \<and> batcher_sim st cfg jobs m' s'"
proof -
  obtain res rest where m: "mgr_pc m i = RWaiting" "mgr_chan m i = res # rest"
    and m': "m' = goto_req (m\<lparr>mgr_chan := (mgr_chan m)(i := rest)\<rparr>) i (RDone res)"
    using nx by (auto split: rpc.splits list.splits)
  have calls: "bt_call s = call_state m"
    using sim by (simp add: batcher_sim_def)
  have ready: "call_state m i = Ready res"
    using m by (simp add: call_state_def)
  have "outgoing m' = outgoing m" "places m' = places m"
    by (simp_all add: m' outgoing_def places_def)
  moreover from this have "call_state m' = (call_state m)(i := Returned res)"
    using call_same [of m' _ m] by (simp add: fun_eq_iff m')
  ultimately show ?thesis
    using sim ready
    by (intro sim_follow [OF sim nx, where s' = "s\<lparr>bt_call := (bt_call s)(i := Returned res)\<rparr>"])
       (simp_all add: calls batcher_sim_def)
qed


lemma follow_append:
  assumes sim: "batcher_sim st cfg jobs m s" and nx: "mnext ops st cfg jobs m (Append i) = Some m'"
    and pc: "mgr_pc m i = RLoaded g" and rs: "grp_Requests (mgr_heap m ! g) = Some rs"
  shows "\<exists>s'. bnext ops st jobs s (Submit i) = Some s' \<and> batcher_sim st cfg jobs m' s'"
proof -
  have s: "minv jobs m" "bt_call s = call_state m" "job_batchMs (jobs i) \<noteq> 0" "req_id (job_req (jobs i)) = i" "key_ok jobs m"
    and places: "\<And>p. p \<in> set (places m) \<Longrightarrow> subseq p (bt_pending s)"
    using sim pc unfolding batcher_sim_def by (auto simp: jobs_ok_def)
  have g: "g < length (mgr_heap m)"
    using key_okD(2) [OF s(5), of g i] pc by simp
  have m': "m' = Enqueue_append cfg (jobs i) i g m"
    using nx pc by simp
  have l: "mgr_pc m' = (mgr_pc m)(i := mgr_pc m' i)" "enqueued (mgr_pc m' i)"
    using rs by (simp_all add: m' Enqueue_append_def Let_def)
  have pcs: "mgr_pc m' j = mgr_pc m j" if "j \<noteq> i" for j
    using fun_cong [OF l(1), of j] that by simp
  have f: "outgoing m' = outgoing m" "mgr_chan m' = mgr_chan m" "mgr_execs m' = mgr_execs m"
    using rs by (simp_all add: m' Enqueue_append_def Let_def outgoing_def)
  have idle: "call_state m i = Idle"
    using pc by (simp add: call_state_def)
  have no: "\<not> has_result m i res" for res
    using has_result_enqueued [OF s(1), of i res] pc by auto
  have held: "call_state m' = (call_state m)(i := Held)"
    using call_same [of m' _ m] call_no_result [of m' i] f l(2) pcs no by (simp add: fun_eq_iff has_result_def)
  have line: "subseq p (bt_pending s @ [i])" if p: "p \<in> set (places m')" for p
  proof -
    have "group_ids (mgr_heap m ! g) \<in> set (places m)"
      using g by (simp add: places_def)
    from places [OF this] have new: "subseq (map req_id rs @ [i]) (bt_pending s @ [i])"
      using rs by (simp add: group_ids_def)
    have h: "mgr_heap m' = (mgr_heap m)[g := mgr_heap m' ! g]" "group_ids (mgr_heap m' ! g) = map req_id rs @ [i]"
      using rs s(4) g by (simp_all add: m' Enqueue_append_def Let_def group_ids_def)
    from p have "p \<in> group_ids ` set (mgr_heap m') \<or> p \<in> set (places m)"
      by (auto simp: places_def f(3))
    with in_map_update [of p group_ids "mgr_heap m" g "mgr_heap m' ! g", folded h(1)] h(2)
    have "p \<in> set (places m) \<or> p = map req_id rs @ [i]"
      by (auto simp: places_def)
    with new places show ?thesis
      by (auto intro: subseq_order.trans)
  qed
  show ?thesis
    by (rule sim_follow [OF sim nx, where s' = "s\<lparr>bt_call := (bt_call s)(i := Held), bt_pending := bt_pending s @ [i]\<rparr>"])
       (simp_all add: s held idle line)
qed


text \<open>The requests of a batch that is about to run are in no other place, and none of them has a result.\<close>

lemma sum_list_ge_two:
  fixes f :: "'a \<Rightarrow> nat"
  assumes "k < length xs" and "l < length xs" and "k \<noteq> l"
  shows "f (xs ! k) + f (xs ! l) \<le> sum_list (map f xs)"
proof -
  have "f (xs ! k) + f (xs ! l) = (\<Sum>j \<in> {k, l}. f (xs ! j))"
    using assms(3) by simp
  also have "\<dots> \<le> (\<Sum>j < length xs. f (xs ! j))"
    using assms by (intro sum_mono2) auto
  finally show ?thesis
    by (simp add: sum_list_sum_nth lessThan_atLeast0)
qed

lemma batch_alone:
  assumes inv: "minv jobs m" and e: "e < length (mgr_execs m)" and i: "i \<in> set (exec_ids (mgr_execs m ! e))"
  shows "grp \<in> set (mgr_heap m) \<Longrightarrow> i \<notin> set (group_ids grp)"
    and "k < length (mgr_execs m) \<Longrightarrow> k \<noteq> e \<Longrightarrow> i \<notin> set (exec_ids (mgr_execs m ! k))"
proof -
  let ?h = "sum_list (map (\<lambda>grp. count_list (group_ids grp) i) (mgr_heap m))"
  let ?f = "\<lambda>x. count_list (exec_ids x) i"
  have pos: "0 < ?f (mgr_execs m ! e)"
    by (rule count_list_pos [OF i])
  have le: "?h + sum_list (map ?f (mgr_execs m)) \<le> 1"
    using tokens_le1 [OF inv, of i] by (simp add: tokens_def)
  have "?f (mgr_execs m ! e) \<le> sum_list (map ?f (mgr_execs m))"
    using e by (intro member_le_sum_list) simp_all
  with le pos have "?h = 0"
    by linarith
  then show "i \<notin> set (group_ids grp)" if "grp \<in> set (mgr_heap m)"
    using that by (auto simp: count_list_0_iff)
  show "i \<notin> set (exec_ids (mgr_execs m ! k))" if "k < length (mgr_execs m)" "k \<noteq> e"
    using sum_list_ge_two [OF that(1) e that(2), of ?f] le pos count_list_pos [of i "exec_ids (mgr_execs m ! k)"] by linarith
qed


lemma batch_places:
  assumes inv: "minv jobs m" and e: "e < length (mgr_execs m)" and pc: "ex_pc (mgr_execs m ! e) = ERun rs"
    and p: "p \<in> set (places (goto_exec m e (ESend evs)))"
  shows "p = [] \<or> p \<in> set (places m) \<and> set p \<inter> req_id ` set rs = {}"
proof -
  let ?m = "goto_exec m e (ESend evs)"
  have ids: "exec_ids (mgr_execs m ! e) = map req_id rs"
    by (simp add: exec_ids_def pc)
  note alone = batch_alone [OF inv e, unfolded ids]
  from p consider grp where "grp \<in> set (mgr_heap m)" "p = group_ids grp"
    | k where "k < length (mgr_execs m)" "p = map req_id (exec_reqs (mgr_execs ?m ! k))"
    unfolding places_def by (auto simp: in_set_conv_nth)
  then show ?thesis
  proof cases
    case 1
    with alone(1) [of _ grp] show ?thesis by (auto simp: places_def)
  next
    case (2 k)
    show ?thesis
    proof (cases "k = e")
      case True
      with 2 show ?thesis by (simp add: exec_reqs_def)
    next
      case False
      with 2 have "p = map req_id (exec_reqs (mgr_execs m ! k))"
        by simp
      moreover from this have "set p \<subseteq> set (exec_ids (mgr_execs m ! k))"
        by (auto simp: exec_reqs_def exec_ids_def split: epc.splits)
      ultimately show ?thesis
        using alone(2) [of _ k] 2(1) False place_exec [OF 2(1)] by auto
    qed
  qed
qed

lemma batch_calls:
  assumes inv: "minv jobs m" "minv jobs (goto_exec m e (ESend evs))" and e: "e < length (mgr_execs m)"
    and pc: "ex_pc (mgr_execs m ! e) = ERun rs"
  shows "call_state (goto_exec m e (ESend evs)) = take_results (sent evs) (call_state m)"
proof
  fix i
  let ?m = "goto_exec m e (ESend evs)"
  have out: "set (outgoing ?m) = set (sent evs) \<union> set (outgoing m)"
    by (rule outgoing_insert [where e = e and x = "mgr_execs m ! e"]) (use e pc in \<open>simp_all add: results_of_def\<close>)
  show "call_state ?m i = take_results (sent evs) (call_state m) i"
  proof (cases "map_of (sent evs) i")
    case (Some res)
    then have "has_result ?m i res"
      using out by (auto simp: has_result_def dest: map_of_SomeD)
    with Some call_has_result [OF inv(2)] show ?thesis
      by (simp add: take_results_def)
  next
    case None
    then have "has_result ?m i res \<longleftrightarrow> has_result m i res" for res
      using out by (auto simp: has_result_def map_of_eq_None_iff) force
    with None show ?thesis
      by (simp add: take_results_def call_cong [OF inv])
  qed
qed

lemma follow_batch:
  assumes sim: "batcher_sim st cfg jobs m s" and nx: "mnext ops st cfg jobs m (Batch e x) = Some m'"
    and pc: "ex_pc (mgr_execs m ! e) = ERun rs"
  shows "\<exists>s'. bnext ops st jobs s (RunBatch (map req_id rs) x) = Some s' \<and> batcher_sim st cfg jobs m' s'"
proof -
  have s: "jobs_ok st jobs" "0 \<le> cfg_MaxBatchSize cfg" "minv jobs m" "key_ok jobs m"
    "\<forall>x \<in> set (mgr_execs m). ex_pc x \<noteq> ERun []" "bt_call s = call_state m"
    and places: "\<And>p. p \<in> set (places m) \<Longrightarrow> subseq p (bt_pending s)"
    using sim unfolding batcher_sim_def by blast+
  have e: "e < length (mgr_execs m)"
    using nx by (auto split: if_splits)
  have inv: "minv jobs m'"
    by (rule minv_step [OF s(3,1,2) nx])
  have rs: "exec_reqs (mgr_execs m ! e) = rs" "rs \<noteq> []"
    using pc s(5) nth_mem [OF e] by (auto simp: exec_reqs_def)
  have "r = job_req (jobs (req_id r))" "job_key (jobs (req_id r)) = grp_BatchKey (mgr_heap m ! ex_group (mgr_execs m ! e))"
    if "r \<in> set rs" for r
    using minvD(4) [OF s(3)] key_okD(5) [OF s(4) nth_mem [OF e]] that rs(1) nth_mem [OF e] by (auto simp: reqs_ok_def)
  then have reqs: "map (\<lambda>i. job_req (jobs i)) (map req_id rs) = rs" and key: "same_key jobs (map req_id rs)"
    using rs(2) by (auto simp: same_key_def hd_map intro: map_idI)
  obtain x' evs where run: "run_batch ops st x rs = Inr (x', evs)" and m': "m' = goto_exec m e (ESend evs)"
  proof (cases "run_batch ops st x rs")
    case (Inl err)
    with nx e pc have "m' = goto_exec m e EPanicked"
      by simp
    with set_update_memI [OF e, of "(mgr_execs m ! e)\<lparr>ex_pc := EPanicked\<rparr>"] minvD(5) [OF inv] show ?thesis
      by (force simp: alive_def)
  qed (use nx e pc that in auto)
  let ?s = "s\<lparr>bt_call := take_results (sent evs) (bt_call s),
      bt_pending := filter (\<lambda>i. i \<notin> set (map req_id rs)) (bt_pending s)\<rparr>"
  have "subseq (map req_id rs) (bt_pending s)"
    using places [OF place_exec [OF e]] rs(1) by simp
  with run reqs key rs(2) have b: "bnext ops st jobs s (RunBatch (map req_id rs) x) = Some ?s"
    by simp
  show ?thesis
  proof (rule sim_follow [OF sim nx b])
    show "bt_call ?s = call_state m'"
      using batch_calls [OF s(3) inv [unfolded m'] e pc] s(6) m' by simp
    show "subseq p (bt_pending ?s)" if "p \<in> set (places m')" for p
      using batch_places [OF s(3) e pc that [unfolded m']] places subseq_disjoint_filter by auto
  qed
qed


interpretation manager: forward_simulation "mnext ops st cfg jobs" "bnext ops st jobs" "batcher_act jobs" "batcher_sim st cfg jobs"
  for ops :: "'d sqldb" and st cfg jobs
proof unfold_locales
  fix m m' :: Manager and s :: batcher and a :: "'d mact"
  assume sim: "batcher_sim st cfg jobs m s" and nx: "mnext ops st cfg jobs m a = Some m'"
  show "batcher_sim st cfg jobs m' s" if "batcher_act jobs m a = None"
    by (rule sim_stutter_step [OF sim nx that])
  fix b :: "'d bact" assume b: "batcher_act jobs m a = Some b"
  show "\<exists>s'. bnext ops st jobs s b = Some s' \<and> batcher_sim st cfg jobs m' s'"
  proof (cases a)
    case (Begin i x)
    with b have "job_batchMs (jobs i) = 0" "b = Immediate i x"
      by (auto split: if_splits)
    with Begin nx follow_begin [OF sim] show ?thesis by blast
  next
    case (Append i)
    then obtain g rs where "mgr_pc m i = RLoaded g" "grp_Requests (mgr_heap m ! g) = Some rs" "b = Submit i"
      using b by (auto split: rpc.splits option.splits)
    with Append nx follow_append [OF sim] show ?thesis by blast
  next
    case (Batch e x)
    then obtain rs where "ex_pc (mgr_execs m ! e) = ERun rs" "b = RunBatch (map req_id rs) x"
      using b by (auto split: epc.splits)
    with Batch nx follow_batch [OF sim] show ?thesis by blast
  next
    case (Receive i)
    with b have "b = Return i" by simp
    with Receive nx follow_receive [OF sim] show ?thesis by blast
  qed (use b in auto)
qed

lemma mrun_steps: "mrun ops st cfg jobs m as = run_steps (mnext ops st cfg jobs) m as"
  by (induction as arbitrary: m) (auto split: option.splits)

lemma sim_start:
  assumes "jobs_ok st jobs" and "0 \<le> cfg_MaxBatchSize cfg" shows "batcher_sim st cfg jobs New_manager New_batcher"
  unfolding batcher_sim_def using assms minv_start
  by (simp add: fun_eq_iff call_state_def line_ok_def New_batcher_def key_ok_def New_manager_def places_def)

section \<open>Properties\<close>

text \<open>C3: The write batch manager refines the abstract batcher. For every run of the manager, with any interleaving of callers,
  timers and executors, the steps that matter (a call is executed at once or submitted, a batch is executed, a call returns)
  are in this order a run of the abstract batcher, in which a batch consists of held calls with one key in the order of their
  submission; at the end each call is idle, held, answered or returned in the manager exactly as it is there, and the held
  calls are those that wait in line.\<close>

theorem manager_refines_batcher:
  assumes "mrun ops st cfg jobs New_manager as = Some m" and "jobs_ok st jobs" and "0 \<le> cfg_MaxBatchSize cfg"
  shows "\<exists>s. run_steps (bnext ops st jobs) New_batcher (visible (mnext ops st cfg jobs) (batcher_act jobs) New_manager as) = Some s \<and>
    bt_call s = call_state m \<and> distinct (bt_pending s) \<and> set (bt_pending s) = {i. call_state m i = Held}"
  using manager.run_simulated [OF sim_start [OF assms(2,3)] assms(1) [unfolded mrun_steps]]
  by (auto simp: batcher_sim_def line_ok_def)

text \<open>Two calls with one key that are executed as one batch; the second returns.\<close>

definition two_calls :: "logdb mact list" where
  "two_calls = [Begin 1 log_start, Load 1, Create 1, Append 1, Begin 0 log_start, Load 0, Append 0, Fire 0,
     Exec 0, Exec 0, Exec 0, Batch 0 log_start, Exec 0, Exec 0, Receive 0]"


theorem manager_refines_batcher_witness:
  "\<exists>m s. mrun log_db plain DefaultConfig demo_jobs New_manager two_calls = Some m \<and>
     run_steps (bnext log_db plain demo_jobs) New_batcher [Submit 1, Submit 0, RunBatch [1, 0] log_start, Return 0] = Some s \<and>
     bt_call s = call_state m \<and> map (call_state m) [0, 1, 2] = [Returned (ok_result 1 0 2), Ready (ok_result 1 0 2), Idle] \<and>
     distinct (bt_pending s)"
proof -
  have c: "(0 :: int) \<le> cfg_MaxBatchSize DefaultConfig"
    by (simp add: DefaultConfig_def)
  have seen: "visible (mnext log_db plain DefaultConfig demo_jobs) (batcher_act demo_jobs) New_manager two_calls =
      [Submit 1, Submit 0, RunBatch [1, 0] log_start, Return 0]"
    by code_simp
  have "map_option (\<lambda>m. map (call_state m) [0, 1, 2]) (mrun log_db plain DefaultConfig demo_jobs New_manager two_calls) =
      Some [Returned (ok_result 1 0 2), Ready (ok_result 1 0 2), Idle]"
    by code_simp
  then obtain m where m: "mrun log_db plain DefaultConfig demo_jobs New_manager two_calls = Some m \<and>
      map (call_state m) [0, 1, 2] = [Returned (ok_result 1 0 2), Ready (ok_result 1 0 2), Idle]"
    unfolding map_option_eq_Some ..
  from manager_refines_batcher [OF conjunct1 [OF m] demo_jobs_ok c] obtain s where
    "run_steps (bnext log_db plain demo_jobs) New_batcher [Submit 1, Submit 0, RunBatch [1, 0] log_start, Return 0] = Some s"
    "bt_call s = call_state m" "distinct (bt_pending s)"
    unfolding seen by blast
  with m show ?thesis
    by (intro exI [of _ m] exI [of _ s] conjI) (simp_all only:)
qed

end
