(* ===== verification/Go_Monad.thy ===== *)
theory Go_Monad
  imports Prelude
begin

text \<open>
  Stateful Go code with errors and panics: a function of the code is a function from the state to an outcome
  and the new state. An outcome is a result, an error value that the caller may test, or a panic, which
  ends the program. The relation \<open>steps R m\<close> says that \<open>m\<close> changes every state in a way that \<open>R\<close> allows; the
  locale \<open>step_relation\<close> has the rules that follow the structure of a function, for the relations that are
  reflexive and transitive (the invariants and the frame conditions of the proxies).
\<close>

datatype goerr = EOF | ErrMsg string

datatype 'a outcome = Ok 'a | Err goerr | Panic panic

type_synonym ('s, 'a) go = "'s \<Rightarrow> 'a outcome \<times> 's"

fun error_text :: "goerr \<Rightarrow> string" where
  "error_text EOF = ''EOF''"
| "error_text (ErrMsg m) = m"

section \<open>Building blocks\<close>

definition ret :: "'a \<Rightarrow> ('s, 'a) go" where
  "ret x = (\<lambda>s. (Ok x, s))"

definition raise :: "goerr \<Rightarrow> ('s, 'a) go" where
  "raise e = (\<lambda>s. (Err e, s))"

definition crash :: "panic \<Rightarrow> ('s, 'a) go" where
  "crash p = (\<lambda>s. (Panic p, s))"

definition andthen :: "('s, 'a) go \<Rightarrow> ('a \<Rightarrow> ('s, 'b) go) \<Rightarrow> ('s, 'b) go" where
  "andthen m f = (\<lambda>s. case m s of
     (Ok x, s') \<Rightarrow> f x s'
   | (Err e, s') \<Rightarrow> (Err e, s')
   | (Panic p, s') \<Rightarrow> (Panic p, s'))"

abbreviation next_do :: "('s, 'a) go \<Rightarrow> ('s, 'b) go \<Rightarrow> ('s, 'b) go" where
  "next_do m n \<equiv> andthen m (\<lambda>_. n)"

text \<open>\<^verbatim>\<open>if err != nil\<close> with code of its own: the error becomes a value.\<close>

definition attempt :: "('s, 'a) go \<Rightarrow> ('s, goerr + 'a) go" where
  "attempt m = (\<lambda>s. case m s of
     (Ok x, s') \<Rightarrow> (Ok (Inr x), s')
   | (Err e, s') \<Rightarrow> (Ok (Inl e), s')
   | (Panic p, s') \<Rightarrow> (Panic p, s'))"

definition on_error :: "('s, 'a) go \<Rightarrow> ('s, unit) go \<Rightarrow> ('s, 'a) go" where
  "on_error m h = andthen (attempt m) (\<lambda>r. case r of Inl e \<Rightarrow> next_do h (raise e) | Inr x \<Rightarrow> ret x)"

text \<open>A call whose error is not looked at, and a deferred call, which runs at the end, also after a panic.\<close>

definition ignore :: "('s, 'a) go \<Rightarrow> ('s, unit) go" where
  "ignore m = next_do (attempt m) (ret ())"

definition deferring :: "('s, 'a) go \<Rightarrow> ('s \<Rightarrow> 's) \<Rightarrow> ('s, 'a) go" where
  "deferring m f = (\<lambda>s. case m s of (r, s') \<Rightarrow> (r, f s'))"

definition gets :: "('s \<Rightarrow> 'a) \<Rightarrow> ('s, 'a) go" where
  "gets f = (\<lambda>s. (Ok (f s), s))"

definition modify :: "('s \<Rightarrow> 's) \<Rightarrow> ('s, unit) go" where
  "modify f = (\<lambda>s. (Ok (), f s))"

text \<open>A function of another component that may panic, on a part of the state.\<close>

definition or_panic :: "panic + 'a \<Rightarrow> ('s, 'a) go" where
  "or_panic r = (case r of Inl p \<Rightarrow> crash p | Inr x \<Rightarrow> ret x)"

section \<open>Running\<close>

lemma go_run [simp]:
  "ret x s = (Ok x, s)"
  "raise e s = (Err e, s)"
  "crash p s = (Panic p, s)"
  "gets f s = (Ok (f s), s)"
  "modify g s = (Ok (), g s)"
  by (simp_all add: ret_def raise_def crash_def gets_def modify_def)

lemma andthen_run [simp]:
  "m s = (Ok x, s') \<Longrightarrow> andthen m f s = f x s'"
  "m s = (Err e, s') \<Longrightarrow> andthen m f s = (Err e, s')"
  "m s = (Panic p, s') \<Longrightarrow> andthen m f s = (Panic p, s')"
  by (simp_all add: andthen_def)

lemma attempt_run [simp]:
  "m s = (Ok x, s') \<Longrightarrow> attempt m s = (Ok (Inr x), s')"
  "m s = (Err e, s') \<Longrightarrow> attempt m s = (Ok (Inl e), s')"
  "m s = (Panic p, s') \<Longrightarrow> attempt m s = (Panic p, s')"
  by (simp_all add: attempt_def)

lemma or_panic_run [simp]:
  "or_panic (Inl p) = crash p"
  "or_panic (Inr x) = ret x"
  by (simp_all add: or_panic_def)

lemma ignore_run [simp]:
  "m s = (Ok x, s') \<Longrightarrow> ignore m s = (Ok (), s')"
  "m s = (Err e, s') \<Longrightarrow> ignore m s = (Ok (), s')"
  "m s = (Panic p, s') \<Longrightarrow> ignore m s = (Panic p, s')"
  by (simp_all add: ignore_def)

lemma andthen_assoc: "andthen (andthen m f) g = andthen m (\<lambda>x. andthen (f x) g)"
  by (rule ext) (simp add: andthen_def split: prod.splits outcome.splits)

lemma ret_andthen [simp]: "andthen (ret x) f = f x"
  by (rule ext) simp

lemma failed_andthen [simp]: "andthen (raise e) f = raise e" "andthen (crash p) f = crash p"
  by (rule ext, simp)+

text \<open>For loops: the rest of a loop runs only on states that the body ends in.\<close>

lemma andthen_cong [fundef_cong]:
  assumes "m = m'" and "s = s'" and "\<And>x t. m' s' = (Ok x, t) \<Longrightarrow> f x t = f' x t"
  shows "andthen m f s = andthen m' f' s'"
  using assms by (auto simp: andthen_def split: prod.splits outcome.splits)

lemma andthen_cases [consumes 1, case_names Ok Err Panic]:
  assumes "andthen m f s = (r, t)"
  obtains x s' where "m s = (Ok x, s')" "f x s' = (r, t)"
  | e where "m s = (Err e, t)" "r = Err e"
  | p where "m s = (Panic p, t)" "r = Panic p"
  using assms by (auto simp: andthen_def split: prod.splits outcome.splits)

lemma on_error_cases [consumes 1, case_names Ok Err Panic]:
  assumes "on_error m h s = (r, t)"
  obtains x where "m s = (Ok x, t)" "r = Ok x"
  | e s' where "m s = (Err e, s')" "next_do h (raise e) s' = (r, t)"
  | p where "m s = (Panic p, t)" "r = Panic p"
  using assms
  by (auto simp: on_error_def andthen_def attempt_def split: prod.splits outcome.splits)

lemma attempt_no_error: "attempt m s \<noteq> (Err e, t)"
  by (auto simp: attempt_def split: prod.splits outcome.splits)

section \<open>Steps that a relation allows\<close>

definition steps :: "('s \<Rightarrow> 's \<Rightarrow> bool) \<Rightarrow> ('s, 'a) go \<Rightarrow> bool" where
  "steps R m \<longleftrightarrow> (\<forall>s. R s (snd (m s)))"

lemma stepsI: "(\<And>s. R s (snd (m s))) \<Longrightarrow> steps R m"
  by (simp add: steps_def)

lemma stepsD: "steps R m \<Longrightarrow> m s = (r, t) \<Longrightarrow> R s t"
  unfolding steps_def by (metis snd_conv)

lemma steps_mono: "steps R m \<Longrightarrow> (\<And>s t. R s t \<Longrightarrow> R' s t) \<Longrightarrow> steps R' m"
  by (simp add: steps_def)

locale step_relation =
  fixes R :: "'s \<Rightarrow> 's \<Rightarrow> bool"
  assumes R_refl: "R s s"
    and R_trans: "R s t \<Longrightarrow> R t u \<Longrightarrow> R s u"
begin

lemma steps_still: "steps R (ret x)" "steps R (raise e)" "steps R (crash p)" "steps R (gets f)"
  by (simp_all add: steps_def R_refl)

lemma steps_modify: "(\<And>s. R s (f s)) \<Longrightarrow> steps R (modify f)"
  by (simp add: steps_def)

lemma steps_andthen:
  assumes "steps R m" and "\<And>x. steps R (f x)"
  shows "steps R (andthen m f)"
proof (rule stepsI)
  fix s
  obtain r t where "andthen m f s = (r, t)" by (cases "andthen m f s")
  then show "R s (snd (andthen m f s))"
    using assms by (cases rule: andthen_cases) (auto dest: stepsD intro: R_trans)
qed

lemma steps_attempt: "steps R m \<Longrightarrow> steps R (attempt m)"
  unfolding steps_def attempt_def by (auto split: prod.splits outcome.splits) (metis snd_conv)+

lemma steps_or_panic: "steps R (or_panic r)"
  by (cases r) (simp_all add: steps_still)

lemma steps_if: "(b \<Longrightarrow> steps R m) \<Longrightarrow> (\<not> b \<Longrightarrow> steps R n) \<Longrightarrow> steps R (if b then m else n)"
  by simp

lemma steps_option: "(x = None \<Longrightarrow> steps R m) \<Longrightarrow> (\<And>y. x = Some y \<Longrightarrow> steps R (f y)) \<Longrightarrow> steps R (case x of None \<Rightarrow> m | Some y \<Rightarrow> f y)"
  by (cases x) simp_all

lemma steps_sum: "(\<And>y. steps R (f y)) \<Longrightarrow> (\<And>z. steps R (g z)) \<Longrightarrow> steps R (case x of Inl y \<Rightarrow> f y | Inr z \<Rightarrow> g z)"
  by (cases x) simp_all

lemma steps_prod: "(\<And>y z. steps R (f y z)) \<Longrightarrow> steps R (case x of (y, z) \<Rightarrow> f y z)"
  by (cases x) simp

lemma steps_let: "(\<And>y. steps R (f y)) \<Longrightarrow> steps R (let y = x in f y)"
  by simp

lemma steps_on_error: "steps R m \<Longrightarrow> steps R h \<Longrightarrow> steps R (on_error m h)"
  unfolding on_error_def by (intro steps_andthen steps_attempt steps_sum steps_still)

lemma steps_ignore: "steps R m \<Longrightarrow> steps R (ignore m)"
  unfolding ignore_def by (intro steps_andthen steps_attempt steps_still)

lemma steps_deferring: "steps R m \<Longrightarrow> (\<And>s. R s (f s)) \<Longrightarrow> steps R (deferring m f)"
  unfolding steps_def deferring_def by (auto split: prod.splits) (metis R_trans snd_conv)

lemmas rules = steps_ignore steps_still steps_andthen steps_attempt steps_or_panic steps_if steps_option steps_sum steps_prod steps_let steps_on_error

end

end
