(* ===== verification/Replica.thy ===== *)
theory Replica
  imports Prelude
begin

text \<open>
  The replica pool, \<^verbatim>\<open>replica/pool.go\<close>: a primary, its read replicas, their health and the round-robin
  index. Every method holds the pool's mutex from its start to its end, so a method is one step on
  the pool. The lemmas show that an index is never out of range, which replica a read gets, and
  what a configuration reload and a round of health checks leave behind. The locale \<open>read_router\<close>
  states what the proxies rely on when they pick a backend for a read.
\<close>

section \<open>State and operations\<close>

record Pool =
  pool_primary :: string
  pool_replicas :: "string list"
  pool_healthy :: "(string, bool) gomap"
  pool_current :: nat

text \<open>Reading a Go map at a missing key gives \<^verbatim>\<open>false\<close>.\<close>

definition IsHealthy :: "Pool \<Rightarrow> string \<Rightarrow> bool" where
  "IsHealthy p addr = (mget (pool_healthy p) addr = Some True)"

definition NewPool :: "string \<Rightarrow> string list \<Rightarrow> Pool" where
  "NewPool primary replicas =
     \<lparr>pool_primary = primary, pool_replicas = replicas,
      pool_healthy = foldl (\<lambda>m r. mset_key m r True) [] replicas,
      pool_current = 0\<rparr>"

text \<open>The loop of \<open>UpdateReplicas\<close> that builds the new health map.\<close>

definition keep_health :: "(string, bool) gomap \<Rightarrow> string list \<Rightarrow> (string, bool) gomap" where
  "keep_health old replicas =
     foldl (\<lambda>m r. mset_key m r (case mget old r of Some status \<Rightarrow> status | None \<Rightarrow> True)) [] replicas"

definition UpdateReplicas :: "Pool \<Rightarrow> string \<Rightarrow> string list \<Rightarrow> Pool" where
  "UpdateReplicas p primary replicas =
     p\<lparr>pool_primary := primary,
       pool_replicas := replicas,
       pool_healthy := keep_health (pool_healthy p) replicas,
       pool_current := (if length replicas > 0 then pool_current p mod length replicas else 0)\<rparr>"

definition GetPrimary :: "Pool \<Rightarrow> string" where
  "GetPrimary p = pool_primary p"

text \<open>
  The loop of \<open>GetReplica\<close>, with the attempts that are left: the first healthy replica from the
  current index on, with its index. Indexing past the end of the slice would panic.
\<close>

fun next_healthy :: "nat \<Rightarrow> Pool \<Rightarrow> panic + Pool \<times> (string \<times> nat) option" where
  "next_healthy 0 p = Inr (p, None)"
| "next_healthy (Suc attempts) p =
     (if pool_current p < length (pool_replicas p) then
        let idx = pool_current p;
            replica = pool_replicas p ! idx;
            p' = p\<lparr>pool_current := (idx + 1) mod length (pool_replicas p)\<rparr>
        in if IsHealthy p' replica then Inr (p', Some (replica, idx)) else next_healthy attempts p'
      else Inl IndexOutOfRange)"

definition replica_name :: "nat \<Rightarrow> string" where
  "replica_name idx = ''replicas['' @ nat_dec idx @ '']''"

definition GetReplica :: "Pool \<Rightarrow> panic + Pool \<times> string \<times> string" where
  "GetReplica p =
     (if length (pool_replicas p) = 0 then Inr (p, pool_primary p, ''primary'')
      else case next_healthy (length (pool_replicas p)) p of
             Inl e \<Rightarrow> Inl e
           | Inr (p', Some (replica, idx)) \<Rightarrow> Inr (p', replica, replica_name idx)
           | Inr (p', None) \<Rightarrow> Inr (p', pool_primary p', ''primary''))"

definition set_health :: "Pool \<Rightarrow> string \<Rightarrow> bool \<Rightarrow> Pool" where
  "set_health p addr h =
     (case mget (pool_healthy p) addr of
        None \<Rightarrow> p
      | Some _ \<Rightarrow> p\<lparr>pool_healthy := mset_key (pool_healthy p) addr h\<rparr>)"

definition MarkUnhealthy :: "Pool \<Rightarrow> string \<Rightarrow> Pool" where
  "MarkUnhealthy p addr = set_health p addr False"

definition MarkHealthy :: "Pool \<Rightarrow> string \<Rightarrow> Pool" where
  "MarkHealthy p addr = set_health p addr True"

definition GetHealthyCount :: "Pool \<Rightarrow> nat" where
  "GetHealthyCount p = foldl (\<lambda>count e. if snd e then count + 1 else count) 0 (pool_healthy p)"

text \<open>The network and the address to dial, for addresses of the form \<^verbatim>\<open>unix:path\<close> and others.\<close>

definition dial_target :: "string \<Rightarrow> string \<times> string" where
  "dial_target addr =
     (if length addr > 5 \<and> take 5 addr = ''unix:'' then (''unix'', drop 5 addr) else (''tcp'', addr))"

text \<open>\<open>dial network addr\<close> tells whether \<^verbatim>\<open>net.DialTimeout\<close> succeeds.\<close>

definition checkReplica :: "(string \<Rightarrow> string \<Rightarrow> bool) \<Rightarrow> Pool \<Rightarrow> string \<Rightarrow> Pool" where
  "checkReplica dial p addr =
     (let (network, dialAddr) = dial_target addr
      in if \<not> dial network dialAddr then MarkUnhealthy p addr else MarkHealthy p addr)"

text \<open>
  \<open>checkAllReplicas\<close> starts one goroutine per replica; \<open>order\<close> is the order in which they take the
  mutex.
\<close>

definition run_checks :: "(string \<Rightarrow> string \<Rightarrow> bool) \<Rightarrow> Pool \<Rightarrow> string list \<Rightarrow> Pool" where
  "run_checks dial p order = foldl (checkReplica dial) p order"

text \<open>
  The loop of \<open>StartHealthChecks\<close>: a round at once and one for every tick until the context is done. A round is given by
  what could be dialled in it and by its order; the timeout of a dial is shorter than the time between two ticks, so that
  rounds do not overlap.
\<close>

definition StartHealthChecks :: "Pool \<Rightarrow> ((string \<Rightarrow> string \<Rightarrow> bool) \<times> string list) list \<Rightarrow> Pool" where
  "StartHealthChecks p rounds = foldl (\<lambda>p (dial, order). run_checks dial p order) p rounds"

section \<open>The invariant\<close>

definition pool_ok :: "Pool \<Rightarrow> bool" where
  "pool_ok p \<longleftrightarrow>
     (if pool_replicas p = [] then pool_current p = 0 else pool_current p < length (pool_replicas p)) \<and>
     map_ok (pool_healthy p) \<and> dom (mget (pool_healthy p)) = set (pool_replicas p)"

lemma foldl_mset_key:
  "mget (foldl (\<lambda>m r. mset_key m r (f r)) m rs) r = (if r \<in> set rs then Some (f r) else mget m r)"
  by (induction rs arbitrary: m) auto

lemma map_ok_foldl: "map_ok m \<Longrightarrow> map_ok (foldl (\<lambda>m r. mset_key m r (f r)) m rs)"
  by (induction rs arbitrary: m) auto

lemma keep_health_get:
  "mget (keep_health old rs) r =
     (if r \<in> set rs then Some (case mget old r of Some status \<Rightarrow> status | None \<Rightarrow> True) else None)"
  by (simp add: keep_health_def foldl_mset_key)

lemma NewPool_ok: "pool_ok (NewPool primary replicas)"
  using foldl_mset_key [of "\<lambda>_. True" "[]" replicas] map_ok_foldl [of "[]" "\<lambda>_. True" replicas]
  by (auto simp: pool_ok_def NewPool_def dom_def split: if_splits)

lemma UpdateReplicas_ok: "pool_ok (UpdateReplicas p primary replicas)"
proof -
  have "map_ok (keep_health (pool_healthy p) replicas)"
    unfolding keep_health_def by (rule map_ok_foldl) simp
  moreover have "dom (mget (keep_health (pool_healthy p) replicas)) = set replicas"
    by (auto simp: keep_health_get split: if_splits)
  ultimately show ?thesis
    by (simp add: pool_ok_def UpdateReplicas_def)
qed

lemma set_health_ok [simp]: "pool_ok p \<Longrightarrow> pool_ok (set_health p addr h)"
  by (cases "mget (pool_healthy p) addr")
     (auto simp: pool_ok_def set_health_def insert_absorb domI)

lemma set_health_sel [simp]:
  "pool_primary (set_health p addr h) = pool_primary p"
  "pool_replicas (set_health p addr h) = pool_replicas p"
  "pool_current (set_health p addr h) = pool_current p"
  by (simp_all add: set_health_def split: option.splits)

lemma IsHealthy_set_health:
  "IsHealthy (set_health p addr h) r =
     (if r = addr \<and> mget (pool_healthy p) addr \<noteq> None then h else IsHealthy p r)"
  by (auto simp: IsHealthy_def set_health_def split: option.splits)

lemma checkReplica_set_health:
  "checkReplica dial p addr = set_health p addr (dial (fst (dial_target addr)) (snd (dial_target addr)))"
  by (simp add: checkReplica_def MarkHealthy_def MarkUnhealthy_def split: prod.splits)

section \<open>Choosing a replica\<close>

text \<open>The candidates in the order \<open>GetReplica\<close> tries them: their indices from the current one on.\<close>

definition candidates :: "Pool \<Rightarrow> nat \<Rightarrow> nat list" where
  "candidates p n = map (\<lambda>i. (pool_current p + i) mod length (pool_replicas p)) [0..<n]"

lemma candidates_Suc:
  "candidates p (Suc n) = pool_current p mod length (pool_replicas p) #
     candidates (p\<lparr>pool_current := (pool_current p + 1) mod length (pool_replicas p)\<rparr>) n"
proof -
  have "[0..<Suc n] = 0 # map Suc [0..<n]"
    by (simp add: map_Suc_upt upt_conv_Cons)
  then show ?thesis
    by (simp add: candidates_def comp_def mod_add_left_eq del: upt_Suc)
qed

abbreviation healthy_at :: "Pool \<Rightarrow> nat \<Rightarrow> bool" where
  "healthy_at p i \<equiv> IsHealthy p (pool_replicas p ! i)"

lemma next_healthy_spec:
  assumes "pool_current p < length (pool_replicas p)"
  shows "next_healthy n p =
    (case find (healthy_at p) (candidates p n) of
       Some i \<Rightarrow> Inr (p\<lparr>pool_current := (i + 1) mod length (pool_replicas p)\<rparr>, Some (pool_replicas p ! i, i))
     | None \<Rightarrow> Inr (p\<lparr>pool_current := (pool_current p + n) mod length (pool_replicas p)\<rparr>, None))"
  using assms
proof (induction n arbitrary: p)
  case 0
  then show ?case by (simp add: candidates_def)
next
  case (Suc n)
  let ?p = "p\<lparr>pool_current := (pool_current p + 1) mod length (pool_replicas p)\<rparr>"
  have "0 < length (pool_replicas p)"
    using Suc.prems by linarith
  then have c: "pool_current ?p < length (pool_replicas ?p)"
    by simp
  have h: "IsHealthy ?p = IsHealthy p"
    by (simp add: IsHealthy_def fun_eq_iff)
  show ?case
  proof (cases "healthy_at p (pool_current p)")
    case True
    with Suc.prems h show ?thesis
      by (simp add: candidates_Suc Let_def)
  next
    case False
    with Suc.IH [OF c] Suc.prems h show ?thesis
      by (simp add: candidates_Suc Let_def mod_Suc_eq mod_add_left_eq split: option.splits)
  qed
qed

lemma set_candidates:
  assumes "pool_current p < length (pool_replicas p)"
  shows "set (candidates p (length (pool_replicas p))) = {0..<length (pool_replicas p)}"
proof -
  let ?n = "length (pool_replicas p)" and ?c = "pool_current p"
  have "i \<in> (\<lambda>k. (?c + k) mod ?n) ` {0..<?n}" if "i < ?n" for i
  proof (cases "?c \<le> i")
    case True
    with that show ?thesis by (intro image_eqI [of _ _ "i - ?c"]) auto
  next
    case False
    with that assms show ?thesis by (intro image_eqI [of _ _ "?n - ?c + i"]) auto
  qed
  moreover have "(?c + k) mod ?n < ?n" for k
    using assms by (intro mod_less_divisor) linarith
  ultimately show ?thesis
    unfolding candidates_def by auto
qed

text \<open>\<open>GetReplica\<close> is a search through all replicas, starting at the current index.\<close>

lemma GetReplica_spec:
  assumes "pool_ok p"
  shows "GetReplica p =
    (case find (healthy_at p) (candidates p (length (pool_replicas p))) of
       Some i \<Rightarrow> Inr (p\<lparr>pool_current := (i + 1) mod length (pool_replicas p)\<rparr>,
                     pool_replicas p ! i, replica_name i)
     | None \<Rightarrow> Inr (p, pool_primary p, ''primary''))"
proof (cases "pool_replicas p = []")
  case True
  then show ?thesis by (simp add: GetReplica_def candidates_def)
next
  case False
  with assms have c: "pool_current p < length (pool_replicas p)"
    by (simp add: pool_ok_def)
  with False show ?thesis
    by (simp add: GetReplica_def next_healthy_spec split: option.splits)
qed

lemma find_candidates_None:
  assumes "pool_ok p"
  shows "find (healthy_at p) (candidates p (length (pool_replicas p))) = None
     \<longleftrightarrow> (\<forall>r \<in> set (pool_replicas p). \<not> IsHealthy p r)"
proof (cases "pool_replicas p = []")
  case True
  then show ?thesis by (simp add: candidates_def)
next
  case False
  with assms have "pool_current p < length (pool_replicas p)"
    by (simp add: pool_ok_def)
  then show ?thesis
    by (simp add: find_None_iff set_candidates all_set_conv_all_nth)
qed

lemma find_candidates_Some:
  assumes "pool_ok p" and "find (healthy_at p) (candidates p (length (pool_replicas p))) = Some i"
  shows "i < length (pool_replicas p)" and "healthy_at p i"
proof -
  have "i \<in> set (candidates p (length (pool_replicas p)))" and h: "healthy_at p i"
    using assms(2) by (metis find_Some_iff nth_mem)+
  moreover have "pool_current p < length (pool_replicas p)"
    using assms by (cases "pool_replicas p = []") (auto simp: pool_ok_def candidates_def)
  ultimately show "i < length (pool_replicas p)" and "healthy_at p i"
    by (auto simp: set_candidates)
qed

lemma pool_ok_current:
  "pool_ok p \<Longrightarrow> c < length (pool_replicas p) \<Longrightarrow> pool_ok (p\<lparr>pool_current := c\<rparr>)"
  by (auto simp: pool_ok_def)

lemma IsHealthy_current [simp]: "IsHealthy (p\<lparr>pool_current := c\<rparr>) = IsHealthy p"
  by (simp add: IsHealthy_def fun_eq_iff)

section \<open>The interface to the proxies\<close>

text \<open>
  What a proxy relies on when it asks for a backend to read from: the choice succeeds, it leaves
  the primary and the health of the backends alone, and what is chosen is the primary or a backend
  that is up, the primary only by its own name.
\<close>

locale read_router =
  fixes inv :: "'p \<Rightarrow> bool"
    and pick :: "'p \<Rightarrow> panic + 'p \<times> string \<times> string"
    and primary :: "'p \<Rightarrow> string"
    and up :: "'p \<Rightarrow> string \<Rightarrow> bool"
  assumes pick_total: "inv p \<Longrightarrow> \<exists>p' addr name. pick p = Inr (p', addr, name)"
    and pick_inv: "inv p \<Longrightarrow> pick p = Inr (p', addr, name) \<Longrightarrow> inv p'"
    and pick_frame: "inv p \<Longrightarrow> pick p = Inr (p', addr, name) \<Longrightarrow> primary p' = primary p \<and> up p' = up p"
    and pick_up: "inv p \<Longrightarrow> pick p = Inr (p', addr, name) \<Longrightarrow>
       (if name = ''primary'' then addr = primary p else up p addr)"
begin

text \<open>A sequence of reads: the addresses that were chosen, in order.\<close>

fun reads :: "nat \<Rightarrow> 'p \<Rightarrow> panic + 'p \<times> (string \<times> string) list" where
  "reads 0 p = Inr (p, [])"
| "reads (Suc k) p =
     (case pick p of
        Inl e \<Rightarrow> Inl e
      | Inr (p', x) \<Rightarrow> (case reads k p' of Inl e \<Rightarrow> Inl e | Inr (p'', xs) \<Rightarrow> Inr (p'', x # xs)))"

lemma reads_ok:
  "inv p \<Longrightarrow> \<exists>p' xs. reads k p = Inr (p', xs) \<and> inv p' \<and> primary p' = primary p \<and> up p' = up p \<and>
     length xs = k \<and> (\<forall>(addr, name) \<in> set xs. if name = ''primary'' then addr = primary p else up p addr)"
proof (induction k arbitrary: p)
  case 0
  then show ?case by simp
next
  case (Suc k)
  from pick_total [OF Suc.prems] obtain p1 addr name where c: "pick p = Inr (p1, addr, name)"
    by blast
  note facts = pick_inv [OF Suc.prems c] pick_frame [OF Suc.prems c] pick_up [OF Suc.prems c]
  have same: "primary p1 = primary p" "up p1 = up p"
    using facts by simp_all
  from Suc.IH [OF facts(1), unfolded same] obtain p2 xs where "reads k p1 = Inr (p2, xs)" and "inv p2"
    and "primary p2 = primary p" and "up p2 = up p" and "length xs = k"
    and "\<forall>(addr, name) \<in> set xs. if name = ''primary'' then addr = primary p else up p addr"
    by blast
  with c facts show ?case by (auto split: if_splits)
qed

end

lemma replica_name_not_primary [simp]: "replica_name i \<noteq> ''primary''"
  by (simp add: replica_name_def)

interpretation pool: read_router pool_ok GetReplica GetPrimary IsHealthy
proof unfold_locales
  fix p p' addr name
  assume ok: "pool_ok p"
  show "\<exists>p' addr name. GetReplica p = Inr (p', addr, name)"
    using GetReplica_spec [OF ok] by (auto split: option.splits)
  assume g: "GetReplica p = Inr (p', addr, name)"
  have len: "i < length (pool_replicas p) \<Longrightarrow> (i + 1) mod length (pool_replicas p) < length (pool_replicas p)" for i
    by (metis gr_implies_not_zero mod_less_divisor neq0_conv)
  show "pool_ok p'"
    using g ok len find_candidates_Some [OF ok] pool_ok_current [OF ok]
    by (auto simp: GetReplica_spec [OF ok] split: option.splits)
  show "GetPrimary p' = GetPrimary p \<and> IsHealthy p' = IsHealthy p"
    using g by (auto simp: GetReplica_spec [OF ok] GetPrimary_def split: option.splits)
  show "if name = ''primary'' then addr = GetPrimary p else IsHealthy p addr"
    using g find_candidates_Some [OF ok]
    by (auto simp: GetReplica_spec [OF ok] GetPrimary_def split: option.splits)
qed

section \<open>Properties\<close>

text \<open>With every replica up, each call takes the replica at the index and moves the index by one.\<close>

lemma GetReplica_all_up:
  assumes "pool_ok p" and "pool_replicas p \<noteq> []" and "\<forall>r \<in> set (pool_replicas p). IsHealthy p r"
  shows "GetReplica p = Inr (p\<lparr>pool_current := (pool_current p + 1) mod length (pool_replicas p)\<rparr>,
    pool_replicas p ! pool_current p, replica_name (pool_current p))"
proof -
  let ?n = "length (pool_replicas p)"
  from assms have c: "pool_current p < ?n"
    by (simp add: pool_ok_def)
  then obtain m where "?n = Suc m"
    by (cases ?n) auto
  with c assms(3) have "find (healthy_at p) (candidates p ?n) = Some (pool_current p)"
    by (simp add: candidates_Suc)
  with assms(1) show ?thesis
    by (simp add: GetReplica_spec)
qed

lemma foldl_set_health:
  "IsHealthy (foldl (\<lambda>p r. set_health p r (d r)) p rs) r =
     (if r \<in> set rs \<and> mget (pool_healthy p) r \<noteq> None then d r else IsHealthy p r)"
proof (induction rs arbitrary: p)
  case Nil
  then show ?case by simp
next
  case (Cons a rs)
  have "(mget (pool_healthy (set_health p a (d a))) r \<noteq> None) = (mget (pool_healthy p) r \<noteq> None)"
    by (auto simp: set_health_def split: option.splits)
  then show ?case
    by (auto simp: Cons.IH IsHealthy_set_health)
qed

lemma run_checks_set_health:
  "run_checks dial p order =
     foldl (\<lambda>p r. set_health p r (dial (fst (dial_target r)) (snd (dial_target r)))) p order"
  by (simp add: run_checks_def checkReplica_set_health [abs_def])

lemma foldl_set_health_frame:
  "pool_ok p \<Longrightarrow> pool_ok (foldl (\<lambda>p r. set_health p r (d r)) p rs)"
  "pool_primary (foldl (\<lambda>p r. set_health p r (d r)) p rs) = pool_primary p"
  "pool_replicas (foldl (\<lambda>p r. set_health p r (d r)) p rs) = pool_replicas p"
  "pool_current (foldl (\<lambda>p r. set_health p r (d r)) p rs) = pool_current p"
  by (induction rs arbitrary: p) simp_all

lemma foldl_count: "foldl (\<lambda>count e. if P e then count + 1 else count) (n :: nat) xs = n + length (filter P xs)"
  by (induction xs arbitrary: n) auto

lemma GetHealthyCount_card:
  assumes "pool_ok p"
  shows "GetHealthyCount p = card {r \<in> set (pool_replicas p). IsHealthy p r}"
proof -
  have d: "distinct (map fst (pool_healthy p))"
    using assms by (simp add: pool_ok_def map_ok_def mkeys_def)
  have "GetHealthyCount p = length (filter snd (pool_healthy p))"
    unfolding GetHealthyCount_def foldl_count [of snd] by simp
  also have "\<dots> = card (fst ` set (filter snd (pool_healthy p)))"
    using d by (metis distinct_card distinct_map_filter length_map set_map)
  also have "fst ` set (filter snd (pool_healthy p)) = {r. IsHealthy p r}"
    using d by (force simp: IsHealthy_def mget_def)
  also have "{r. IsHealthy p r} = {r \<in> set (pool_replicas p). IsHealthy p r}"
    using assms by (auto simp: pool_ok_def IsHealthy_def)
  finally show ?thesis .
qed

text \<open>Round robin is fair. While every replica is up, \<open>k\<close> reads in a row give the replicas in
  their configured order, starting at the current index and wrapping around, each under the name of its
  index; so in every window of as many reads as there are replicas each is used exactly once.\<close>

lemma GetReplica_round_robin:
  assumes "pool_ok p" and "pool_replicas p \<noteq> []" and "\<forall>r \<in> set (pool_replicas p). IsHealthy p r"
  shows "pool.reads k p = Inr (p\<lparr>pool_current := (pool_current p + k) mod length (pool_replicas p)\<rparr>,
    map (\<lambda>j. let i = (pool_current p + j) mod length (pool_replicas p)
              in (pool_replicas p ! i, replica_name i)) [0..<k])"
  using assms
proof (induction k arbitrary: p)
  case 0
  then show ?case by (simp add: pool_ok_def)
next
  case (Suc k)
  let ?n = "length (pool_replicas p)"
  let ?p = "p\<lparr>pool_current := (pool_current p + 1) mod ?n\<rparr>"
  have c: "pool_current p < ?n" and "pool_ok ?p"
    using Suc.prems by (auto simp: pool_ok_def)
  with Suc.IH [of ?p] Suc.prems
  have "pool.reads k ?p = Inr (?p\<lparr>pool_current := (pool_current ?p + k) mod ?n\<rparr>,
      map (\<lambda>j. let i = (pool_current ?p + j) mod ?n in (pool_replicas p ! i, replica_name i)) [0..<k])"
    by simp
  moreover have "[0..<Suc k] = 0 # map Suc [0..<k]"
    by (simp add: map_Suc_upt upt_conv_Cons)
  ultimately show ?case
    using c by (simp add: GetReplica_all_up [OF Suc.prems] Let_def comp_def mod_simps del: upt_Suc)
qed

lemma GetReplica_round_robin_witness:
  "\<exists>p'. pool.reads 3 (NewPool ''db:1'' [''r:1'', ''r:2'']) =
     Inr (p', [(''r:1'', ''replicas[0]''), (''r:2'', ''replicas[1]''), (''r:1'', ''replicas[0]'')])"
proof -
  let ?p = "NewPool ''db:1'' [''r:1'', ''r:2'']"
  have "pool_ok ?p" and "pool_replicas ?p \<noteq> []" and "\<forall>r \<in> set (pool_replicas ?p). IsHealthy ?p r"
    by (simp add: NewPool_ok, code_simp+)
  note rr = GetReplica_round_robin [OF this, of 3]
  have names: "replica_name 0 = ''replicas[0]''" "replica_name (Suc 0) = ''replicas[1]''"
    by code_simp+
  have sel: "pool_current ?p = 0" "pool_replicas ?p = [''r:1'', ''r:2'']"
    by (simp_all add: NewPool_def)
  show ?thesis
    unfolding rr by (simp add: sel names upt_rec Let_def)
qed

text \<open>A configuration reload installs the new primary and the new replicas, keeps the status of
  every replica that stays, starts every new one as healthy, forgets the removed ones, and leaves an
  index that is in range for the new list: reads from the pool go on without a panic, whatever the
  state was before.\<close>

lemma UpdateReplicas_preserves_health:
  assumes "p' = UpdateReplicas p primary replicas"
  shows "pool_ok p' \<and> GetPrimary p' = primary \<and> pool_replicas p' = replicas \<and>
    (\<forall>r. IsHealthy p' r \<longleftrightarrow> r \<in> set replicas \<and> (mget (pool_healthy p) r = None \<or> IsHealthy p r)) \<and>
    (\<exists>p'' xs. pool.reads k p' = Inr (p'', xs) \<and> length xs = k \<and>
       (\<forall>(addr, name) \<in> set xs. if name = ''primary'' then addr = primary else addr \<in> set replicas \<and> IsHealthy p' addr))"
proof -
  have ok: "pool_ok p'"
    by (simp add: assms UpdateReplicas_ok)
  have prim: "GetPrimary p' = primary" and reps: "pool_replicas p' = replicas"
    by (simp_all add: assms UpdateReplicas_def GetPrimary_def)
  have health: "IsHealthy p' r \<longleftrightarrow> r \<in> set replicas \<and> (mget (pool_healthy p) r = None \<or> IsHealthy p r)" for r
    by (simp add: assms UpdateReplicas_def IsHealthy_def keep_health_get split: option.splits)
  show ?thesis
    using ok prim reps health pool.reads_ok [OF ok, of k] by fastforce
qed

lemma UpdateReplicas_preserves_health_witness:
  "\<exists>p''. pool.reads 1 (UpdateReplicas (MarkUnhealthy (NewPool ''db:1'' [''r:1'', ''r:2'']) ''r:1'') ''db:2'' [''r:1'', ''r:3''])
      = Inr (p'', [(''r:3'', ''replicas[1]'')])
   \<and> \<not> IsHealthy (UpdateReplicas (MarkUnhealthy (NewPool ''db:1'' [''r:1'', ''r:2'']) ''r:1'') ''db:2'' [''r:1'', ''r:3'']) ''r:1''"
proof -
  let ?p = "MarkUnhealthy (NewPool ''db:1'' [''r:1'', ''r:2'']) ''r:1''"
  let ?u = "UpdateReplicas ?p ''db:2'' [''r:1'', ''r:3'']"
  have h: "\<not> IsHealthy ?u ''r:1''"
    using UpdateReplicas_preserves_health [OF refl, of ?p "''db:2''" "[''r:1'', ''r:3'']" 1]
    by (simp add: MarkUnhealthy_def NewPool_def IsHealthy_def set_health_def)
  have "GetReplica ?u = Inr (?u, ''r:3'', ''replicas[1]'')"
    by code_simp
  with h show ?thesis by simp
qed

lemma StartHealthChecks_frame:
  assumes "pool_ok p"
  shows "pool_ok (StartHealthChecks p rounds)" "pool_primary (StartHealthChecks p rounds) = pool_primary p"
    "pool_replicas (StartHealthChecks p rounds) = pool_replicas p" "pool_current (StartHealthChecks p rounds) = pool_current p"
  using assms
  by (induction rounds arbitrary: p) (auto simp: StartHealthChecks_def run_checks_set_health foldl_set_health_frame)

lemma StartHealthChecks_last:
  "StartHealthChecks p (rounds @ [(dial, order)]) = run_checks dial (StartHealthChecks p rounds) order"
  by (simp add: StartHealthChecks_def)

text \<open>C32: The health checks follow the replicas: after any number of rounds, exactly the replicas are healthy that could be
  dialled in the last one (with the \<^verbatim>\<open>unix:\<close> prefix taken off for sockets), in whatever order its goroutines got the
  mutex and whatever the rounds before found, and nothing else of the pool has changed; \<open>GetHealthyCount\<close> then counts them.\<close>

theorem health_checks_order_independent:
  assumes "pool_ok p" and "set order = set (pool_replicas p)"
  shows "let p' = StartHealthChecks p (rounds @ [(dial, order)]);
             alive = (\<lambda>r. dial (fst (dial_target r)) (snd (dial_target r)))
         in (\<forall>r. IsHealthy p' r \<longleftrightarrow> r \<in> set (pool_replicas p) \<and> alive r) \<and>
            GetHealthyCount p' = card {r \<in> set (pool_replicas p). alive r} \<and>
            pool_ok p' \<and> GetPrimary p' = GetPrimary p \<and>
            pool_replicas p' = pool_replicas p \<and> pool_current p' = pool_current p"
proof -
  let ?d = "\<lambda>r. dial (fst (dial_target r)) (snd (dial_target r))"
  let ?q = "StartHealthChecks p rounds"
  let ?p = "run_checks dial ?q order"
  note q = StartHealthChecks_frame [OF assms(1), of rounds]
  have dom: "mget (pool_healthy ?q) r \<noteq> None \<longleftrightarrow> r \<in> set (pool_replicas p)" for r
    using q(1,3) by (auto simp: pool_ok_def)
  have h: "IsHealthy ?p r \<longleftrightarrow> r \<in> set (pool_replicas p) \<and> ?d r" for r
    using dom [of r] assms(2)
    by (simp add: run_checks_set_health foldl_set_health) (auto simp: IsHealthy_def)
  have frame: "pool_ok ?p" "pool_primary ?p = pool_primary p" "pool_replicas ?p = pool_replicas p"
    "pool_current ?p = pool_current p"
    using q by (simp_all add: run_checks_set_health foldl_set_health_frame)
  have "{r \<in> set (pool_replicas p). r \<in> set (pool_replicas p) \<and> ?d r} = {r \<in> set (pool_replicas p). ?d r}"
    by blast
  then show ?thesis
    using h frame GetHealthyCount_card [OF frame(1)] by (simp add: Let_def GetPrimary_def StartHealthChecks_last)
qed

theorem health_checks_order_independent_witness:
  "let p = NewPool ''db:1'' [''unix:/s'', ''r:2''] in
   IsHealthy (StartHealthChecks p [(\<lambda>net addr. False, [''r:2'']), (\<lambda>net addr. net = ''unix'' \<and> addr = ''/s'', [''r:2'', ''unix:/s''])]) ''unix:/s'' \<and>
   \<not> IsHealthy (StartHealthChecks p [(\<lambda>net addr. False, [''r:2'']), (\<lambda>net addr. net = ''unix'' \<and> addr = ''/s'', [''r:2'', ''unix:/s''])]) ''r:2''"
proof -
  let ?p = "NewPool ''db:1'' [''unix:/s'', ''r:2'']"
  have "set [''r:2'', ''unix:/s''] = set (pool_replicas ?p)"
    by (auto simp: NewPool_def)
  from health_checks_order_independent [OF NewPool_ok this, of "[(\<lambda>net addr. False, [''r:2''])]" "\<lambda>net addr. net = ''unix'' \<and> addr = ''/s''"]
  show ?thesis
    by (simp add: Let_def NewPool_def dial_target_def)
qed

text \<open>C19: On a pool that satisfies the invariant, \<open>GetReplica\<close> does not panic and keeps the invariant.
  It returns the primary exactly when no replica is healthy; otherwise it returns a healthy replica
  under its own index, the first one from the round-robin index on (\<open>k\<close> steps away, with all
  replicas before it unhealthy), and the next call starts behind it.\<close>

theorem GetReplica_first_healthy:
  assumes "pool_ok p"
  shows "\<exists>p' addr name. GetReplica p = Inr (p', addr, name) \<and> pool_ok p' \<and>
    (if \<exists>r \<in> set (pool_replicas p). IsHealthy p r
     then \<exists>k < length (pool_replicas p).
       let i = (pool_current p + k) mod length (pool_replicas p) in
       addr = pool_replicas p ! i \<and> name = replica_name i \<and> IsHealthy p addr \<and>
       p' = p\<lparr>pool_current := (i + 1) mod length (pool_replicas p)\<rparr> \<and>
       (\<forall>j < k. \<not> IsHealthy p (pool_replicas p ! ((pool_current p + j) mod length (pool_replicas p))))
     else addr = GetPrimary p \<and> name = ''primary'' \<and> p' = p)"
proof -
  let ?n = "length (pool_replicas p)"
  let ?f = "find (healthy_at p) (candidates p ?n)"
  obtain p' addr name where g: "GetReplica p = Inr (p', addr, name)"
    using pool.pick_total [OF assms] by blast
  have inv: "pool_ok p'"
    by (rule pool.pick_inv [OF assms g])
  show ?thesis
  proof (cases ?f)
    case None
    then have "\<not> (\<exists>r \<in> set (pool_replicas p). IsHealthy p r)"
      using find_candidates_None [OF assms] by blast
    with None assms show ?thesis
      by (simp add: GetReplica_spec [OF assms] GetPrimary_def)
  next
    case (Some i)
    then obtain k where k: "k < ?n" "healthy_at p i" "i = (pool_current p + k) mod ?n"
      "\<forall>j < k. \<not> healthy_at p ((pool_current p + j) mod ?n)"
      by (auto simp: find_Some_iff candidates_def)
    have ex: "\<exists>r \<in> set (pool_replicas p). IsHealthy p r"
      using find_candidates_Some [OF assms Some] by (meson nth_mem)
    show ?thesis
      using g inv Some k by (simp only: ex if_True) (auto simp: GetReplica_spec [OF assms] Let_def)
  qed
qed

theorem GetReplica_first_healthy_witness:
  "pool_ok (MarkUnhealthy (NewPool ''db:1'' [''r:1'', ''r:2'']) ''r:1'') \<and>
   (\<exists>p' addr name. GetReplica (MarkUnhealthy (NewPool ''db:1'' [''r:1'', ''r:2'']) ''r:1'') = Inr (p', addr, name) \<and> pool_ok p')"
proof -
  have "pool_ok (MarkUnhealthy (NewPool ''db:1'' [''r:1'', ''r:2'']) ''r:1'')"
    by (simp add: MarkUnhealthy_def NewPool_ok)
  then show ?thesis
    using GetReplica_first_healthy [of "MarkUnhealthy (NewPool ''db:1'' [''r:1'', ''r:2'']) ''r:1''"] by blast
qed

end
