(* ===== verification/Configuration.thy ===== *)
theory Configuration
  imports Parser Replica
begin

text \<open>
  The configuration, \<^verbatim>\<open>config/config.go\<close>, and the pools that \<^verbatim>\<open>cmd/tqdbproxy/main.go\<close> builds from it at the
  start and on every reload. The INI library is not part of the sources: the functions of it that the code
  calls are the record \<open>ini_lib\<close>, an argument of the definitions. A pool is reached by a pointer, a number, in
  a heap of pools, since a reload changes a pool in place that open connections use. The lemmas show that every
  database of the configuration is mapped to a backend that is defined, and that a reload keeps the
  pools of the backends that stay.
\<close>

section \<open>Data\<close>

record BackendConfig =
  be_Primary :: string
  be_Replicas :: "string list"

record WriteBatchConfig =
  wbc_MaxBatchSize :: int
  wbc_UseCopy :: bool

record ProxyConfig =
  pc_Listen :: string
  pc_Socket :: string
  pc_Default :: string
  pc_Backends :: "(string, BackendConfig) gomap"
  pc_DBMap :: "(string, string) gomap"
  pc_WriteBatch :: WriteBatchConfig

record AppConfig =
  app_MariaDB :: ProxyConfig
  app_Postgres :: ProxyConfig

text \<open>The INI library: a parsed document \<open>'f\<close> has sections \<open>'x\<close>, a section has keys.\<close>

record ('f, 'x) ini_lib =
  ini_Load :: "string \<Rightarrow> string + 'f"
  ini_Section :: "'f \<Rightarrow> string \<Rightarrow> 'x"
  ini_Sections :: "'f \<Rightarrow> 'x list"
  sec_Name :: "'x \<Rightarrow> string"
  sec_HasKey :: "'x \<Rightarrow> string \<Rightarrow> bool"
  key_String :: "'x \<Rightarrow> string \<Rightarrow> string"
  key_MustString :: "'x \<Rightarrow> string \<Rightarrow> string \<Rightarrow> string"
  key_MustInt :: "'x \<Rightarrow> string \<Rightarrow> int \<Rightarrow> int"

section \<open>Loading\<close>

definition load_replicas :: "('f, 'x) ini_lib \<Rightarrow> 'x \<Rightarrow> string list" where
  "load_replicas lib s =
     (if sec_HasKey lib s ''replicas'' then
        let raw = key_String lib s ''replicas''
        in if raw \<noteq> [] then map TrimSpace (Split (CHR '','') raw) else []
      else [])"

definition load_databases :: "('f, 'x) ini_lib \<Rightarrow> 'x \<Rightarrow> string list" where
  "load_databases lib s =
     (if sec_HasKey lib s ''databases'' then map TrimSpace (Split (CHR '','') (key_String lib s ''databases'')) else [])"

text \<open>The body of the loop over the sections.\<close>

definition load_backend :: "('f, 'x) ini_lib \<Rightarrow> string \<Rightarrow> ProxyConfig \<Rightarrow> 'x \<Rightarrow> ProxyConfig" where
  "load_backend lib prefix pcfg s =
     (let name = sec_Name lib s
      in if length name > length prefix \<and> take (length prefix) name = prefix then
           let backendName = drop (length prefix) name;
               primary = key_String lib s ''primary'';
               replicas = load_replicas lib s
           in if primary \<noteq> [] then
                pcfg\<lparr>pc_Backends := mset_key (pc_Backends pcfg) backendName \<lparr>be_Primary = primary, be_Replicas = replicas\<rparr>,
                     pc_DBMap := foldl (\<lambda>m db. mset_key m db backendName) (pc_DBMap pcfg) (load_databases lib s)\<rparr>
              else pcfg
         else pcfg)"

definition loadProxyConfig :: "('f, 'x) ini_lib \<Rightarrow> 'f \<Rightarrow> string \<Rightarrow> string \<Rightarrow> ProxyConfig" where
  "loadProxyConfig lib cfg protocol defaultListen =
     (let sec = ini_Section lib cfg protocol
      in foldl (load_backend lib (protocol @ ''.''))
           \<lparr>pc_Listen = key_MustString lib sec ''listen'' defaultListen,
            pc_Socket = key_String lib sec ''socket'',
            pc_Default = key_MustString lib sec ''default'' ''main'',
            pc_Backends = [], pc_DBMap = [],
            pc_WriteBatch = \<lparr>wbc_MaxBatchSize = key_MustInt lib sec ''writebatch_max_batch_size'' 1000, wbc_UseCopy = False\<rparr>\<rparr>
           (ini_Sections lib cfg))"

text \<open>\<open>env\<close> is the environment of the process; an unset variable is empty.\<close>

definition Load :: "('f, 'x) ini_lib \<Rightarrow> (string \<Rightarrow> string) \<Rightarrow> string \<Rightarrow> string + AppConfig" where
  "Load lib env path =
     (case ini_Load lib path of
        Inl err \<Rightarrow> Inl err
      | Inr cfg \<Rightarrow>
          (let maria = loadProxyConfig lib cfg ''mariadb'' '':3307'';
               pg = loadProxyConfig lib cfg ''postgres'' '':5433'';
               v = env ''TQDBPROXY_MARIADB_LISTEN'';
               w = env ''TQDBPROXY_POSTGRES_LISTEN''
           in Inr \<lparr>app_MariaDB = (if v \<noteq> [] then maria\<lparr>pc_Listen := v\<rparr> else maria),
                   app_Postgres = (if w \<noteq> [] then pg\<lparr>pc_Listen := w\<rparr> else pg)\<rparr>))"

section \<open>Pools\<close>

record PoolHeap =
  ph_pool :: "nat \<Rightarrow> Pool"
  ph_next :: nat

definition alloc_pool :: "PoolHeap \<Rightarrow> Pool \<Rightarrow> PoolHeap \<times> nat" where
  "alloc_pool h p = (h\<lparr>ph_pool := (ph_pool h)(ph_next h := p), ph_next := ph_next h + 1\<rparr>, ph_next h)"

definition update_pool :: "PoolHeap \<Rightarrow> nat \<Rightarrow> Pool \<Rightarrow> PoolHeap" where
  "update_pool h a p = h\<lparr>ph_pool := (ph_pool h)(a := p)\<rparr>"

fun initPools :: "PoolHeap \<Rightarrow> (string, BackendConfig) gomap \<Rightarrow> PoolHeap \<times> (string, nat) gomap" where
  "initPools h [] = (h, [])"
| "initPools h ((name, backend) # backends) =
     (case alloc_pool h (NewPool (be_Primary backend) (be_Replicas backend)) of
        (h1, a) \<Rightarrow> (case initPools h1 backends of (h2, pools) \<Rightarrow> (h2, (name, a) # pools)))"

fun updatePools ::
  "PoolHeap \<Rightarrow> (string, nat) gomap \<Rightarrow> (string, BackendConfig) gomap \<Rightarrow> PoolHeap \<times> (string, nat) gomap" where
  "updatePools h current [] = (h, [])"
| "updatePools h current ((name, backend) # backends) =
     (case (case mget current name of
              Some a \<Rightarrow> (update_pool h a (UpdateReplicas (ph_pool h a) (be_Primary backend) (be_Replicas backend)), a)
            | None \<Rightarrow> alloc_pool h (NewPool (be_Primary backend) (be_Replicas backend))) of
        (h1, a) \<Rightarrow> (case updatePools h1 current backends of (h2, pools) \<Rightarrow> (h2, (name, a) # pools)))"

text \<open>The lookup both proxies do for a database: the shard of the database, or the default one.\<close>

definition shard_name :: "ProxyConfig \<Rightarrow> string \<Rightarrow> string" where
  "shard_name pcfg db =
     (let shardName = (case mget (pc_DBMap pcfg) db of Some s \<Rightarrow> s | None \<Rightarrow> [])
      in if shardName = [] then pc_Default pcfg else shardName)"

section \<open>Lemmas on loading\<close>

text \<open>A configuration is well formed when its backends have an address, and every database is mapped to one of them.\<close>

definition config_ok :: "ProxyConfig \<Rightarrow> bool" where
  "config_ok pcfg \<longleftrightarrow> map_ok (pc_Backends pcfg) \<and> map_ok (pc_DBMap pcfg) \<and>
     (\<forall>name be. mget (pc_Backends pcfg) name = Some be \<longrightarrow> name \<noteq> [] \<and> be_Primary be \<noteq> []) \<and>
     (\<forall>db name. mget (pc_DBMap pcfg) db = Some name \<longrightarrow> mget (pc_Backends pcfg) name \<noteq> None)"

lemma map_dbs:
  "map_ok m \<Longrightarrow> map_ok (foldl (\<lambda>m db. mset_key m db v) m dbs)"
  "mget (foldl (\<lambda>m db. mset_key m db v) m dbs) db = (if db \<in> set dbs then Some v else mget m db)"
  by (induction dbs arbitrary: m) auto

lemma load_backend_ok:
  assumes "config_ok pcfg"
  shows "config_ok (load_backend lib prefix pcfg s)"
  using assms by (auto simp: config_ok_def load_backend_def Let_def map_dbs split: if_splits)

lemma load_backends_ok: "config_ok pcfg \<Longrightarrow> config_ok (foldl (load_backend lib prefix) pcfg ss)"
  by (induction ss arbitrary: pcfg) (simp_all add: load_backend_ok)

lemma loadProxyConfig_ok: "config_ok (loadProxyConfig lib cfg protocol defaultListen)"
  unfolding loadProxyConfig_def Let_def
  by (rule load_backends_ok) (simp add: config_ok_def)

lemma shard_name_mapped:
  assumes "config_ok pcfg" and "mget (pc_DBMap pcfg) db = Some name"
  shows "shard_name pcfg db = name"
proof -
  have "name \<noteq> []"
    using assms unfolding config_ok_def by (metis option.exhaust)
  with assms(2) show ?thesis
    by (simp add: shard_name_def)
qed

section \<open>Lemmas on pools\<close>

text \<open>The pools of a proxy: every pointer is allocated, and two backends never share a pool.\<close>

definition pools_ok :: "PoolHeap \<Rightarrow> (string, nat) gomap \<Rightarrow> bool" where
  "pools_ok h pools \<longleftrightarrow>
     (\<forall>name a. mget pools name = Some a \<longrightarrow> a < ph_next h) \<and>
     (\<forall>name name' a. mget pools name = Some a \<longrightarrow> mget pools name' = Some a \<longrightarrow> name = name')"

lemma initPools_eq: "initPools h backends = updatePools h [] backends"
  by (induction backends arbitrary: h) (auto split: prod.splits)

text \<open>The pool of one backend after a reload, from the heap before it.\<close>

definition reloaded :: "PoolHeap \<Rightarrow> nat option \<Rightarrow> BackendConfig \<Rightarrow> Pool" where
  "reloaded h old be =
     (case old of
        Some a \<Rightarrow> UpdateReplicas (ph_pool h a) (be_Primary be) (be_Replicas be)
      | None \<Rightarrow> NewPool (be_Primary be) (be_Replicas be))"

lemma mget_Cons: "mget ((k, v) # m) k' = (if k' = k then Some v else mget m k')"
  by (simp add: mget_def)

lemma updatePools_frame:
  assumes "updatePools h current backends = (h', pools)" and "pools_ok h current"
  shows "ph_next h \<le> ph_next h' \<and>
    (\<forall>a < ph_next h. (\<forall>name \<in> set (mkeys backends). mget current name \<noteq> Some a) \<longrightarrow> ph_pool h' a = ph_pool h a)"
  using assms
proof (induction backends arbitrary: h pools)
  case (Cons x backends)
  obtain name be where x: "x = (name, be)" by (cases x)
  obtain pools1 where u: "updatePools
        (case mget current name of
           Some a \<Rightarrow> update_pool h a (UpdateReplicas (ph_pool h a) (be_Primary be) (be_Replicas be))
         | None \<Rightarrow> fst (alloc_pool h (NewPool (be_Primary be) (be_Replicas be)))) current backends = (h', pools1)" (is "updatePools ?h1 _ _ = _")
    using Cons.prems(1) by (auto simp: x alloc_pool_def split: prod.splits option.splits)
  have h1: "ph_next h \<le> ph_next ?h1" and ok1: "pools_ok ?h1 current"
    using Cons.prems(2) by (auto simp: pools_ok_def update_pool_def alloc_pool_def less_Suc_eq split: option.splits)
  have same: "ph_pool ?h1 a = ph_pool h a" if "a < ph_next h" "mget current name \<noteq> Some a" for a
    using that by (auto simp: update_pool_def alloc_pool_def split: option.splits)
  from Cons.IH [OF u ok1] h1 same show ?case
    by (auto simp: x mkeys_def)
qed simp

lemma updatePools_spec:
  assumes "updatePools h current backends = (h', pools)" and "pools_ok h current" and "map_ok backends"
    and "mget backends name = Some be"
  shows "\<exists>a. mget pools name = Some a \<and> a < ph_next h' \<and> ph_pool h' a = reloaded h (mget current name) be \<and>
    (case mget current name of Some a0 \<Rightarrow> a = a0 | None \<Rightarrow> ph_next h \<le> a)"
  using assms
proof (induction backends arbitrary: h pools)
  case (Cons x backends)
  obtain n b where x: "x = (n, b)" by (cases x)
  define h1a where "h1a = (case mget current n of
       Some a \<Rightarrow> (update_pool h a (UpdateReplicas (ph_pool h a) (be_Primary b) (be_Replicas b)), a)
     | None \<Rightarrow> alloc_pool h (NewPool (be_Primary b) (be_Replicas b)))"
  obtain h1 a1 where ha: "h1a = (h1, a1)" by (cases h1a)
  obtain pools1 where u: "updatePools h1 current backends = (h', pools1)" and pools: "pools = (n, a1) # pools1"
    using Cons.prems(1) ha by (auto simp: x h1a_def split: prod.splits)
  have h1: "ph_next h \<le> ph_next h1" "a1 < ph_next h1" "ph_pool h1 a1 = reloaded h (mget current n) b"
    "case mget current n of Some a0 \<Rightarrow> a1 = a0 | None \<Rightarrow> a1 = ph_next h"
    using ha Cons.prems(2)
    by (auto simp: h1a_def pools_ok_def update_pool_def alloc_pool_def reloaded_def split: option.splits)
  have ok1: "pools_ok h1 current"
    using Cons.prems(2) h1(1) unfolding pools_ok_def by (meson less_le_trans)
  have same: "ph_pool h1 a = ph_pool h a" if "a < ph_next h" "mget current n \<noteq> Some a" for a
    using that ha by (auto simp: h1a_def update_pool_def alloc_pool_def split: option.splits)
  note frame = updatePools_frame [OF u ok1]
  show ?case
  proof (cases "name = n")
    case True
    have "\<forall>k \<in> set (mkeys backends). mget current k \<noteq> Some a1"
    proof
      fix k assume k: "k \<in> set (mkeys backends)"
      then have "k \<noteq> n" using Cons.prems(3) by (auto simp: x map_ok_def mkeys_def)
      then show "mget current k \<noteq> Some a1"
        using h1(4) Cons.prems(2) unfolding pools_ok_def by (cases "mget current n") fastforce+
    qed
    then have "ph_pool h' a1 = ph_pool h1 a1"
      using frame h1(2) by blast
    moreover have "be = b" using Cons.prems(4) True by (simp add: x mget_Cons)
    ultimately show ?thesis
      using True h1 frame by (auto simp: pools mget_Cons split: option.splits)
  next
    case False
    have m: "mget backends name = Some be" "map_ok backends"
      using Cons.prems(3,4) False by (simp_all add: x mget_Cons map_ok_def mkeys_def)
    have "reloaded h1 (mget current name) be = reloaded h (mget current name) be"
    proof (cases "mget current name")
      case (Some a)
      then have "a < ph_next h" "mget current n \<noteq> Some a"
        using Cons.prems(2) False unfolding pools_ok_def by blast+
      then show ?thesis using same Some by (simp add: reloaded_def)
    qed (simp add: reloaded_def)
    with Cons.IH [OF u ok1 m(2,1)] False h1(1) show ?thesis
      by (auto simp: pools mget_Cons split: option.splits)
  qed
qed simp

section \<open>Properties\<close>

text \<open>Reloading the configuration: every database that the new file maps to a backend is served by the pool of
  that backend, with the primary and the replicas of the file, whatever pools there were before. A backend that
  stays keeps its pool, updated in place, so that the connections that use it see the change and the health
  of its replicas is kept; the pools of backends that are gone are left as they are.\<close>

lemma reload_serves_databases:
  fixes lib :: "('f, 'x) ini_lib"
  assumes "pools_ok h current" and "mget (pc_DBMap pcfg) db = Some name"
    and pcfg: "pcfg = loadProxyConfig lib cfg protocol defaultListen"
    and upd: "updatePools h current (pc_Backends pcfg) = (h', pools)"
  shows "shard_name pcfg db = name \<and>
    (\<exists>be a. mget (pc_Backends pcfg) name = Some be \<and> be_Primary be \<noteq> [] \<and> mget pools name = Some a \<and>
       GetPrimary (ph_pool h' a) = be_Primary be \<and> pool_replicas (ph_pool h' a) = be_Replicas be \<and>
       (\<forall>a0. mget current name = Some a0 \<longrightarrow>
          a = a0 \<and> ph_pool h' a0 = UpdateReplicas (ph_pool h a0) (be_Primary be) (be_Replicas be))) \<and>
    (\<forall>a < ph_next h. (\<forall>n. mget current n = Some a \<longrightarrow> mget (pc_Backends pcfg) n = None) \<longrightarrow> ph_pool h' a = ph_pool h a)"
proof -
  have ok: "config_ok pcfg"
    using loadProxyConfig_ok pcfg by simp
  then obtain be where be: "mget (pc_Backends pcfg) name = Some be" "be_Primary be \<noteq> []"
    using assms(2) unfolding config_ok_def by (metis option.exhaust)
  obtain a where a: "mget pools name = Some a" "ph_pool h' a = reloaded h (mget current name) be"
      "case mget current name of Some a0 \<Rightarrow> a = a0 | None \<Rightarrow> ph_next h \<le> a"
    using updatePools_spec [OF upd assms(1) _ be(1)] ok by (auto simp: config_ok_def)
  have "GetPrimary (ph_pool h' a) = be_Primary be" "pool_replicas (ph_pool h' a) = be_Replicas be"
    by (simp_all add: a(2) reloaded_def GetPrimary_def UpdateReplicas_def NewPool_def split: option.splits)
  moreover have "\<forall>a0. mget current name = Some a0 \<longrightarrow>
      a = a0 \<and> ph_pool h' a0 = UpdateReplicas (ph_pool h a0) (be_Primary be) (be_Replicas be)"
    using a(2,3) by (auto simp: reloaded_def)
  moreover have "\<forall>a < ph_next h. (\<forall>n. mget current n = Some a \<longrightarrow> mget (pc_Backends pcfg) n = None) \<longrightarrow> ph_pool h' a = ph_pool h a"
    using updatePools_frame [OF upd assms(1)] by (auto simp: set_mkeys)
  ultimately show ?thesis
    using shard_name_mapped [OF ok assms(2)] be a(1) by blast
qed

text \<open>A document as the list of its sections, for an instance.\<close>

type_synonym section_list = "(string \<times> (string \<times> string) list) list"

definition sample_ini :: "(section_list, string \<times> (string \<times> string) list) ini_lib" where
  "sample_ini = \<lparr>ini_Load = (\<lambda>path. Inl path),
     ini_Section = (\<lambda>f n. (n, case map_of f n of Some ks \<Rightarrow> ks | None \<Rightarrow> [])),
     ini_Sections = (\<lambda>f. f), sec_Name = fst, sec_HasKey = (\<lambda>(n, ks) k. map_of ks k \<noteq> None),
     key_String = (\<lambda>(n, ks) k. case map_of ks k of Some v \<Rightarrow> v | None \<Rightarrow> []),
     key_MustString = (\<lambda>(n, ks) k d. case map_of ks k of Some v \<Rightarrow> v | None \<Rightarrow> d),
     key_MustInt = (\<lambda>(n, ks) k d. d)\<rparr>"

definition sample_document :: section_list where
  "sample_document = [(''mariadb'', []), (''mariadb.main'', [(''primary'', ''a:1''), (''databases'', ''app, shop'')])]"

lemma reload_serves_databases_witness:
  "\<exists>h' pools a. updatePools \<lparr>ph_pool = (\<lambda>_. NewPool ''old:1'' []), ph_next = 1\<rparr> [(''main'', 0)]
       (pc_Backends (loadProxyConfig sample_ini sample_document ''mariadb'' '':3307'')) = (h', pools) \<and>
     shard_name (loadProxyConfig sample_ini sample_document ''mariadb'' '':3307'') ''shop'' = ''main'' \<and>
     mget pools ''main'' = Some a \<and> a = 0"
proof -
  let ?h = "\<lparr>ph_pool = (\<lambda>_. NewPool ''old:1'' []), ph_next = 1\<rparr>"
  let ?pcfg = "loadProxyConfig sample_ini sample_document ''mariadb'' '':3307''"
  obtain h' pools where u: "updatePools ?h [(''main'', 0)] (pc_Backends ?pcfg) = (h', pools)"
    by (cases "updatePools ?h [(''main'', 0)] (pc_Backends ?pcfg)")
  have ok: "pools_ok ?h [(''main'', 0)]"
    by (simp add: pools_ok_def mget_def)
  have db: "mget (pc_DBMap ?pcfg) ''shop'' = Some ''main''"
    by code_simp
  have c: "mget [(''main'', 0 :: nat)] ''main'' = Some 0"
    by (simp add: mget_def)
  show ?thesis
    using reload_serves_databases [OF ok db refl u] u c by blast
qed

text \<open>An empty list of databases maps the empty name: sessions without a database then go to this backend and
  not to the default one. For the replicas the code has the test that is missing here.\<close>

lemma empty_databases_capture_default:
  "shard_name (loadProxyConfig sample_ini
       [(''mariadb'', []), (''mariadb.main'', [(''primary'', ''a:1'')]),
        (''mariadb.aux'', [(''primary'', ''b:1''), (''databases'', []), (''replicas'', [])])] ''mariadb'' '':3307'') [] = ''aux''"
  by code_simp

end
