(* ===== verification/Caching.thy ===== *)
theory Caching
  imports Prelude
begin

text \<open>
  The query cache, \<^verbatim>\<open>cache/cache.go\<close>: a TQMemory store and the table of in-flight requests that lets one
  request fetch a missing key while the others wait. The store is third-party code: its functions are
  the record \<open>tqmemory\<close>, an argument of the definitions. The operations are functions on the state of
  the cache; the requests that run at the same time are the step relation \<open>cstep\<close>, at the grain of the
  code's atomic accesses (one access of the store, one \<^verbatim>\<open>LoadOrStore\<close> or \<^verbatim>\<open>LoadAndDelete\<close>, one close of a
  channel). The lemmas show that no channel is closed twice and that no waiting request is forgotten.
\<close>

section \<open>State and operations\<close>

text \<open>
  The functions of \<^verbatim>\<open>tqmemory.ShardedCache\<close>: \<^verbatim>\<open>Get\<close> gives an error or a value (which may be nil) with its
  flags, and may change the store, since the first access to a stale value marks it.
\<close>

record 's tqmemory =
  tq_Get :: "'s \<Rightarrow> string \<Rightarrow> 's \<times> (string + bytes option \<times> int)"
  tq_Set :: "'s \<Rightarrow> string \<Rightarrow> bytes \<Rightarrow> int \<Rightarrow> 's"
  tq_Delete :: "'s \<Rightarrow> string \<Rightarrow> 's"

abbreviation FlagFresh :: int where "FlagFresh \<equiv> 0"
abbreviation FlagStale :: int where "FlagStale \<equiv> 1"
abbreviation FlagRefresh :: int where "FlagRefresh \<equiv> 3"

text \<open>
  A flight is its \<^verbatim>\<open>done\<close> channel, a number. The state has the channels that are closed and the next number
  that \<^verbatim>\<open>make\<close> hands out. The \<^verbatim>\<open>value\<close> field of a flight is never used by the code.
\<close>

record 's Cache =
  cache_store :: 's
  cache_inflight :: "(string, nat) gomap"
  cache_closed :: "nat list"
  cache_next :: nat

definition New_cache :: "'s \<Rightarrow> 's Cache" where
  "New_cache s = \<lparr>cache_store = s, cache_inflight = [], cache_closed = [], cache_next = 0\<rparr>"

text \<open>
  The configuration of the cache; the multiplier is in thousandths. \<open>sharded\<close> stands for \<^verbatim>\<open>tqmemory.NewSharded\<close> on the default
  configuration of the store with these two values, and a number of workers.
\<close>

record CacheConfig =
  cac_MaxMemory :: int
  cac_Workers :: int
  cac_StaleMultiplier :: int

definition DefaultCacheConfig :: CacheConfig where
  "DefaultCacheConfig = \<lparr>cac_MaxMemory = 64 * 1024 * 1024, cac_Workers = 4, cac_StaleMultiplier = 2000\<rparr>"

definition cache_New :: "(int \<Rightarrow> int \<Rightarrow> int \<Rightarrow> string + 's) \<Rightarrow> CacheConfig \<Rightarrow> string + 's Cache" where
  "cache_New sharded cfg =
     (case sharded (cac_MaxMemory cfg) (cac_StaleMultiplier cfg) (cac_Workers cfg) of
        Inl err \<Rightarrow> Inl err
      | Inr store \<Rightarrow> Inr (New_cache store))"

definition Get :: "'s tqmemory \<Rightarrow> 's Cache \<Rightarrow> string \<Rightarrow> 's Cache \<times> bytes option \<times> int \<times> bool" where
  "Get ops c key =
     (case tq_Get ops (cache_store c) key of
        (s, Inl err) \<Rightarrow> (c\<lparr>cache_store := s\<rparr>, None, 0, False)
      | (s, Inr (None, flags)) \<Rightarrow> (c\<lparr>cache_store := s\<rparr>, None, 0, False)
      | (s, Inr (Some value, flags)) \<Rightarrow> (c\<lparr>cache_store := s\<rparr>, Some value, flags, True))"

text \<open>\<^verbatim>\<open>LoadOrStore\<close> with the fresh flight that \<open>GetOrWait\<close> makes for it: the flight under the key, and whether
  it was there before.\<close>

definition LoadOrStore :: "'s Cache \<Rightarrow> string \<Rightarrow> 's Cache \<times> nat \<times> bool" where
  "LoadOrStore c key =
     (let f = cache_next c; c' = c\<lparr>cache_next := f + 1\<rparr>
      in case mget (cache_inflight c) key of
           Some existing \<Rightarrow> (c', existing, True)
         | None \<Rightarrow> (c'\<lparr>cache_inflight := mset_key (cache_inflight c) key f\<rparr>, f, False))"

definition LoadAndDelete :: "'s Cache \<Rightarrow> string \<Rightarrow> 's Cache \<times> nat option" where
  "LoadAndDelete c key =
     (case mget (cache_inflight c) key of
        None \<Rightarrow> (c, None)
      | Some f \<Rightarrow> (c\<lparr>cache_inflight := mdelete (cache_inflight c) key\<rparr>, Some f))"

definition close_done :: "'s Cache \<Rightarrow> nat \<Rightarrow> panic + 's Cache" where
  "close_done c f =
     (if f \<in> set (cache_closed c) then Inl CloseOfClosedChannel
      else Inr (c\<lparr>cache_closed := f # cache_closed c\<rparr>))"

text \<open>
  The select of \<open>GetOrWait\<close>: \<open>wait c f\<close> is the state of the cache when a request that waits for the flight
  \<open>f\<close> goes on, and whether the channel was closed or the 15 seconds were over.
\<close>

datatype wake = DoneClosed | SafetyTimeout

definition GetOrWait ::
  "'s tqmemory \<Rightarrow> ('s Cache \<Rightarrow> nat \<Rightarrow> 's Cache \<times> wake) \<Rightarrow> 's Cache \<Rightarrow> string
   \<Rightarrow> 's Cache \<times> bytes option \<times> int \<times> bool \<times> bool" where
  "GetOrWait ops wait c key =
     (case Get ops c key of
        (c1, value, flags, True) \<Rightarrow> (c1, value, flags, True, False)
      | (c1, _, _, False) \<Rightarrow>
          (case LoadOrStore c1 key of
             (c2, f, True) \<Rightarrow>
               (case wait c2 f of
                  (c3, DoneClosed) \<Rightarrow>
                    (case Get ops c3 key of
                       (c4, value, flags, True) \<Rightarrow> (c4, value, flags, True, True)
                     | (c4, _, _, False) \<Rightarrow> (c4, None, 0, False, True))
                | (c3, SafetyTimeout) \<Rightarrow> (c3, None, 0, False, True))
           | (c2, f, False) \<Rightarrow> (c2, None, 0, False, False)))"

definition Set :: "'s tqmemory \<Rightarrow> 's Cache \<Rightarrow> string \<Rightarrow> bytes \<Rightarrow> int \<Rightarrow> 's Cache" where
  "Set ops c key value ttl =
     (if ttl > 0 then c\<lparr>cache_store := tq_Set ops (cache_store c) key value ttl\<rparr> else c)"

definition CancelInflight :: "'s Cache \<Rightarrow> string \<Rightarrow> panic + 's Cache" where
  "CancelInflight c key =
     (case LoadAndDelete c key of
        (c', Some f) \<Rightarrow> close_done c' f
      | (c', None) \<Rightarrow> Inr c')"

definition SetAndNotify :: "'s tqmemory \<Rightarrow> 's Cache \<Rightarrow> string \<Rightarrow> bytes \<Rightarrow> int \<Rightarrow> panic + 's Cache" where
  "SetAndNotify ops c key value ttl =
     (let c1 = (if ttl > 0 then c\<lparr>cache_store := tq_Set ops (cache_store c) key value ttl\<rparr> else c)
      in case LoadAndDelete c1 key of
           (c2, Some f) \<Rightarrow> close_done c2 f
         | (c2, None) \<Rightarrow> Inr c2)"

definition Delete :: "'s tqmemory \<Rightarrow> 's Cache \<Rightarrow> string \<Rightarrow> 's Cache" where
  "Delete ops c key = c\<lparr>cache_store := tq_Delete ops (cache_store c) key\<rparr>"

text \<open>
  The TTL of a parsed query in nanoseconds, \<^verbatim>\<open>time.Duration(parsed.TTL) * time.Second\<close>, as both proxies
  compute it: a signed 64-bit product.
\<close>

definition ttl_duration :: "int \<Rightarrow> int" where
  "ttl_duration ttl = sint (word_of_int ttl * word_of_int 1000000000 :: 64 word)"

section \<open>Concurrent requests\<close>

text \<open>
  A request of a proxy for a cacheable query (\<^verbatim>\<open>handleSingleQuery\<close> and its likes): it asks the cache
  (\<open>Get\<close>), then runs \<open>GetOrWait\<close>, and unless it is served it fetches from the database and ends with
  \<open>SetAndNotify\<close> or \<open>CancelInflight\<close>. A control point is the work that is left:
  \<open>Asked\<close> the first Get missed, or hit a stale value to be refreshed; \<open>Missed\<close> the Get inside
  \<open>GetOrWait\<close> missed; \<open>Waiting\<close> in the select; \<open>Woken\<close> the channel was closed; \<open>Fetching\<close> talks to the
  database; \<open>Notifying\<close> before \<^verbatim>\<open>LoadAndDelete\<close>; \<open>Closing\<close> before the close of the channel it took.
\<close>

datatype pc =
    Idle
  | Asked string
  | Missed string
  | Waiting string nat
  | Woken string
  | Fetching string
  | Notifying string
  | Closing nat
  | Served
  | Panicked

record 's csys =
  sys_cache :: "'s Cache"
  sys_pc :: "nat \<Rightarrow> pc"

definition goto :: "'s csys \<Rightarrow> nat \<Rightarrow> 's Cache \<Rightarrow> pc \<Rightarrow> 's csys" where
  "goto s t c l = \<lparr>sys_cache = c, sys_pc = (sys_pc s)(t := l)\<rparr>"

text \<open>The action of each step but the timeout: \<open>cnext ops s t a\<close> is the state after request \<open>t\<close> did \<open>a\<close>, if
  it can.\<close>

datatype action =
    Ask string
  | Enter
  | Register
  | Wake
  | Reread
  | Store bytes int
  | Abandon
  | Take
  | CloseDone
  | Finish

fun cnext :: "'s tqmemory \<Rightarrow> 's csys \<Rightarrow> nat \<Rightarrow> action \<Rightarrow> 's csys option" where
  "cnext ops s t (Ask key) =
     (if sys_pc s t = Idle then
        (case Get ops (sys_cache s) key of
           (c, value, flags, ok) \<Rightarrow>
             Some (goto s t c (if ok \<and> (flags = FlagFresh \<or> flags = FlagStale) then Served else Asked key)))
      else None)"
| "cnext ops s t Enter =
     (case sys_pc s t of
        Asked key \<Rightarrow>
          (case Get ops (sys_cache s) key of
             (c, value, flags, ok) \<Rightarrow> Some (goto s t c (if ok then Fetching key else Missed key)))
      | _ \<Rightarrow> None)"
| "cnext ops s t Register =
     (case sys_pc s t of
        Missed key \<Rightarrow>
          (case LoadOrStore (sys_cache s) key of
             (c, f, loaded) \<Rightarrow> Some (goto s t c (if loaded then Waiting key f else Fetching key)))
      | _ \<Rightarrow> None)"
| "cnext ops s t Wake =
     (case sys_pc s t of
        Waiting key f \<Rightarrow>
          if f \<in> set (cache_closed (sys_cache s)) then Some (goto s t (sys_cache s) (Woken key)) else None
      | _ \<Rightarrow> None)"
| "cnext ops s t Reread =
     (case sys_pc s t of
        Woken key \<Rightarrow>
          (case Get ops (sys_cache s) key of
             (c, value, flags, ok) \<Rightarrow> Some (goto s t c (if ok then Served else Fetching key)))
      | _ \<Rightarrow> None)"
| "cnext ops s t (Store value ttl) =
     (case sys_pc s t of
        Fetching key \<Rightarrow> Some (goto s t (Set ops (sys_cache s) key value ttl) (Notifying key))
      | _ \<Rightarrow> None)"
| "cnext ops s t Abandon =
     (case sys_pc s t of
        Fetching key \<Rightarrow> Some (goto s t (sys_cache s) (Notifying key))
      | _ \<Rightarrow> None)"
| "cnext ops s t Take =
     (case sys_pc s t of
        Notifying key \<Rightarrow>
          (case LoadAndDelete (sys_cache s) key of
             (c, Some f) \<Rightarrow> Some (goto s t c (Closing f))
           | (c, None) \<Rightarrow> Some (goto s t c Served))
      | _ \<Rightarrow> None)"
| "cnext ops s t CloseDone =
     (case sys_pc s t of
        Closing f \<Rightarrow>
          (case close_done (sys_cache s) f of
             Inl e \<Rightarrow> Some (goto s t (sys_cache s) Panicked)
           | Inr c \<Rightarrow> Some (goto s t c Served))
      | _ \<Rightarrow> None)"
| "cnext ops s t Finish =
     (if sys_pc s t = Served then Some (goto s t (sys_cache s) Idle) else None)"

inductive cstep :: "'s tqmemory \<Rightarrow> 's csys \<Rightarrow> 's csys \<Rightarrow> bool" for ops where
  act: "cnext ops s t a = Some s' \<Longrightarrow> cstep ops s s'"
| timeout: "sys_pc s t = Waiting key f \<Longrightarrow> cstep ops s (goto s t (sys_cache s) (Fetching key))"

text \<open>Runs of the proxy's requests from an empty cache, and runs that make no use of the safety timeout.\<close>

inductive creach :: "'s tqmemory \<Rightarrow> 's csys \<Rightarrow> bool" for ops where
  start: "creach ops \<lparr>sys_cache = New_cache st, sys_pc = (\<lambda>_. Idle)\<rparr>"
| step: "creach ops s \<Longrightarrow> cstep ops s s' \<Longrightarrow> creach ops s'"

fun crun :: "'s tqmemory \<Rightarrow> 's csys \<Rightarrow> (nat \<times> action) list \<Rightarrow> 's csys option" where
  "crun ops s [] = Some s"
| "crun ops s ((t, a) # as) =
     (case cnext ops s t a of None \<Rightarrow> None | Some s' \<Rightarrow> crun ops s' as)"

section \<open>The table of flights\<close>

definition flight_of :: "'s Cache \<Rightarrow> string \<Rightarrow> nat option" where
  "flight_of c = mget (cache_inflight c)"

definition is_closed :: "'s Cache \<Rightarrow> nat \<Rightarrow> bool" where
  "is_closed c f \<longleftrightarrow> f \<in> set (cache_closed c)"

definition is_used :: "'s Cache \<Rightarrow> nat \<Rightarrow> bool" where
  "is_used c f \<longleftrightarrow> f < cache_next c"

definition cache_ok :: "'s Cache \<Rightarrow> bool" where
  "cache_ok c \<longleftrightarrow>
     (\<forall>k f. flight_of c k = Some f \<longrightarrow> is_used c f \<and> \<not> is_closed c f) \<and>
     (\<forall>k k' f. flight_of c k = Some f \<longrightarrow> flight_of c k' = Some f \<longrightarrow> k = k') \<and>
     (\<forall>f. is_closed c f \<longrightarrow> is_used c f)"

text \<open>
  What the requests rely on: a flight is handed out for one key only, and whoever takes it from the
  table is the only one who can close its channel.
\<close>

locale single_flight =
  fixes ok :: "'c \<Rightarrow> bool"
    and pending :: "'c \<Rightarrow> string \<Rightarrow> nat option"
    and closed :: "'c \<Rightarrow> nat \<Rightarrow> bool"
    and used :: "'c \<Rightarrow> nat \<Rightarrow> bool"
    and join :: "'c \<Rightarrow> string \<Rightarrow> 'c \<times> nat \<times> bool"
    and take_off :: "'c \<Rightarrow> string \<Rightarrow> 'c \<times> nat option"
    and shut :: "'c \<Rightarrow> nat \<Rightarrow> panic + 'c"
  assumes pending_open: "ok c \<Longrightarrow> pending c k = Some f \<Longrightarrow> used c f \<and> \<not> closed c f"
    and pending_inj: "ok c \<Longrightarrow> pending c k = Some f \<Longrightarrow> pending c k' = Some f \<Longrightarrow> k = k'"
    and join_loaded: "ok c \<Longrightarrow> join c k = (c', f, True) \<Longrightarrow>
       ok c' \<and> pending c k = Some f \<and> pending c' = pending c \<and> closed c' = closed c"
    and join_new: "ok c \<Longrightarrow> join c k = (c', f, False) \<Longrightarrow>
       ok c' \<and> pending c k = None \<and> \<not> used c f \<and> pending c' = (pending c)(k \<mapsto> f) \<and> closed c' = closed c"
    and join_used: "ok c \<Longrightarrow> join c k = (c', f, loaded) \<Longrightarrow> used c g \<Longrightarrow> used c' g"
    and take_off: "ok c \<Longrightarrow> take_off c k = (c', r) \<Longrightarrow>
       ok c' \<and> r = pending c k \<and> pending c' = (pending c)(k := None) \<and> closed c' = closed c \<and> used c' = used c"
    and shut: "ok c \<Longrightarrow> used c f \<Longrightarrow> \<not> closed c f \<Longrightarrow> (\<And>k. pending c k \<noteq> Some f) \<Longrightarrow>
       \<exists>c'. shut c f = Inr c' \<and> ok c' \<and> pending c' = pending c \<and> closed c' = (closed c)(f := True) \<and> used c' = used c"
begin

text \<open>Taking a flight and closing it at once never panics, and wakes exactly the waiters of the key.\<close>

definition notify :: "'c \<Rightarrow> string \<Rightarrow> panic + 'c" where
  "notify c k = (case take_off c k of (c', Some f) \<Rightarrow> shut c' f | (c', None) \<Rightarrow> Inr c')"

lemma notify_ok:
  assumes "ok c"
  shows "\<exists>c'. notify c k = Inr c' \<and> ok c' \<and> pending c' = (pending c)(k := None) \<and>
    (\<forall>f. closed c' f \<longleftrightarrow> closed c f \<or> pending c k = Some f)"
proof -
  obtain c1 r where t: "take_off c k = (c1, r)"
    by (cases "take_off c k")
  note facts = take_off [OF assms t]
  show ?thesis
  proof (cases r)
    case None
    with facts t show ?thesis by (simp add: notify_def)
  next
    case (Some f)
    with facts have f: "pending c k = Some f" by simp
    have other: "pending c1 k' \<noteq> Some f" for k'
      using facts f pending_inj [OF assms f, of k'] by auto
    have "ok c1" "used c1 f" "\<not> closed c1 f"
      using facts pending_open [OF assms f] by simp_all
    from shut [OF this other] obtain c2 where c2: "shut c1 f = Inr c2" "ok c2"
      "pending c2 = pending c1" "closed c2 = (closed c1)(f := True)"
      by blast
    have "\<forall>g. closed c2 g \<longleftrightarrow> closed c g \<or> pending c k = Some g"
      using c2(4) facts f by auto
    with c2 t Some facts show ?thesis by (simp add: notify_def)
  qed
qed

end

lemma flight_simps [simp]:
  "flight_of (c\<lparr>cache_store := s\<rparr>) = flight_of c"
  "flight_of (c\<lparr>cache_closed := l\<rparr>) = flight_of c"
  "flight_of (c\<lparr>cache_next := n\<rparr>) = flight_of c"
  "is_closed (c\<lparr>cache_store := s\<rparr>) = is_closed c"
  "is_closed (c\<lparr>cache_inflight := m\<rparr>) = is_closed c"
  "is_closed (c\<lparr>cache_next := n\<rparr>) = is_closed c"
  "is_used (c\<lparr>cache_store := s\<rparr>) = is_used c"
  "is_used (c\<lparr>cache_inflight := m\<rparr>) = is_used c"
  "is_used (c\<lparr>cache_closed := l\<rparr>) = is_used c"
  "flight_of (c\<lparr>cache_inflight := m\<rparr>) = mget m"
  by (simp_all add: flight_of_def is_closed_def is_used_def fun_eq_iff)

lemma cache_ok_frame:
  "flight_of c' = flight_of c \<Longrightarrow> is_closed c' = is_closed c \<Longrightarrow> is_used c' = is_used c \<Longrightarrow> cache_ok c' = cache_ok c"
  by (simp add: cache_ok_def)

interpretation flights: single_flight cache_ok flight_of is_closed is_used LoadOrStore LoadAndDelete close_done
proof unfold_locales
  fix c :: "'s Cache" and c' k k' f g r loaded
  assume ok: "cache_ok c"
  show "flight_of c k = Some f \<Longrightarrow> is_used c f \<and> \<not> is_closed c f"
    and "flight_of c k = Some f \<Longrightarrow> flight_of c k' = Some f \<Longrightarrow> k = k'"
    using ok unfolding cache_ok_def by blast+
  show "cache_ok c' \<and> flight_of c k = Some f \<and> flight_of c' = flight_of c \<and> is_closed c' = is_closed c"
    if "LoadOrStore c k = (c', f, True)"
    using that ok
    by (auto simp: LoadOrStore_def Let_def flight_of_def cache_ok_def is_closed_def is_used_def less_Suc_eq split: option.splits)
  show "cache_ok c' \<and> flight_of c k = None \<and> \<not> is_used c f \<and> flight_of c' = (flight_of c)(k \<mapsto> f) \<and> is_closed c' = is_closed c"
    if "LoadOrStore c k = (c', f, False)"
    using that ok
    by (fastforce simp: LoadOrStore_def Let_def flight_of_def cache_ok_def is_closed_def is_used_def fun_eq_iff split: option.splits if_splits)
  show "is_used c' g" if "LoadOrStore c k = (c', f, loaded)" "is_used c g"
    using that by (auto simp: LoadOrStore_def Let_def is_used_def split: option.splits)
  show "cache_ok c' \<and> r = flight_of c k \<and> flight_of c' = (flight_of c)(k := None) \<and> is_closed c' = is_closed c \<and> is_used c' = is_used c"
    if "LoadAndDelete c k = (c', r)"
    using that ok
    by (auto simp: LoadAndDelete_def flight_of_def cache_ok_def is_closed_def is_used_def fun_eq_iff split: option.splits if_splits)
  show "\<exists>c'. close_done c f = Inr c' \<and> cache_ok c' \<and> flight_of c' = flight_of c \<and>
      is_closed c' = (is_closed c)(f := True) \<and> is_used c' = is_used c"
    if "is_used c f" "\<not> is_closed c f" "\<And>k. flight_of c k \<noteq> Some f"
    using that ok
    by (auto simp: close_done_def flight_of_def cache_ok_def is_closed_def is_used_def fun_eq_iff)
qed

section \<open>The invariant of the requests\<close>

lemma Get_frame:
  assumes "Get ops c key = (c', r)"
  shows "flight_of c' = flight_of c" and "is_closed c' = is_closed c" and "is_used c' = is_used c"
  using assms by (auto simp: Get_def split: prod.splits sum.splits option.splits)

lemma Set_frame [simp]:
  "flight_of (Set ops c key v ttl) = flight_of c"
  "is_closed (Set ops c key v ttl) = is_closed c"
  "is_used (Set ops c key v ttl) = is_used c"
  by (simp_all add: Set_def)

lemma goto_sel [simp]:
  "sys_cache (goto s t c l) = c"
  "sys_pc (goto s t c l) = (sys_pc s)(t := l)"
  by (simp_all add: goto_def)

text \<open>
  A waiting request's flight is in the table, or taken by a request that is about to close it, or
  closed; a flight in the table belongs to a request that has still to notify its key; a flight that was
  taken is in the hands of one request only.
\<close>

definition awaited :: "'s Cache \<Rightarrow> (nat \<Rightarrow> pc) \<Rightarrow> string \<Rightarrow> nat \<Rightarrow> bool" where
  "awaited c pcs k f \<longleftrightarrow> is_closed c f \<or> flight_of c k = Some f \<or> (\<exists>t. pcs t = Closing f)"

definition cinv :: "'s csys \<Rightarrow> bool" where
  "cinv s \<longleftrightarrow> (let c = sys_cache s; pcs = sys_pc s in
     cache_ok c \<and>
     (\<forall>t k f. pcs t = Waiting k f \<longrightarrow> awaited c pcs k f) \<and>
     (\<forall>k f. flight_of c k = Some f \<longrightarrow> (\<exists>t. pcs t = Fetching k \<or> pcs t = Notifying k)) \<and>
     (\<forall>t f. pcs t = Closing f \<longrightarrow> is_used c f \<and> \<not> is_closed c f \<and> (\<forall>k. flight_of c k \<noteq> Some f)) \<and>
     (\<forall>t t' f. pcs t = Closing f \<longrightarrow> pcs t' = Closing f \<longrightarrow> t = t') \<and>
     (\<forall>t. pcs t \<noteq> Panicked))"

lemma cinvD:
  assumes "cinv s"
  shows "cache_ok (sys_cache s)"
    and "sys_pc s t = Waiting k f \<Longrightarrow> awaited (sys_cache s) (sys_pc s) k f"
    and "flight_of (sys_cache s) k = Some f \<Longrightarrow> \<exists>t. sys_pc s t = Fetching k \<or> sys_pc s t = Notifying k"
    and "sys_pc s t = Closing f \<Longrightarrow>
      is_used (sys_cache s) f \<and> \<not> is_closed (sys_cache s) f \<and> (\<forall>k. flight_of (sys_cache s) k \<noteq> Some f)"
    and "sys_pc s t = Closing f \<Longrightarrow> sys_pc s t' = Closing f \<Longrightarrow> t = t'"
    and "sys_pc s t \<noteq> Panicked"
  using assms unfolding cinv_def Let_def by blast+

text \<open>A control point that holds no duty: leaving it loses nothing the invariant needs.\<close>

definition no_duty :: "pc \<Rightarrow> bool" where
  "no_duty l \<longleftrightarrow> (\<forall>k. l \<noteq> Fetching k \<and> l \<noteq> Notifying k) \<and> (\<forall>f. l \<noteq> Closing f)"

lemma duty_upd: "\<exists>u. P (pcs u) \<Longrightarrow> \<not> P (pcs t) \<Longrightarrow> \<exists>u. P ((pcs(t := l)) u)"
  by (metis fun_upd_other)

lemma cinv_move:
  assumes inv: "cinv s" and "no_duty (sys_pc s t)"
    and frame: "flight_of c = flight_of (sys_cache s)" "is_closed c = is_closed (sys_cache s)"
      "is_used c = is_used (sys_cache s)"
    and "\<And>f. l \<noteq> Closing f" and "\<And>k f. l \<noteq> Waiting k f" and "l \<noteq> Panicked"
  shows "cinv (goto s t c l)"
proof -
  have c: "cache_ok c"
    using cinvD(1) [OF inv] cache_ok_frame [OF frame] by simp
  have keep: "u \<noteq> t" if "sys_pc s u = Fetching k \<or> sys_pc s u = Notifying k \<or> sys_pc s u = Closing f" for u k f
    using that assms(2) by (auto simp: no_duty_def)
  have a: "awaited c ((sys_pc s)(t := l)) k f" if "awaited (sys_cache s) (sys_pc s) k f" for k f
    using that keep unfolding awaited_def frame by (metis fun_upd_other)
  have o: "\<exists>u. ((sys_pc s)(t := l)) u = Fetching k \<or> ((sys_pc s)(t := l)) u = Notifying k"
    if "flight_of (sys_cache s) k = Some f" for k f
    using cinvD(3) [OF inv that] keep by (metis fun_upd_other)
  show ?thesis
    unfolding cinv_def Let_def goto_sel
    using c a o cinvD(2,4,5,6) [OF inv] assms(6-8) frame by (auto split: if_splits)
qed

lemma cinv_step_register:
  assumes inv: "cinv s" and pc: "sys_pc s t = Missed key" and l: "LoadOrStore (sys_cache s) key = (c, f, loaded)"
  shows "cinv (goto s t c (if loaded then Waiting key f else Fetching key))"
proof (cases loaded)
  case True
  with l have "LoadOrStore (sys_cache s) key = (c, f, True)" by simp
  note j = flights.join_loaded [OF cinvD(1) [OF inv] this]
  have keep: "u \<noteq> t" if "sys_pc s u = Fetching k \<or> sys_pc s u = Notifying k \<or> sys_pc s u = Closing g" for u k g
    using that pc by auto
  have a: "awaited c ((sys_pc s)(t := l)) k g" if "awaited (sys_cache s) (sys_pc s) k g" for k g l
    using that keep j unfolding awaited_def by (metis fun_upd_other)
  have o: "\<exists>u. ((sys_pc s)(t := l)) u = Fetching k \<or> ((sys_pc s)(t := l)) u = Notifying k"
    if "flight_of (sys_cache s) k = Some g" for k g l
    using cinvD(3) [OF inv that] keep by (metis fun_upd_other)
  have "awaited c ((sys_pc s)(t := Waiting key f)) key f"
    using j by (simp add: awaited_def)
  then show ?thesis
    using True j a o cinvD(2,4,5,6) [OF inv] flights.join_used [OF cinvD(1) [OF inv] l]
    unfolding cinv_def Let_def goto_sel by (auto split: if_splits)
next
  case False
  with l have "LoadOrStore (sys_cache s) key = (c, f, False)" by simp
  note j = flights.join_new [OF cinvD(1) [OF inv] this]
  have keep: "u \<noteq> t" if "sys_pc s u = Fetching k \<or> sys_pc s u = Notifying k \<or> sys_pc s u = Closing g" for u k g
    using that pc by auto
  have a: "awaited c ((sys_pc s)(t := l)) k g" if "awaited (sys_cache s) (sys_pc s) k g" for k g l
    using that keep j unfolding awaited_def by (metis fun_upd_other option.distinct(1))
  have o: "\<exists>u. ((sys_pc s)(t := Fetching key)) u = Fetching k \<or> ((sys_pc s)(t := Fetching key)) u = Notifying k"
    if "flight_of c k = Some g" for k g
  proof (cases "k = key")
    case True
    then show ?thesis by (intro exI [of _ t]) simp
  next
    case False
    with that j have "flight_of (sys_cache s) k = Some g" by simp
    then show ?thesis using cinvD(3) [OF inv, of k g] keep by (metis fun_upd_other)
  qed
  have cl: "is_used c g \<and> \<not> is_closed c g \<and> (\<forall>k. flight_of c k \<noteq> Some g)" if "sys_pc s u = Closing g" for u g
    using cinvD(4) [OF inv that] j flights.join_used [OF cinvD(1) [OF inv] l, of g] by (auto split: if_splits)
  show ?thesis
    unfolding cinv_def Let_def goto_sel
    using False j a o cl cinvD(2,5,6) [OF inv] by (auto split: if_splits)
qed

lemma cinv_step_take:
  assumes inv: "cinv s" and pc: "sys_pc s t = Notifying key" and l: "LoadAndDelete (sys_cache s) key = (c, r)"
  shows "cinv (goto s t c (case r of Some f \<Rightarrow> Closing f | None \<Rightarrow> Served))"
proof -
  let ?l = "case r of Some f \<Rightarrow> Closing f | None \<Rightarrow> Served"
  note j = flights.take_off [OF cinvD(1) [OF inv] l]
  note fl = flights.pending_open [OF cinvD(1) [OF inv]] flights.pending_inj [OF cinvD(1) [OF inv]]
  have a: "awaited c ((sys_pc s)(t := ?l)) k g" if aw: "awaited (sys_cache s) (sys_pc s) k g" for k g
  proof (cases "flight_of (sys_cache s) k = Some g \<and> k = key")
    case True
    then show ?thesis
      using j by (auto simp: awaited_def intro!: exI [of _ t])
  next
    case False
    have "u \<noteq> t" if "sys_pc s u = Closing g" for u
      using that pc by auto
    with False aw j show ?thesis
      unfolding awaited_def by (metis fun_upd_other)
  qed
  have o: "\<exists>u. ((sys_pc s)(t := ?l)) u = Fetching k \<or> ((sys_pc s)(t := ?l)) u = Notifying k"
    if "flight_of c k = Some g" for k g
  proof -
    from that j have "flight_of (sys_cache s) k = Some g" "k \<noteq> key"
      by (auto split: if_splits)
    with cinvD(3) [OF inv, of k g] pc show ?thesis
      by (intro duty_upd [of "\<lambda>l. l = Fetching k \<or> l = Notifying k"]) auto
  qed
  have cl: "is_used c g \<and> \<not> is_closed c g \<and> (\<forall>k. flight_of c k \<noteq> Some g)"
    if u: "((sys_pc s)(t := ?l)) u = Closing g" for u g
  proof (cases "u = t")
    case True
    with u have g: "flight_of (sys_cache s) key = Some g"
      using j by (auto split: option.splits)
    have "flight_of c k \<noteq> Some g" for k
      using fl(2) [OF g, of k] j by (cases "k = key") auto
    with fl(1) [OF g] j show ?thesis by simp
  next
    case False
    with u have "sys_pc s u = Closing g" by simp
    with cinvD(4) [OF inv this] j show ?thesis by simp
  qed
  have new: "((sys_pc s)(t := ?l)) u = Closing g \<Longrightarrow>
      (if u = t then flight_of (sys_cache s) key = Some g else sys_pc s u = Closing g)" for u g
    using j by (auto split: option.splits)
  have un: "u = v" if "((sys_pc s)(t := ?l)) u = Closing g" "((sys_pc s)(t := ?l)) v = Closing g" for u v g
    using new [OF that(1)] new [OF that(2)] cinvD(5) [OF inv, of u g v] cinvD(4) [OF inv, of _ g]
    by (metis (full_types))
  have w: "awaited c ((sys_pc s)(t := ?l)) k g" if "((sys_pc s)(t := ?l)) u = Waiting k g" for u k g
    using that cinvD(2) [OF inv, of u k g] a by (auto split: if_splits option.splits)
  have p: "((sys_pc s)(t := ?l)) u \<noteq> Panicked" for u
    using cinvD(6) [OF inv, of u] by (auto split: option.splits)
  show ?thesis
    unfolding cinv_def Let_def goto_sel using j w o cl un p by blast
qed

lemma cinv_step_close:
  assumes inv: "cinv s" and pc: "sys_pc s t = Closing f"
  shows "\<exists>c. close_done (sys_cache s) f = Inr c \<and> cinv (goto s t c Served)"
proof -
  from flights.shut [OF cinvD(1) [OF inv]] cinvD(4) [OF inv pc] obtain c where
    c: "close_done (sys_cache s) f = Inr c" "cache_ok c" "flight_of c = flight_of (sys_cache s)"
      "is_closed c = (is_closed (sys_cache s))(f := True)" "is_used c = is_used (sys_cache s)"
    by blast
  have un: "g = f" if "sys_pc s t = Closing g" for g
    using that pc by simp
  have a: "awaited c ((sys_pc s)(t := Served)) k g" if "awaited (sys_cache s) (sys_pc s) k g" for k g
    using that c un unfolding awaited_def by (metis fun_upd_apply)
  have o: "\<exists>u. ((sys_pc s)(t := Served)) u = Fetching k \<or> ((sys_pc s)(t := Served)) u = Notifying k"
    if "flight_of c k = Some g" for k g
    using that cinvD(3) [OF inv, of k g] pc c(3)
    by (intro duty_upd [of "\<lambda>l. l = Fetching k \<or> l = Notifying k"]) auto
  have cl: "is_used c g \<and> \<not> is_closed c g \<and> (\<forall>k. flight_of c k \<noteq> Some g)"
    if "u \<noteq> t" "sys_pc s u = Closing g" for u g
    using that cinvD(4) [OF inv, of u g] cinvD(5) [OF inv pc, of u] c by auto
  have "cinv (goto s t c Served)"
    unfolding cinv_def Let_def goto_sel
    using c(2) a o cl cinvD(2,5,6) [OF inv] by (auto split: if_splits)
  with c(1) show ?thesis by blast
qed

lemma cinv_step_fetched:
  assumes inv: "cinv s" and pc: "sys_pc s t = Fetching key"
    and frame: "flight_of c = flight_of (sys_cache s)" "is_closed c = is_closed (sys_cache s)"
      "is_used c = is_used (sys_cache s)"
  shows "cinv (goto s t c (Notifying key))"
proof -
  let ?pc = "(sys_pc s)(t := Notifying key)"
  have c: "cache_ok c"
    using cinvD(1) [OF inv] cache_ok_frame [OF frame] by simp
  have a: "awaited c ?pc k f" if "awaited (sys_cache s) (sys_pc s) k f" for k f
    using that pc unfolding awaited_def frame by (metis fun_upd_other pc.distinct)
  have o: "\<exists>u. ?pc u = Fetching k \<or> ?pc u = Notifying k" if "flight_of c k = Some f" for k f
  proof (cases "k = key")
    case True
    then show ?thesis by (intro exI [of _ t]) simp
  next
    case False
    with that cinvD(3) [OF inv, of k f] pc frame show ?thesis
      by (intro duty_upd [of "\<lambda>l. l = Fetching k \<or> l = Notifying k"]) auto
  qed
  show ?thesis
    unfolding cinv_def Let_def goto_sel
    using c a o cinvD(2,4,5,6) [OF inv] frame by (auto split: if_splits)
qed

lemma cinv_timeout:
  assumes "cinv s" and "sys_pc s t = Waiting key f"
  shows "cinv (goto s t (sys_cache s) (Fetching key))"
  using assms by (intro cinv_move) (auto simp: no_duty_def)

lemma cinv_cnext:
  assumes inv: "cinv s" and st: "cnext ops s t a = Some s'"
  shows "cinv s'"
proof (cases a)
  case (Ask key)
  obtain c v fl ok where g: "Get ops (sys_cache s) key = (c, v, fl, ok)"
    by (cases "Get ops (sys_cache s) key")
  with Ask st show ?thesis
    by (auto split: if_splits intro!: cinv_move [OF inv] simp: no_duty_def Get_frame [OF g])
next
  case Enter
  with st obtain key where pc: "sys_pc s t = Asked key"
    by (auto split: pc.splits)
  obtain c v fl ok where g: "Get ops (sys_cache s) key = (c, v, fl, ok)"
    by (cases "Get ops (sys_cache s) key")
  with Enter st pc show ?thesis
    by (cases ok) (auto intro!: cinv_move [OF inv] simp: no_duty_def Get_frame [OF g])
next
  case Register
  with st obtain key c f loaded where "sys_pc s t = Missed key" "LoadOrStore (sys_cache s) key = (c, f, loaded)"
    "s' = goto s t c (if loaded then Waiting key f else Fetching key)"
    by (auto split: pc.splits prod.splits)
  with cinv_step_register [OF inv] show ?thesis by simp
next
  case Wake
  with st show ?thesis
    by (auto split: pc.splits if_splits intro!: cinv_move [OF inv] simp: no_duty_def)
next
  case Reread
  with st obtain key where pc: "sys_pc s t = Woken key"
    by (auto split: pc.splits)
  obtain c v fl ok where g: "Get ops (sys_cache s) key = (c, v, fl, ok)"
    by (cases "Get ops (sys_cache s) key")
  with Reread st pc show ?thesis
    by (cases ok) (auto intro!: cinv_move [OF inv] simp: no_duty_def Get_frame [OF g])
next
  case (Store v ttl)
  with st show ?thesis
    by (auto split: pc.splits intro!: cinv_step_fetched [OF inv])
next
  case Abandon
  with st show ?thesis
    by (auto split: pc.splits intro!: cinv_step_fetched [OF inv])
next
  case Take
  with st obtain key c r where "sys_pc s t = Notifying key" "LoadAndDelete (sys_cache s) key = (c, r)"
    "s' = goto s t c (case r of Some f \<Rightarrow> Closing f | None \<Rightarrow> Served)"
    by (auto split: pc.splits prod.splits option.splits)
  with cinv_step_take [OF inv] show ?thesis by simp
next
  case CloseDone
  with st obtain f where pc: "sys_pc s t = Closing f"
    by (auto split: pc.splits)
  with CloseDone st cinv_step_close [OF inv pc] show ?thesis by auto
next
  case Finish
  with st show ?thesis
    by (auto split: if_splits intro!: cinv_move [OF inv] simp: no_duty_def)
qed

lemma creach_cinv: "creach ops s \<Longrightarrow> cinv s"
proof (induction rule: creach.induct)
  case (start st)
  show ?case
    by (simp add: cinv_def Let_def cache_ok_def New_cache_def flight_of_def is_closed_def mget_def)
next
  case (step s s')
  then show ?case
    by (auto elim!: cstep.cases intro: cinv_cnext cinv_timeout)
qed

section \<open>What the operations do to the flights and to the store\<close>

text \<open>The keys in flight.\<close>

definition flights_of :: "'s Cache \<Rightarrow> string set" where
  "flights_of ch = set (mkeys (cache_inflight ch))"

lemma Get_flights: "Get ops ch key = (ch', res) \<Longrightarrow> flights_of ch' = flights_of ch"
  by (auto simp: Get_def flights_of_def split: prod.splits sum.splits option.splits)

lemma LoadAndDelete_flights: "LoadAndDelete ch key = (ch', f) \<Longrightarrow> flights_of ch' = flights_of ch - {key}"
  by (auto simp: LoadAndDelete_def flights_of_def set_mkeys split: option.splits if_splits)

lemma close_flights: "close_done ch f = Inr ch' \<Longrightarrow> flights_of ch' = flights_of ch"
  by (auto simp: close_done_def flights_of_def split: if_splits)

lemma CancelInflight_flights: "CancelInflight ch key = Inr ch' \<Longrightarrow> flights_of ch' = flights_of ch - {key}"
  by (auto simp: CancelInflight_def dest: LoadAndDelete_flights close_flights split: prod.splits option.splits)

lemma SetAndNotify_flights:
  assumes "SetAndNotify ops ch key v ttl = Inr ch'"
  shows "flights_of ch' = flights_of ch - {key}"
proof -
  have "flights_of (if ttl > 0 then ch\<lparr>cache_store := tq_Set ops (cache_store ch) key v ttl\<rparr> else ch) = flights_of ch"
    by (simp add: flights_of_def)
  with assms show ?thesis
    unfolding SetAndNotify_def Let_def
    by (auto dest!: LoadAndDelete_flights close_flights split: prod.splits option.splits)
qed

lemma GetOrWait_flights:
  assumes "GetOrWait ops wait ch key = (ch', v, flags, ok, waited)" and "\<And>ch f. flights_of (fst (wait ch f)) \<subseteq> flights_of ch"
  shows "flights_of ch' \<subseteq> (if ok then flights_of ch else insert key (flights_of ch))"
proof -
  have los: "LoadOrStore ch1 key = (ch2, f, loaded) \<Longrightarrow> flights_of ch2 \<subseteq> (if loaded then flights_of ch1 else insert key (flights_of ch1))"
    for ch1 ch2 f loaded
    by (auto simp: LoadOrStore_def flights_of_def set_mkeys Let_def split: option.splits if_splits)
  have w: "wait ch1 f = (ch2, x) \<Longrightarrow> flights_of ch2 \<subseteq> flights_of ch1" for ch1 ch2 f x
    using assms(2) [of ch1 f] by simp
  show ?thesis
    using assms(1) unfolding GetOrWait_def
    by (auto split: prod.splits bool.splits wake.splits if_splits dest!: Get_flights los w) blast+
qed

lemma LoadAndDelete_store: "LoadAndDelete ch key = (ch', f) \<Longrightarrow> cache_store ch' = cache_store ch"
  by (auto simp: LoadAndDelete_def split: option.splits)

lemma close_done_store: "close_done ch f = Inr ch' \<Longrightarrow> cache_store ch' = cache_store ch"
  by (auto simp: close_done_def split: if_splits)

lemma SetAndNotify_store:
  assumes "SetAndNotify ops ch key v ttl = Inr ch'" and "ttl > 0"
  shows "cache_store ch' = tq_Set ops (cache_store ch) key v ttl"
proof -
  obtain ch1 f where l: "LoadAndDelete (ch\<lparr>cache_store := tq_Set ops (cache_store ch) key v ttl\<rparr>) key = (ch1, f)"
    by (cases "LoadAndDelete (ch\<lparr>cache_store := tq_Set ops (cache_store ch) key v ttl\<rparr>) key")
  then show ?thesis
    using assms LoadAndDelete_store [OF l] close_done_store [of ch1 _ ch']
    by (cases f) (auto simp: SetAndNotify_def)
qed

text \<open>A store that keeps everything, for examples.\<close>

definition demo_store :: "(string \<times> bytes) list tqmemory" where
  "demo_store = \<lparr>tq_Get = (\<lambda>s k. (s, case map_of s k of Some v \<Rightarrow> Inr (Some v, FlagFresh) | None \<Rightarrow> Inl ''miss'')),
     tq_Set = (\<lambda>s k v ttl. (k, v) # s), tq_Delete = (\<lambda>s k. filter (\<lambda>e. fst e \<noteq> k) s)\<rparr>"

section \<open>Properties\<close>

lemma CancelInflight_notify: "CancelInflight = flights.notify"
  by (simp add: CancelInflight_def flights.notify_def fun_eq_iff split: prod.splits option.splits)

lemma SetAndNotify_notify: "SetAndNotify ops c key v ttl = flights.notify (Set ops c key v ttl) key"
  by (simp add: SetAndNotify_def flights.notify_def Set_def Let_def split: prod.splits option.splits)

lemma Set_cache_ok [simp]: "cache_ok (Set ops c key v ttl) = cache_ok c"
  by (rule cache_ok_frame) simp_all

lemma notify_store:
  "flights.notify c key = Inr c' \<Longrightarrow> cache_store c' = cache_store c"
  by (auto simp: flights.notify_def LoadAndDelete_def close_done_def split: option.splits if_splits)

lemma SetAndNotify_aux:
  assumes "cache_ok c"
  shows "\<exists>c'. SetAndNotify ops c key v ttl = Inr c' \<and> cache_ok c' \<and>
    cache_store c' = (if 0 < ttl then tq_Set ops (cache_store c) key v ttl else cache_store c) \<and>
    flight_of c' = (flight_of c)(key := None) \<and>
    (\<forall>f. is_closed c' f \<longleftrightarrow> is_closed c f \<or> flight_of c key = Some f)"
proof -
  from flights.notify_ok [of "Set ops c key v ttl" key] assms obtain c' where
    c': "SetAndNotify ops c key v ttl = Inr c'" "cache_ok c'" "flight_of c' = (flight_of c)(key := None)"
      "\<forall>f. is_closed c' f \<longleftrightarrow> is_closed c f \<or> flight_of c key = Some f"
    by (auto simp: SetAndNotify_notify)
  moreover have "cache_store c' = cache_store (Set ops c key v ttl)"
    using c'(1) by (intro notify_store) (simp add: SetAndNotify_notify)
  ultimately show ?thesis
    by (auto simp: Set_def)
qed

text \<open>\<open>SetAndNotify\<close> never closes a channel twice: on a well-formed cache it stores the value (when
  the TTL is positive and only then), closes exactly the channel of the flight of its key, if there is
  one, and leaves the flights of all other keys alone.\<close>

lemma SetAndNotify_wakes_waiters:
  assumes "cache_ok c"
  shows "\<exists>c'. SetAndNotify ops c key v ttl = Inr c' \<and> cache_ok c' \<and>
    cache_store c' = (if 0 < ttl then tq_Set ops (cache_store c) key v ttl else cache_store c) \<and>
    flight_of c' = (flight_of c)(key := None) \<and>
    (\<forall>f. is_closed c' f \<longleftrightarrow> is_closed c f \<or> flight_of c key = Some f)"
  by (rule SetAndNotify_aux [OF assms])

definition map_store :: "(string \<rightharpoonup> bytes) tqmemory" where
  "map_store = \<lparr>tq_Get = (\<lambda>s k. (s, case s k of None \<Rightarrow> Inl ''not found'' | Some v \<Rightarrow> Inr (Some v, 0))),
     tq_Set = (\<lambda>s k v ttl. s(k \<mapsto> v)), tq_Delete = (\<lambda>s k. s(k := None))\<rparr>"

lemma SetAndNotify_wakes_waiters_witness:
  "\<exists>c'. SetAndNotify map_store (fst (LoadOrStore (New_cache Map.empty) ''k'')) ''k'' [1] 5 = Inr c' \<and>
     is_closed c' 0 \<and> flight_of c' ''k'' = None"
proof -
  let ?c = "fst (LoadOrStore (New_cache Map.empty) ''k'') :: (string \<rightharpoonup> bytes) Cache"
  have "cache_ok ?c" and "flight_of ?c ''k'' = Some 0"
    by (auto simp: cache_ok_def LoadOrStore_def New_cache_def Let_def flight_of_def is_closed_def is_used_def
        mset_key_def mget_def split: if_splits)
  with SetAndNotify_wakes_waiters [of ?c map_store "''k''" "[1]" 5] show ?thesis by auto
qed

text \<open>C12: However the requests interleave, with timeouts, failed fetches and several requests fetching the
  same key, no request closes a channel that is closed already (which would panic), and a waiting
  request is never forgotten: its flight's channel is closed, or a request holds it and is about to close
  it, or it is in the table and a request is still fetching or about to notify its key.\<close>

theorem flights_never_closed_twice:
  assumes "creach ops s"
  shows "(\<forall>t. sys_pc s t \<noteq> Panicked) \<and>
    (\<forall>t k f. sys_pc s t = Waiting k f \<longrightarrow>
       is_closed (sys_cache s) f \<or> (\<exists>u. sys_pc s u = Closing f) \<or>
       flight_of (sys_cache s) k = Some f \<and> (\<exists>u. sys_pc s u = Fetching k \<or> sys_pc s u = Notifying k))"
  using cinvD(2,3,6) [OF creach_cinv [OF assms]] unfolding awaited_def by blast

lemma crun_reach: "creach ops s \<Longrightarrow> crun ops s as = Some s' \<Longrightarrow> creach ops s'"
  by (induction ops s as rule: crun.induct) (auto split: option.splits intro: creach.step cstep.act)

definition two_requests :: "(nat \<times> action) list" where
  "two_requests = [(0, Ask ''q''), (1, Ask ''q''), (0, Enter), (1, Enter), (0, Register), (1, Register)]"

lemma two_requests_run:
  "\<exists>s. crun map_store \<lparr>sys_cache = New_cache Map.empty, sys_pc = (\<lambda>_. Idle)\<rparr> two_requests = Some s \<and>
     sys_pc s 0 = Fetching ''q'' \<and> sys_pc s 1 = Waiting ''q'' 0"
  by (simp add: two_requests_def Get_def map_store_def New_cache_def goto_def LoadOrStore_def Let_def
      mget_def mset_key_def)

theorem flights_never_closed_twice_witness:
  "\<exists>s. creach map_store s \<and> sys_pc s 1 = Waiting ''q'' 0 \<and> (\<forall>t. sys_pc s t \<noteq> Panicked)"
proof -
  obtain s where s: "crun map_store \<lparr>sys_cache = New_cache Map.empty, sys_pc = (\<lambda>_. Idle)\<rparr> two_requests = Some s"
    "sys_pc s 1 = Waiting ''q'' 0"
    using two_requests_run by blast
  have "creach map_store s"
    by (rule crun_reach [OF creach.start s(1)])
  with flights_never_closed_twice [OF this] s(2) show ?thesis by blast
qed

lemma crun_close:
  assumes inv: "cinv s" and "sys_pc s u = Closing f" and "sys_pc s t = Waiting k f"
  shows "\<exists>s'. crun ops s [(u, CloseDone), (t, Wake)] = Some s' \<and> sys_pc s' t = Woken k"
proof -
  from cinv_step_close [OF inv assms(2)] obtain c where c: "close_done (sys_cache s) f = Inr c"
    by blast
  then have "f \<in> set (cache_closed c)"
    by (auto simp: close_done_def split: if_splits)
  moreover have "u \<noteq> t"
    using assms by auto
  ultimately show ?thesis
    using c assms by simp
qed

lemma crun_notify:
  assumes inv: "cinv s" and u: "sys_pc s u = Notifying k" and t: "sys_pc s t = Waiting k f"
    and p: "flight_of (sys_cache s) k = Some f"
  shows "\<exists>s'. crun ops s [(u, Take), (u, CloseDone), (t, Wake)] = Some s' \<and> sys_pc s' t = Woken k"
proof -
  obtain c r where l: "LoadAndDelete (sys_cache s) k = (c, r)"
    by (cases "LoadAndDelete (sys_cache s) k")
  with flights.take_off [OF cinvD(1) [OF inv] l] p have r: "r = Some f" by simp
  let ?s = "goto s u c (Closing f)"
  have n: "cnext ops s u Take = Some ?s"
    using u l r by simp
  have "u \<noteq> t"
    using u t by auto
  with t have "sys_pc ?s u = Closing f" "sys_pc ?s t = Waiting k f"
    by simp_all
  from crun_close [OF cinv_cnext [OF inv n] this] n show ?thesis by auto
qed

text \<open>C30: Waiting requests can always be woken without the safety timeout. In every reachable state, a
  request that waits for a flight is woken by at most three steps of one other request, whatever the
  database answers to that request.\<close>

theorem waiter_can_be_woken:
  assumes "creach ops s" and "sys_pc s t = Waiting k f"
  shows "\<exists>u acts s'. crun ops s (map (\<lambda>a. (u, a)) acts @ [(t, Wake)]) = Some s' \<and>
    length acts \<le> 3 \<and> u \<noteq> t \<and> set acts \<subseteq> {Store v ttl, Take, CloseDone} \<and> sys_pc s' t = Woken k"
proof -
  note inv = creach_cinv [OF assms(1)]
  from cinvD(2) [OF inv assms(2)] consider "is_closed (sys_cache s) f"
    | u where "sys_pc s u = Closing f" | "flight_of (sys_cache s) k = Some f"
    unfolding awaited_def by blast
  then show ?thesis
  proof cases
    case 1
    with assms(2) show ?thesis
      by (intro exI [of _ "Suc t"] exI [of _ "[]"]) (simp add: is_closed_def)
  next
    case 2
    with crun_close [OF inv 2 assms(2), of ops] assms(2) show ?thesis
      by (intro exI [of _ u] exI [of _ "[CloseDone]"]) auto
  next
    case 3
    from cinvD(3) [OF inv 3] obtain u where u: "sys_pc s u = Fetching k \<or> sys_pc s u = Notifying k"
      by blast
    with assms(2) have ut: "u \<noteq> t" by auto
    show ?thesis
    proof (cases "sys_pc s u = Notifying k")
      case True
      with crun_notify [OF inv True assms(2) 3, of ops] ut show ?thesis
        by (intro exI [of _ u] exI [of _ "[Take, CloseDone]"]) auto
    next
      case False
      with u have f: "sys_pc s u = Fetching k" by simp
      let ?s = "goto s u (Set ops (sys_cache s) k v ttl) (Notifying k)"
      have n: "cnext ops s u (Store v ttl) = Some ?s"
        using f by simp
      have "\<exists>s'. crun ops ?s [(u, Take), (u, CloseDone), (t, Wake)] = Some s' \<and> sys_pc s' t = Woken k"
        using ut assms(2) 3 by (intro crun_notify [OF cinv_cnext [OF inv n]]) auto
      with n ut show ?thesis
        by (intro exI [of _ u] exI [of _ "[Store v ttl, Take, CloseDone]"]) auto
    qed
  qed
qed

theorem waiter_can_be_woken_witness:
  "\<exists>s u acts s'. creach map_store s \<and> sys_pc s 1 = Waiting ''q'' 0 \<and>
     crun map_store s (map (\<lambda>a. (u, a)) acts @ [(1, Wake)]) = Some s' \<and> sys_pc s' 1 = Woken ''q''"
proof -
  obtain s where s: "crun map_store \<lparr>sys_cache = New_cache Map.empty, sys_pc = (\<lambda>_. Idle)\<rparr> two_requests = Some s"
    "sys_pc s 1 = Waiting ''q'' 0"
    using two_requests_run by blast
  have "creach map_store s"
    by (rule crun_reach [OF creach.start s(1)])
  with waiter_can_be_woken [OF this s(2), of "[7]" 5] s(2) show ?thesis by blast
qed

text \<open>
  What the single-flight pattern needs of the store, for one key and one value: \<open>absent\<close> describes stores
  without the key, \<open>present\<close> stores with the value, and reads do not change which of the two holds.
\<close>

definition store_law ::
  "'s tqmemory \<Rightarrow> string \<Rightarrow> bytes \<Rightarrow> int \<Rightarrow> ('s \<Rightarrow> bool) \<Rightarrow> ('s \<Rightarrow> bool) \<Rightarrow> bool" where
  "store_law ops key v ttl absent present \<longleftrightarrow>
     (\<forall>s. absent s \<longrightarrow> (\<exists>s' e. tq_Get ops s key = (s', Inl e) \<and> absent s')) \<and>
     (\<forall>s. absent s \<longrightarrow> present (tq_Set ops s key v ttl)) \<and>
     (\<forall>s. present s \<longrightarrow> (\<exists>s' flags. tq_Get ops s key = (s', Inr (Some v, flags)) \<and> present s'))"

lemma Get_absent:
  assumes "store_law ops key v ttl absent present" and "absent (cache_store c)"
  shows "\<exists>s. Get ops c key = (c\<lparr>cache_store := s\<rparr>, None, 0, False) \<and> absent s"
  using assms unfolding store_law_def Get_def by fastforce

lemma Get_present:
  assumes "store_law ops key v ttl absent present" and "present (cache_store c)"
  shows "\<exists>s flags. Get ops c key = (c\<lparr>cache_store := s\<rparr>, Some v, flags, True) \<and> present s"
  using assms unfolding store_law_def Get_def by fastforce

text \<open>On a cold key one request fetches and the others share its result. The first request to call
  \<open>GetOrWait\<close> is told to fetch; a request that comes while the first one's flight is pending, and for
  which the first one's \<open>SetAndNotify\<close> with a positive TTL runs while it waits, returns the stored value
  and does not fetch; after it no flight is left for the key.\<close>

lemma cold_key_single_flight:
  assumes law: "store_law ops key v ttl absent present" and "0 < ttl"
    and c: "cache_ok c" "absent (cache_store c)" "flight_of c key = None"
    and c2: "cache_ok c2" "absent (cache_store c2)" "flight_of c2 key = Some f"
    and notified: "\<And>c. wait c f = (case SetAndNotify ops c key v ttl of Inr c' \<Rightarrow> (c', DoneClosed) | Inl e \<Rightarrow> (c, SafetyTimeout))"
  shows "(\<exists>c1 f1. GetOrWait ops wait' c key = (c1, None, 0, False, False) \<and> cache_ok c1 \<and>
       absent (cache_store c1) \<and> flight_of c1 = (flight_of c)(key \<mapsto> f1)) \<and>
    (\<exists>c3 flags. GetOrWait ops wait c2 key = (c3, Some v, flags, True, True) \<and> cache_ok c3 \<and>
       present (cache_store c3) \<and> flight_of c3 = (flight_of c2)(key := None))"
proof
  from Get_absent [OF law c(2)] obtain s where g: "Get ops c key = (c\<lparr>cache_store := s\<rparr>, None, 0, False)" "absent s"
    by blast
  have ok: "cache_ok (c\<lparr>cache_store := s\<rparr>)"
    using c(1) cache_ok_frame [of "c\<lparr>cache_store := s\<rparr>" c] by simp
  obtain c1 f1 loaded where l: "LoadOrStore (c\<lparr>cache_store := s\<rparr>) key = (c1, f1, loaded)"
    by (cases "LoadOrStore (c\<lparr>cache_store := s\<rparr>) key")
  with c(3) have nl: "\<not> loaded" and st: "cache_store c1 = s"
    by (auto simp: LoadOrStore_def Let_def flight_of_def)
  with l flights.join_new [OF ok, of key c1 f1] g
  show "\<exists>c1 f1. GetOrWait ops wait' c key = (c1, None, 0, False, False) \<and> cache_ok c1 \<and>
       absent (cache_store c1) \<and> flight_of c1 = (flight_of c)(key \<mapsto> f1)"
    by (auto simp: GetOrWait_def)
next
  from Get_absent [OF law c2(2)] obtain s where g: "Get ops c2 key = (c2\<lparr>cache_store := s\<rparr>, None, 0, False)" "absent s"
    by blast
  have ok: "cache_ok (c2\<lparr>cache_store := s\<rparr>)"
    using c2(1) cache_ok_frame [of "c2\<lparr>cache_store := s\<rparr>" c2] by simp
  obtain c3 g3 loaded where l: "LoadOrStore (c2\<lparr>cache_store := s\<rparr>) key = (c3, g3, loaded)"
    by (cases "LoadOrStore (c2\<lparr>cache_store := s\<rparr>) key")
  with c2(3) have ld: "loaded" "g3 = f" and st: "cache_store c3 = s"
    by (auto simp: LoadOrStore_def Let_def flight_of_def)
  have j: "cache_ok c3" "flight_of c3 = flight_of c2"
    using flights.join_loaded [OF ok, of key c3 f] l ld by simp_all
  from SetAndNotify_aux [OF j(1), of ops key v ttl] obtain c4 where c4: "SetAndNotify ops c3 key v ttl = Inr c4"
    "cache_ok c4" "cache_store c4 = tq_Set ops s key v ttl" "flight_of c4 = (flight_of c3)(key := None)"
    using \<open>0 < ttl\<close> st by auto
  have "present (cache_store c4)"
    using law g(2) c4(3) by (simp add: store_law_def)
  from Get_present [OF law this] obtain s4 flags where
    g4: "Get ops c4 key = (c4\<lparr>cache_store := s4\<rparr>, Some v, flags, True)" "present s4"
    by blast
  have "cache_ok (c4\<lparr>cache_store := s4\<rparr>)"
    using c4(2) cache_ok_frame [of "c4\<lparr>cache_store := s4\<rparr>" c4] by simp
  with g l ld j c4 g4 notified [of c3]
  show "\<exists>c3 flags. GetOrWait ops wait c2 key = (c3, Some v, flags, True, True) \<and> cache_ok c3 \<and>
       present (cache_store c3) \<and> flight_of c3 = (flight_of c2)(key := None)"
    by (auto simp: GetOrWait_def)
qed

definition cold_cache :: "(string \<rightharpoonup> bytes) Cache" where
  "cold_cache = New_cache Map.empty"

lemma cold_key_single_flight_witness:
  "\<exists>c1 c3 flags. GetOrWait map_store (\<lambda>c f. (c, SafetyTimeout)) cold_cache ''q'' = (c1, None, 0, False, False) \<and>
     GetOrWait map_store (\<lambda>c f. case SetAndNotify map_store c ''q'' [7] 5 of
         Inr c' \<Rightarrow> (c', DoneClosed) | Inl e \<Rightarrow> (c, SafetyTimeout)) (fst (LoadOrStore cold_cache ''q'')) ''q''
       = (c3, Some [7], flags, True, True)"
proof -
  have law: "store_law map_store ''q'' [7] 5 (\<lambda>s. s ''q'' = None) (\<lambda>s. s ''q'' = Some [7])"
    by (simp add: store_law_def map_store_def)
  have ok: "cache_ok cold_cache" "cache_store cold_cache ''q'' = None" "flight_of cold_cache ''q'' = None"
    by (simp_all add: cold_cache_def New_cache_def cache_ok_def flight_of_def is_closed_def mget_def)
  have ok2: "cache_ok (fst (LoadOrStore cold_cache ''q''))"
    using flights.join_new [OF ok(1), of "''q''"] ok(3)
    by (simp add: LoadOrStore_def Let_def flight_of_def)
  have st2: "cache_store (fst (LoadOrStore cold_cache ''q'')) ''q'' = None"
    "flight_of (fst (LoadOrStore cold_cache ''q'')) ''q'' = Some 0"
    by (simp_all add: cold_cache_def New_cache_def LoadOrStore_def Let_def flight_of_def mget_def mset_key_def)
  show ?thesis
    using cold_key_single_flight [OF law _ ok ok2 st2,
        of "\<lambda>c f. case SetAndNotify map_store c ''q'' [7] 5 of Inr c' \<Rightarrow> (c', DoneClosed) | Inl e \<Rightarrow> (c, SafetyTimeout)"
           "\<lambda>c f. (c, SafetyTimeout)"] by auto
qed

lemma sint_exact_64: "- (2 ^ 63) \<le> x \<Longrightarrow> x < 2 ^ 63 \<Longrightarrow> sint (word_of_int x :: 64 word) = x"
  by (simp add: sint_sbintrunc' signed_take_bit_int_eq_self)

lemma ttl_duration_exact:
  assumes "0 \<le> n" and "n \<le> 9223372036"
  shows "ttl_duration n = n * 1000000000"
proof -
  have "ttl_duration n = sint (word_of_int (n * 1000000000) :: 64 word)"
    by (simp add: ttl_duration_def wi_hom_mult)
  also have "\<dots> = n * 1000000000"
    using assms by (intro sint_exact_64) auto
  finally show ?thesis .
qed



end
