(* ===== verification/Byte_Codec.thy ===== *)
theory Byte_Codec
  imports Prelude
begin

text \<open>
  Bytes on the wire, for both protocols: integers of a fixed number of bytes in either order, exact reads from a
  stream, and strings that end with a zero byte.
\<close>

text \<open>\<^verbatim>\<open>binary.LittleEndian\<close>, for any number of bytes.\<close>

fun le_bytes :: "nat \<Rightarrow> nat \<Rightarrow> bytes" where
  "le_bytes 0 n = []"
| "le_bytes (Suc k) n = of_nat n # le_bytes k (n div 256)"

fun le_nat :: "bytes \<Rightarrow> nat" where
  "le_nat [] = 0"
| "le_nat (b # bs) = unat b + 256 * le_nat bs"

text \<open>\<^verbatim>\<open>binary.BigEndian\<close>.\<close>

definition be_bytes :: "nat \<Rightarrow> nat \<Rightarrow> bytes" where
  "be_bytes k n = rev (le_bytes k n)"

definition be_nat :: "bytes \<Rightarrow> nat" where
  "be_nat bs = le_nat (rev bs)"

text \<open>\<^verbatim>\<open>io.ReadFull\<close>: exactly \<open>n\<close> bytes, or none.\<close>

definition read_full :: "nat \<Rightarrow> bytes \<Rightarrow> (bytes \<times> bytes) option" where
  "read_full n s = (if n \<le> length s then Some (take n s, drop n s) else None)"

text \<open>A string up to the first zero byte, and what follows it: the slices that the code takes with \<^verbatim>\<open>bytes.IndexByte\<close>.\<close>

definition cut_zero :: "bytes \<Rightarrow> (bytes \<times> bytes) option" where
  "cut_zero bs =
     (if 0 \<in> set bs then Some (takeWhile (\<lambda>b. b \<noteq> 0) bs, tl (dropWhile (\<lambda>b. b \<noteq> 0) bs)) else None)"

section \<open>Lemmas\<close>

lemma length_le_bytes [simp]: "length (le_bytes k n) = k"
  by (induction k arbitrary: n) simp_all

lemma unat_of_nat_byte [simp]: "unat (of_nat n :: byte) = n mod 256"
  by (simp add: unat_of_nat)

lemma le_nat_le_bytes: "le_nat (le_bytes k n) = n mod 256 ^ k"
proof (induction k arbitrary: n)
  case (Suc k)
  then show ?case by (simp add: mod_mult2_eq)
qed simp

lemma take_le_bytes: "j \<le> k \<Longrightarrow> take j (le_bytes k n) = le_bytes j n"
proof (induction j arbitrary: k n)
  case (Suc j)
  then show ?case by (cases k) simp_all
qed simp

lemma le_bytes_mod: "le_bytes k (n mod 256 ^ k) = le_bytes k n"
proof (induction k arbitrary: n)
  case (Suc k)
  have "of_nat (n mod (256 * 256 ^ k)) = (of_nat n :: byte)"
    unfolding word_unat_eq_iff unat_of_nat_byte by (simp add: mod_mod_cancel)
  moreover have "n mod (256 * 256 ^ k) div 256 = n div 256 mod 256 ^ k"
    by (simp add: mod_mult2_eq div_mult2_eq)
  ultimately show ?case using Suc by simp
qed simp

lemma length_be_bytes [simp]: "length (be_bytes k n) = k"
  by (simp add: be_bytes_def)

lemma be_nat_be_bytes: "be_nat (be_bytes k n) = n mod 256 ^ k"
  by (simp add: be_nat_def be_bytes_def le_nat_le_bytes)

lemma be_bytes_mod: "be_bytes k (n mod 256 ^ k) = be_bytes k n"
  by (simp add: be_bytes_def le_bytes_mod)

lemma be_bytes_trunc [wire_simps]: "be_bytes 4 (n mod 2 ^ 32) = be_bytes 4 n" "be_bytes 2 (n mod 2 ^ 16) = be_bytes 2 n"
  using be_bytes_mod [of 4 n] be_bytes_mod [of 2 n] by simp_all

lemma le_nat_less: "le_nat bs < 256 ^ length bs"
proof (induction bs)
  case (Cons b bs)
  have "unat b < 256"
    using unsigned_less [where 'a = nat, of b] by simp
  with Cons show ?case by simp
qed simp

lemma be_nat_less: "be_nat bs < 256 ^ length bs"
  using le_nat_less [of "rev bs"] by (simp add: be_nat_def)

lemma read_full_append [simp]: "n = length p \<Longrightarrow> read_full n (p @ s) = Some (p, s)"
  by (simp add: read_full_def)

lemma read_full_Some: "read_full n s = Some (p, s') \<Longrightarrow> s = p @ s' \<and> length p = n"
  by (auto simp: read_full_def split: if_splits)

lemma cut_zero_append [simp]: "0 \<notin> set p \<Longrightarrow> cut_zero (p @ 0 # s) = Some (p, s)"
proof -
  assume "0 \<notin> set p"
  then have "\<And>b. b \<in> set p \<Longrightarrow> b \<noteq> 0" by auto
  then show ?thesis by (simp add: cut_zero_def takeWhile_append2 dropWhile_append2)
qed

lemma cut_zero_Some:
  assumes "cut_zero bs = Some (p, s)"
  shows "bs = p @ 0 # s" and "0 \<notin> set p"
proof -
  from assms have z: "0 \<in> set bs" and p: "p = takeWhile (\<lambda>b. b \<noteq> 0) bs" and s: "s = tl (dropWhile (\<lambda>b. b \<noteq> 0) bs)"
    by (auto simp: cut_zero_def split: if_splits)
  have "dropWhile (\<lambda>b. b \<noteq> 0) bs = 0 # s"
    using z s hd_dropWhile [of "\<lambda>b. b \<noteq> 0" bs] by (cases "dropWhile (\<lambda>b. b \<noteq> 0) bs") auto
  then show "bs = p @ 0 # s"
    unfolding p by (metis takeWhile_dropWhile_id)
  show "0 \<notin> set p"
    unfolding p by (auto dest: set_takeWhileD)
qed

lemma cut_zero_shorter: "cut_zero bs = Some (p, s) \<Longrightarrow> length s < length bs"
  by (drule cut_zero_Some(1)) simp

end
