(* ===== verification/Maria_Wire.thy ===== *)
theory Maria_Wire
  imports Parser WB_Types Byte_Codec
begin

text \<open>
  The wire format of the MariaDB proxy, \<^verbatim>\<open>mariadb/mariadb.go\<close>: packets and their sequence numbers, the parameters
  of a prepared statement in the binary protocol, where a response of the backend ends, the renumbering
  of a response for the client, and the splitting of multi-statement queries. The fork of the MySQL
  driver that the proxy uses for its constants and encodings is a submodule that is not part of the
  sources: it is the record \<open>mysql_lib\<close>, an argument of the definitions.
\<close>

section \<open>The driver\<close>

record mysql_lib =
  ml_StatusInTrans :: "16 word"
  ml_StatusInAutocommit :: "16 word"
  ml_StatusMoreResultsExists :: "16 word"
  ml_ComQuit :: byte
  ml_ComInitDB :: byte
  ml_ComQuery :: byte
  ml_ComFieldList :: byte
  ml_ComPing :: byte
  ml_ComStmtPrepare :: byte
  ml_ComStmtExecute :: byte
  ml_ComStmtClose :: byte
  ml_ComStmtReset :: byte
  ml_ReadLengthEncodedInteger :: "bytes \<Rightarrow> nat"
  ml_WriteOKPacket :: "64 word \<Rightarrow> 64 word \<Rightarrow> 16 word \<Rightarrow> bytes"
  ml_WriteErrorPacket :: "string \<Rightarrow> bytes"
  ml_WriteEOFPacket :: "16 word \<Rightarrow> bytes"

text \<open>
  \<^verbatim>\<open>ReadLengthEncodedInteger\<close> is used for the number of bytes it reads only. The packet writers also get the
  capability flags of the connection, which do not change after the handshake, and the error writer a
  fixed code and state; they are part of the functions here.
\<close>

section \<open>Packets\<close>

text \<open>A packet as \<open>writePacket\<close> and its likes build it: the length in four bytes, the last of which is
  overwritten by the sequence number.\<close>

definition frame :: "byte \<Rightarrow> bytes \<Rightarrow> bytes" where
  "frame seq payload = take 3 (le_bytes 4 (length payload mod 2 ^ 32)) @ [seq] @ payload"

text \<open>Reading a packet from a stream: its sequence number, its payload and the rest of the stream.\<close>

definition read_packet :: "bytes \<Rightarrow> (byte \<times> bytes \<times> bytes) option" where
  "read_packet s =
     (case read_full 4 s of
        None \<Rightarrow> None
      | Some (header, s1) \<Rightarrow>
          (case read_full (le_nat (take 3 header)) s1 of
             None \<Rightarrow> None
           | Some (payload, s2) \<Rightarrow> Some (header ! 3, payload, s2)))"

section \<open>Parameters of prepared statements\<close>

definition decodeLengthEncodedInt :: "bytes \<Rightarrow> nat \<times> nat" where
  "decodeLengthEncodedInt data =
     (case data of
        [] \<Rightarrow> (0, 0)
      | b # rest \<Rightarrow>
          if b = 0xfb then (0, 1)
          else if b = 0xfc then (if length data < 3 then (0, 0) else (le_nat (take 2 rest), 3))
          else if b = 0xfd then (if length data < 4 then (0, 0) else (le_nat (take 3 rest), 4))
          else if b = 0xfe then (if length data < 9 then (0, 0) else (le_nat (take 8 rest), 9))
          else (unat b, 1))"

text \<open>The integers of the Go code are 64 bits wide: \<open>int(strLen)\<close> is negative from \<open>2 ^ 63\<close> on, and then the
  slice expression panics.\<close>

definition decode_fixed :: "nat \<Rightarrow> bytes \<Rightarrow> nat \<Rightarrow> bool \<Rightarrow> string + govalue \<times> nat" where
  "decode_fixed k data pos unsigned_flag =
     (if pos + k > length data then Inl ''not enough data''
      else let n = le_nat (take k (drop pos data))
           in Inr (if unsigned_flag then VUint n
                   else VInt (if n < 2 ^ (8 * k - 1) then int n else int n - 2 ^ (8 * k)), pos + k))"

definition decode_string :: "bytes \<Rightarrow> nat \<Rightarrow> panic + (string + govalue \<times> nat)" where
  "decode_string data pos =
     (if pos > length data then Inl SliceOutOfRange
      else case decodeLengthEncodedInt (drop pos data) of
        (strLen, n) \<Rightarrow>
          if n = 0 then Inr (Inl ''failed to decode string length'')
          else let pos' = pos + n; hi = wrap64 (int pos' + wrap64 (int strLen))
               in if hi > int (length data) then Inr (Inl ''not enough data for string'')
                  else if hi < int pos' then Inl SliceOutOfRange
                  else Inr (Inr (VString (string_of (take (nat hi - pos') (drop pos' data))), nat hi)))"

definition decodeParamValue :: "bytes \<Rightarrow> nat \<Rightarrow> byte \<Rightarrow> bool \<Rightarrow> panic + (string + govalue \<times> nat)" where
  "decodeParamValue data pos fieldType unsigned_flag =
     (if fieldType = 0x01 then Inr (decode_fixed 1 data pos unsigned_flag)
      else if fieldType = 0x02 then Inr (decode_fixed 2 data pos unsigned_flag)
      else if fieldType = 0x03 then Inr (decode_fixed 4 data pos unsigned_flag)
      else if fieldType = 0x08 then Inr (decode_fixed 8 data pos unsigned_flag)
      else if fieldType = 0xfe \<or> fieldType = 0xfd then decode_string data pos
      else Inr (Inl ''unsupported field type''))"

text \<open>The loop of \<open>decodeStmtParams\<close> over the parameters from \<open>i\<close> on, \<open>n\<close> of them left.\<close>

fun decode_params ::
  "bytes \<Rightarrow> bytes \<Rightarrow> bool \<Rightarrow> bytes \<Rightarrow> nat \<Rightarrow> nat \<Rightarrow> nat \<Rightarrow> panic + (string + govalue list)" where
  "decode_params data nullBitmap bound paramTypes pos i 0 = Inr (Inr [])"
| "decode_params data nullBitmap bound paramTypes pos i (Suc n) =
     (if bit (nullBitmap ! (i div 8)) (i mod 8) then
        (case decode_params data nullBitmap bound paramTypes pos (i + 1) n of
           Inr (Inr vs) \<Rightarrow> Inr (Inr (VNil # vs))
         | r \<Rightarrow> r)
      else if \<not> bound then Inr (Inl ''cannot decode parameters without type information'')
      else case decodeParamValue data pos (paramTypes ! (i * 2)) (paramTypes ! (i * 2 + 1) = 0x80) of
             Inl p \<Rightarrow> Inl p
           | Inr (Inl e) \<Rightarrow> Inr (Inl e)
           | Inr (Inr (v, pos')) \<Rightarrow>
               (case decode_params data nullBitmap bound paramTypes pos' (i + 1) n of
                  Inr (Inr vs) \<Rightarrow> Inr (Inr (v # vs))
                | r \<Rightarrow> r))"

definition decodeStmtParams :: "bytes \<Rightarrow> ParsedQuery \<Rightarrow> panic + (string + govalue list)" where
  "decodeStmtParams data parsed =
     (if length data < 10 then Inr (Inl ''packet too short'')
      else let numParams = CountChar (pq_Query parsed) (CHR ''?'')
           in if numParams = 0 then Inr (Inr [])
              else let nullBitmapLen = (numParams + 7) div 8
                   in if length data < 10 + nullBitmapLen then Inr (Inl ''packet too short for null bitmap'')
                      else let nullBitmap = take nullBitmapLen (drop 9 data);
                               pos = 9 + nullBitmapLen;
                               bound = (data ! pos = 1);
                               pos1 = pos + 1;
                               typesLen = numParams * 2
                           in if bound \<and> pos1 + typesLen > length data
                              then Inr (Inl ''packet too short for parameter types'')
                              else decode_params data nullBitmap bound (take typesLen (drop pos1 data))
                                     (if bound then pos1 + typesLen else pos1) 0 numParams)"

section \<open>Responses of the backend\<close>

text \<open>
  After each packet of a response the reader goes on, with a new count of EOF packets, or stops. The offset
  of the status flags in an OK packet is computed with the driver's reader; slicing behind the end of the
  packet would panic.
\<close>

datatype verdict = Stop | More nat | Crash panic

definition ok_status_offset :: "mysql_lib \<Rightarrow> bytes \<Rightarrow> nat \<Rightarrow> panic + nat" where
  "ok_status_offset lib packet start =
     (let o1 = start + ml_ReadLengthEncodedInteger lib (drop start packet)
      in if o1 > length packet then Inl SliceOutOfRange
         else Inr (o1 + ml_ReadLengthEncodedInteger lib (drop o1 packet)))"

definition le_word16 :: "bytes \<Rightarrow> 16 word" where
  "le_word16 bs = of_nat (le_nat (take 2 bs))"

definition ok_verdict :: "mysql_lib \<Rightarrow> bytes \<Rightarrow> verdict" where
  "ok_verdict lib packet =
     (case ok_status_offset lib packet 1 of
        Inl p \<Rightarrow> Crash p
      | Inr statusOffset \<Rightarrow>
          if length packet \<ge> statusOffset + 2 then
            if le_word16 (drop statusOffset packet) AND ml_StatusMoreResultsExists lib = 0 then Stop else More 0
          else Stop)"

definition eof_verdict :: "mysql_lib \<Rightarrow> nat \<Rightarrow> bytes \<Rightarrow> verdict" where
  "eof_verdict lib eofCount packet =
     (if length packet < 9 then
        if eofCount + 1 \<ge> 2 then
          if length packet \<ge> 5 then
            if le_word16 (drop 3 packet) AND ml_StatusMoreResultsExists lib = 0 then Stop else More 0
          else Stop
        else More (eofCount + 1)
      else More eofCount)"

text \<open>The three readers: \<open>execBackendQuery\<close>, \<open>execBackendResponse\<close> (the number of packets so far tells a
  request for a local file from a row that starts with NULL) and \<open>execQueryOnConn\<close>.\<close>

definition query_verdict :: "mysql_lib \<Rightarrow> nat \<Rightarrow> nat \<Rightarrow> bytes \<Rightarrow> verdict" where
  "query_verdict lib packetCount eofCount packet =
     (case packet of
        [] \<Rightarrow> More eofCount
      | b # _ \<Rightarrow>
          if b = 0x00 then (if eofCount = 0 then ok_verdict lib packet else More eofCount)
          else if b = 0xFF then Stop
          else if b = 0xFE then eof_verdict lib eofCount packet
          else More eofCount)"

definition response_verdict :: "mysql_lib \<Rightarrow> nat \<Rightarrow> nat \<Rightarrow> bytes \<Rightarrow> verdict" where
  "response_verdict lib packetCount eofCount packet =
     (case packet of
        [] \<Rightarrow> More eofCount
      | b # _ \<Rightarrow>
          if b = 0x00 then (if eofCount = 1 then More eofCount else ok_verdict lib packet)
          else if b = 0xFF then Stop
          else if b = 0xFB then (if packetCount = 1 then Stop else More eofCount)
          else if b = 0xFE then eof_verdict lib eofCount packet
          else More eofCount)"

definition conn_verdict :: "nat \<Rightarrow> nat \<Rightarrow> bytes \<Rightarrow> verdict" where
  "conn_verdict packetCount eofCount packet =
     (case packet of
        [] \<Rightarrow> More eofCount
      | b # _ \<Rightarrow>
          if b = 0xFF then Stop
          else if b = 0x00 then Stop
          else if b = 0xFE \<and> length packet < 9 then (if eofCount + 1 \<ge> 2 then Stop else More (eofCount + 1))
          else More eofCount)"

text \<open>The reading loop, on the bytes the backend sends: the result and the bytes left. Every round takes at
  least the four bytes of a header.\<close>

lemma read_packet_shorter: "read_packet s = Some (seq, packet, s') \<Longrightarrow> length s' < length s"
  by (auto simp: read_packet_def read_full_def split: if_splits)

datatype read_result = Got byte bytes bytes | ReadError | ReadPanic panic

function read_response :: "(nat \<Rightarrow> nat \<Rightarrow> bytes \<Rightarrow> verdict) \<Rightarrow> nat \<Rightarrow> nat \<Rightarrow> bytes \<Rightarrow> bytes \<Rightarrow> read_result" where
  "read_response v packetCount eofCount response s =
     (case read_packet s of
        None \<Rightarrow> ReadError
      | Some (seq, packet, s') \<Rightarrow>
          (let response' = response @ frame seq packet
           in case v (packetCount + 1) eofCount packet of
                Stop \<Rightarrow> Got seq response' s'
              | Crash p \<Rightarrow> ReadPanic p
              | More eofCount' \<Rightarrow> read_response v (packetCount + 1) eofCount' response' s'))"
  by pat_completeness auto

termination
  by (relation "measure (\<lambda>(v, n, e, r, s). length s)") (auto dest: read_packet_shorter)

declare read_response.simps [simp del]

section \<open>Forwarding a response\<close>

text \<open>Renumbering: the new bytes, the last sequence number used and the position of the last packet.\<close>

function renumber :: "byte \<Rightarrow> nat \<Rightarrow> nat \<Rightarrow> bytes \<Rightarrow> bytes \<times> byte \<times> nat" where
  "renumber seq pos lastPos s =
     (if length s < 4 then (s, seq, lastPos)
      else let len = le_nat (take 3 s);
               seq' = seq + 1;
               (rest, seq'', lastPos') = renumber seq' (pos + 4 + len) pos (drop (4 + len) s)
           in (take 3 s @ [seq'] @ take len (drop 4 s) @ rest, seq'', lastPos'))"
  by pat_completeness auto
termination
  by (relation "measure (\<lambda>(seq, pos, lastPos, s). length s)") auto

declare renumber.simps [simp del]

definition put_word16 :: "nat \<Rightarrow> 16 word \<Rightarrow> bytes \<Rightarrow> bytes" where
  "put_word16 k w bs = bs[k := of_nat (unat w), k + 1 := of_nat (unat w div 256)]"

text \<open>Setting the more-results flag in the last packet (with its header).\<close>

definition set_more_results :: "mysql_lib \<Rightarrow> bytes \<Rightarrow> panic + bytes" where
  "set_more_results lib packet =
     (if length packet > 4 then
        if packet ! 4 = 0x00 then
          (case ok_status_offset lib packet 5 of
             Inl p \<Rightarrow> Inl p
           | Inr statusOffset \<Rightarrow>
               if length packet \<ge> statusOffset + 2 then
                 Inr (put_word16 statusOffset (le_word16 (drop statusOffset packet) OR ml_StatusMoreResultsExists lib) packet)
               else Inr packet)
        else if packet ! 4 = 0xfe \<and> length packet \<ge> 9 then
          Inr (put_word16 7 (le_word16 (drop 7 packet) OR ml_StatusMoreResultsExists lib) packet)
        else Inr packet
      else Inr packet)"

definition forward_bytes :: "mysql_lib \<Rightarrow> byte \<Rightarrow> bytes \<Rightarrow> bool \<Rightarrow> panic + bytes \<times> byte" where
  "forward_bytes lib seq response moreResults =
     (case renumber seq 0 0 response of
        (respCopy, seq', lastPacketPos) \<Rightarrow>
          if moreResults \<and> lastPacketPos < length respCopy then
            (case set_more_results lib (drop lastPacketPos respCopy) of
               Inl p \<Rightarrow> Inl p
             | Inr packet \<Rightarrow> Inr (take lastPacketPos respCopy @ packet, seq'))
          else Inr (respCopy, seq'))"

section \<open>Multi-statement queries\<close>

record splitter =
  sp_queries :: "string list"
  sp_current :: string
  sp_inQuote :: bool
  sp_quoteChar :: string
  sp_escaped :: bool

definition flush :: "splitter \<Rightarrow> splitter" where
  "flush sp = (let q = TrimSpace (sp_current sp)
     in sp\<lparr>sp_queries := (if q \<noteq> [] then sp_queries sp @ [q] else sp_queries sp), sp_current := []\<rparr>)"

definition is_quote :: "string \<Rightarrow> bool" where
  "is_quote r \<longleftrightarrow> r = [CHR 0x27] \<or> r = [CHR 0x22] \<or> r = ''`''"

definition split_rune :: "splitter \<Rightarrow> string \<Rightarrow> splitter" where
  "split_rune sp r =
     (if sp_escaped sp then sp\<lparr>sp_current := sp_current sp @ r, sp_escaped := False\<rparr>
      else if r = [CHR 0x5C] then sp\<lparr>sp_current := sp_current sp @ r, sp_escaped := True\<rparr>
      else let sp1 = (if is_quote r then
                        if \<not> sp_inQuote sp then sp\<lparr>sp_inQuote := True, sp_quoteChar := r\<rparr>
                        else if r = sp_quoteChar sp then sp\<lparr>sp_inQuote := False\<rparr>
                        else sp
                      else sp)
           in if r = '';'' \<and> \<not> sp_inQuote sp1 then flush sp1
              else sp1\<lparr>sp_current := sp_current sp1 @ r\<rparr>)"

definition splitter0 :: splitter where
  "splitter0 = \<lparr>sp_queries = [], sp_current = [], sp_inQuote = False, sp_quoteChar = [], sp_escaped = False\<rparr>"

definition splitQueries :: "string \<Rightarrow> string list" where
  "splitQueries query = sp_queries (flush (foldl split_rune splitter0 (runes query)))"


section \<open>Lemmas on packets\<close>

lemma frame_header: "frame seq p = le_bytes 3 (length p) @ [seq] @ p"
proof -
  have "le_bytes 4 (length p mod 2 ^ 32) = le_bytes 4 (length p)"
    using le_bytes_mod [of 4 "length p"] by simp
  then show ?thesis
    by (simp add: frame_def take_le_bytes)
qed

lemma length_frame [simp]: "length (frame seq p) = 4 + length p"
  by (simp add: frame_header)

lemma frame_parts:
  assumes "length p < 2 ^ 24"
  shows "le_nat (take 3 (frame seq p @ s)) = length p" and "take 4 (frame seq p @ s) = le_bytes 3 (length p) @ [seq]"
    and "drop 4 (frame seq p @ s) = p @ s" and "take 3 (frame seq p @ s) = le_bytes 3 (length p)"
  using assms by (simp_all add: frame_header le_nat_le_bytes)

lemma read_packet_frame: "length p < 2 ^ 24 \<Longrightarrow> read_packet (frame seq p @ s) = Some (seq, p, s)"
  by (simp add: read_packet_def read_full_def frame_header le_nat_le_bytes nth_append)

definition frames :: "(byte \<times> bytes) list \<Rightarrow> bytes" where
  "frames pkts = concat (map (\<lambda>(seq, p). frame seq p) pkts)"

lemma frames_simps [simp]:
  "frames [] = []"
  "frames ((seq, p) # pkts) = frame seq p @ frames pkts"
  "frames (pkts @ pkts') = frames pkts @ frames pkts'"
  by (simp_all add: frames_def)

section \<open>Lemmas on responses\<close>

lemma read_response_frame:
  assumes "length p < 2 ^ 24"
  shows "read_response v n e r (frame seq p @ s) =
    (case v (n + 1) e p of
       Stop \<Rightarrow> Got seq (r @ frame seq p) s
     | Crash c \<Rightarrow> ReadPanic c
     | More e' \<Rightarrow> read_response v (n + 1) e' (r @ frame seq p) s)"
  by (simp add: read_response.simps [of v n e r "frame seq p @ s"] read_packet_frame [OF assms] Let_def)

lemma read_response_more:
  assumes "\<forall>(seq, p) \<in> set pkts. length p < 2 ^ 24 \<and> (\<forall>k > n. v k e p = More e)"
  shows "read_response v n e r (frames pkts @ s) = read_response v (n + length pkts) e (r @ frames pkts) s"
  using assms
proof (induction pkts arbitrary: n r)
  case (Cons a pkts)
  obtain seq p where a: "a = (seq, p)" by (cases a)
  have "read_response v n e r (frame seq p @ frames pkts @ s) = read_response v (n + 1) e (r @ frame seq p) (frames pkts @ s)"
    using Cons.prems a by (subst read_response_frame) auto
  also have "\<dots> = read_response v (n + 1 + length pkts) e ((r @ frame seq p) @ frames pkts) s"
    using Cons.prems by (intro Cons.IH) auto
  finally show ?case by (simp add: a)
qed simp

text \<open>A result set in the text protocol, as the packets the backend sends.\<close>

definition plain_first :: "bytes \<Rightarrow> bool" where
  "plain_first p \<longleftrightarrow> p \<noteq> [] \<and> hd p \<noteq> 0x00 \<and> hd p \<noteq> 0xFF \<and> hd p \<noteq> 0xFE"

definition row_first :: "bytes \<Rightarrow> bool" where
  "row_first p \<longleftrightarrow> p \<noteq> [] \<and> hd p \<noteq> 0xFF \<and> (hd p = 0xFE \<longrightarrow> length p \<ge> 9)"

definition eof_packet :: "16 word \<Rightarrow> byte \<Rightarrow> byte \<Rightarrow> bytes" where
  "eof_packet status w1 w2 = [0xFE, w1, w2] @ le_bytes 2 (unat status)"

lemma le_word16_le_bytes [simp]: "le_word16 (le_bytes 2 (unat w) @ s) = w"
proof -
  have "le_nat (le_bytes 2 (unat w)) = unat w"
    using unsigned_less [where 'a = nat, of w] by (simp add: le_nat_le_bytes)
  then show ?thesis by (simp add: le_word16_def)
qed

lemma eof_verdict_packet:
  "eof_verdict lib e (eof_packet status w1 w2) =
     (if e + 1 \<ge> 2 then (if status AND ml_StatusMoreResultsExists lib = 0 then Stop else More 0) else More (e + 1))"
  using le_word16_le_bytes [of status "[]"] by (simp add: eof_verdict_def eof_packet_def)

lemma query_verdict_packets [simp]:
  "plain_first p \<Longrightarrow> query_verdict lib k e p = More e"
  "row_first p \<Longrightarrow> query_verdict lib k 1 p = More 1"
  "query_verdict lib k e (eof_packet status w1 w2) = eof_verdict lib e (eof_packet status w1 w2)"
  by (auto simp: query_verdict_def plain_first_def row_first_def eof_verdict_def eof_packet_def split: list.splits)

lemma response_verdict_packets [simp]:
  "plain_first p \<Longrightarrow> hd p \<noteq> 0xFB \<Longrightarrow> response_verdict lib k e p = More e"
  "row_first p \<Longrightarrow> k > 1 \<Longrightarrow> response_verdict lib k 1 p = More 1"
  "response_verdict lib k e (eof_packet status w1 w2) = eof_verdict lib e (eof_packet status w1 w2)"
  by (auto simp: response_verdict_def plain_first_def row_first_def eof_verdict_def eof_packet_def split: list.splits)

lemma length_eof_packet [simp]: "length (eof_packet status w1 w2) = 5"
  by (simp add: eof_packet_def)

lemma read_result_set:
  assumes defs: "\<forall>(seq, p) \<in> set defs. length p < 2 ^ 24 \<and> (\<forall>k > 0. v k 0 p = More 0)" and "defs \<noteq> []"
    and rows: "\<forall>(seq, p) \<in> set rows. length p < 2 ^ 24 \<and> (\<forall>k > 1. v k 1 p = More 1)"
    and eof: "\<And>k e status w1 w2. v k e (eof_packet status w1 w2) = eof_verdict lib e (eof_packet status w1 w2)"
    and last: "status2 AND ml_StatusMoreResultsExists lib = 0"
  shows "read_response v 0 0 []
      (frames (defs @ [(s1, eof_packet status1 w1 w2)] @ rows @ [(s2, eof_packet status2 w3 w4)]) @ rest)
    = Got s2 (frames (defs @ [(s1, eof_packet status1 w1 w2)] @ rows @ [(s2, eof_packet status2 w3 w4)])) rest"
proof -
  let ?n = "length defs"
  have n: "0 < ?n" using assms(2) by simp
  have "read_response v 0 0 [] (frames defs @ frame s1 (eof_packet status1 w1 w2) @ frames rows @ frame s2 (eof_packet status2 w3 w4) @ rest)
      = read_response v ?n 0 (frames defs) (frame s1 (eof_packet status1 w1 w2) @ frames rows @ frame s2 (eof_packet status2 w3 w4) @ rest)"
    using read_response_more [of defs 0 v 0 "[]"] defs by simp
  also have "\<dots> = read_response v (?n + 1) 1 (frames defs @ frame s1 (eof_packet status1 w1 w2)) (frames rows @ frame s2 (eof_packet status2 w3 w4) @ rest)"
    by (subst read_response_frame) (simp_all add: eof eof_verdict_packet)
  also have "\<dots> = read_response v (?n + 1 + length rows) 1 ((frames defs @ frame s1 (eof_packet status1 w1 w2)) @ frames rows) (frame s2 (eof_packet status2 w3 w4) @ rest)"
    using rows n by (intro read_response_more) auto
  also have "\<dots> = Got s2 (((frames defs @ frame s1 (eof_packet status1 w1 w2)) @ frames rows) @ frame s2 (eof_packet status2 w3 w4)) rest"
    by (subst read_response_frame) (simp_all add: eof eof_verdict_packet last)
  finally show ?thesis by simp
qed

section \<open>Lemmas on forwarding\<close>

fun renumbered :: "byte \<Rightarrow> bytes list \<Rightarrow> (byte \<times> bytes) list" where
  "renumbered seq [] = []"
| "renumbered seq (p # ps) = (seq + 1, p) # renumbered (seq + 1) ps"

lemma renumber_frames:
  assumes "\<forall>(s, p) \<in> set pkts. length p < 2 ^ 24"
  shows "\<exists>l. renumber seq pos lastPos (frames pkts) =
    (frames (renumbered seq (map snd pkts)), seq + of_nat (length pkts), l) \<and>
    (pkts \<noteq> [] \<longrightarrow> l = pos + length (frames (butlast pkts)))"
  using assms
proof (induction pkts arbitrary: seq pos lastPos)
  case Nil
  then show ?case by (simp add: renumber.simps)
next
  case (Cons a pkts)
  obtain s p where a: "a = (s, p)" by (cases a)
  have p: "length p < 2 ^ 24"
    using Cons.prems a by simp
  note parts = frame_parts [OF p, of s "frames pkts"]
  have d: "drop (4 + length p) (frame s p @ frames pkts) = frames pkts"
    using parts(3) by (simp flip: drop_drop add: add.commute)
  obtain l where IH: "renumber (seq + 1) (pos + 4 + length p) pos (frames pkts) =
      (frames (renumbered (seq + 1) (map snd pkts)), seq + 1 + of_nat (length pkts), l)"
    "pkts \<noteq> [] \<longrightarrow> l = pos + 4 + length p + length (frames (butlast pkts))"
    using Cons.IH [of "seq + 1" "pos + 4 + length p" pos] Cons.prems by auto
  have l: "pkts = [] \<Longrightarrow> l = pos"
    using IH(1) by (simp add: renumber.simps)
  have "renumber seq pos lastPos (frame s p @ frames pkts) =
      (frame (seq + 1) p @ frames (renumbered (seq + 1) (map snd pkts)), seq + 1 + of_nat (length pkts), l)"
    using parts d IH(1) by (subst renumber.simps) (simp add: Let_def frame_header [of "seq + 1"] del: take_append drop_append, simp)
  moreover have "l = pos + length (frames (butlast (a # pkts)))"
    using IH(2) l a by (cases "pkts = []") simp_all
  ultimately show ?case
    by (simp add: a add.assoc)
qed

section \<open>Lemmas on parameters\<close>

text \<open>Parameters as a client encodes them: NULL (with any type), integers of \<open>k\<close> bytes, strings.\<close>

datatype wparam = WNull byte byte | WInt nat int | WUint nat nat | WStr string

definition int_type :: "nat \<Rightarrow> byte" where
  "int_type k = (if k = 1 then 0x01 else if k = 2 then 0x02 else if k = 4 then 0x03 else 0x08)"

fun wtype :: "wparam \<Rightarrow> byte \<times> byte" where
  "wtype (WNull t f) = (t, f)"
| "wtype (WInt k i) = (int_type k, 0x00)"
| "wtype (WUint k n) = (int_type k, 0x80)"
| "wtype (WStr s) = (0xfd, 0x00)"

definition encode_len :: "nat \<Rightarrow> bytes" where
  "encode_len n =
     (if n < 251 then [of_nat n] else if n < 2 ^ 16 then 0xfc # le_bytes 2 n
      else if n < 2 ^ 24 then 0xfd # le_bytes 3 n else 0xfe # le_bytes 8 n)"

fun wbytes :: "wparam \<Rightarrow> bytes" where
  "wbytes (WNull t f) = []"
| "wbytes (WInt k i) = le_bytes k (nat (i mod 2 ^ (8 * k)))"
| "wbytes (WUint k n) = le_bytes k n"
| "wbytes (WStr s) = encode_len (length s) @ bytes_of s"

fun wvalue :: "wparam \<Rightarrow> govalue" where
  "wvalue (WNull t f) = VNil"
| "wvalue (WInt k i) = VInt i"
| "wvalue (WUint k n) = VUint n"
| "wvalue (WStr s) = VString s"

fun is_null :: "wparam \<Rightarrow> bool" where
  "is_null (WNull t f) = True"
| "is_null p = False"

fun wparam_ok :: "wparam \<Rightarrow> bool" where
  "wparam_ok (WInt k i) = (k \<in> {1, 2, 4, 8} \<and> - (2 ^ (8 * k - 1)) \<le> i \<and> i < 2 ^ (8 * k - 1))"
| "wparam_ok (WUint k n) = (k \<in> {1, 2, 4, 8} \<and> n < 2 ^ (8 * k))"
| "wparam_ok p = True"

lemma pow256: "(256 :: nat) ^ k = 2 ^ (8 * k)"
  by (simp add: power_mult)

lemma decode_fixed_bytes:
  assumes "data = pre @ le_bytes k m @ post" and "m < 2 ^ (8 * k)"
  shows "decode_fixed k data (length pre) u =
    Inr (if u then VUint m else VInt (if m < 2 ^ (8 * k - 1) then int m else int m - 2 ^ (8 * k)), length pre + k)"
  using assms by (simp add: decode_fixed_def Let_def le_nat_le_bytes pow256)

lemma signed_value:
  fixes i :: int
  assumes "0 < k" and "- (2 ^ (8 * k - 1)) \<le> i" and "i < 2 ^ (8 * k - 1)"
  defines "m \<equiv> nat (i mod 2 ^ (8 * k))"
  shows "(if m < 2 ^ (8 * k - 1) then int m else int m - 2 ^ (8 * k)) = i" and "m < 2 ^ (8 * k)"
proof -
  have two: "(2 :: int) ^ (8 * k) = 2 * 2 ^ (8 * k - 1)"
    using assms(1) by (simp flip: power_Suc)
  have m: "int m = i mod 2 ^ (8 * k)"
    by (simp add: m_def)
  have lt: "m < 2 ^ (8 * k - 1) \<longleftrightarrow> int m < 2 ^ (8 * k - 1)"
    by (metis of_nat_less_iff of_nat_numeral of_nat_power)
  show "m < 2 ^ (8 * k)"
    using m by (metis of_nat_less_iff of_nat_numeral of_nat_power pos_mod_bound zero_less_numeral zero_less_power)
  show "(if m < 2 ^ (8 * k - 1) then int m else int m - 2 ^ (8 * k)) = i"
  proof (cases "0 \<le> i")
    case True
    then have "i mod 2 ^ (8 * k) = i"
      using assms(3) two by (intro mod_pos_pos_trivial) auto
    with m lt assms(3) show ?thesis by simp
  next
    case False
    then have "i mod 2 ^ (8 * k) = i + 2 ^ (8 * k)"
      using assms(2) two by (intro int_mod_pos_eq [where q = "-1"]) auto
    with m lt False assms(2) two show ?thesis by simp
  qed
qed

lemma decode_len: "n < 2 ^ 64 \<Longrightarrow> decodeLengthEncodedInt (encode_len n @ s) = (n, length (encode_len n))"
proof -
  assume n: "n < 2 ^ 64"
  consider "n < 251" | "251 \<le> n" "n < 2 ^ 16" | "2 ^ 16 \<le> n" "n < 2 ^ 24" | "2 ^ 24 \<le> n" by linarith
  then show ?thesis
  proof cases
    case 1
    have "(of_nat n :: byte) \<noteq> 0xfb" "(of_nat n :: byte) \<noteq> 0xfc" "(of_nat n :: byte) \<noteq> 0xfd" "(of_nat n :: byte) \<noteq> 0xfe"
      unfolding word_unat_eq_iff unat_of_nat_byte using 1 by simp_all
    with 1 show ?thesis by (simp add: encode_len_def decodeLengthEncodedInt_def)
  next
    case 2
    then show ?thesis by (simp add: encode_len_def decodeLengthEncodedInt_def le_nat_le_bytes)
  next
    case 3
    then show ?thesis by (simp add: encode_len_def decodeLengthEncodedInt_def le_nat_le_bytes)
  next
    case 4
    with n show ?thesis by (simp add: encode_len_def decodeLengthEncodedInt_def le_nat_le_bytes)
  qed
qed

lemma length_encode_len: "0 < length (encode_len n)"
  by (simp add: encode_len_def)

lemma decode_string_bytes:
  assumes data: "data = pre @ (encode_len (length s) @ bytes_of s) @ post" and small: "length data < 2 ^ 63"
  shows "decode_string data (length pre) = Inr (Inr (VString s, length pre + length (encode_len (length s) @ bytes_of s)))"
proof -
  have "length s < 2 ^ 64" and sum: "int (length pre) + int (length (encode_len (length s))) + int (length s) < 2 ^ 63"
    using data small by simp_all
  then have d: "decodeLengthEncodedInt (drop (length pre) data) = (length s, length (encode_len (length s)))"
    using data by (simp add: decode_len)
  have w: "wrap64 (int (length s)) = int (length s)"
    "wrap64 (int (length pre) + int (length (encode_len (length s))) + int (length s)) = int (length pre + length (encode_len (length s)) + length s)"
    using sum by (simp_all add: wrap64_id)
  have "length pre \<le> length data" "length pre + length (encode_len (length s)) + length s \<le> length data"
    using data by simp_all
  moreover have "take (length s) (drop (length pre + length (encode_len (length s))) data) = bytes_of s"
    using data by (simp add: bytes_of_def)
  moreover have "nat (int (length pre) + int (length (encode_len (length s))) + int (length s))
      = length pre + length (encode_len (length s)) + length s"
    by linarith
  ultimately show ?thesis
    using length_encode_len [of "length s"] by (simp add: decode_string_def d w Let_def)
qed

lemma decode_param:
  assumes "wparam_ok p" and "\<not> is_null p" and data: "data = pre @ wbytes p @ post" and "length data < 2 ^ 63"
  shows "decodeParamValue data (length pre) (fst (wtype p)) (snd (wtype p) = 0x80) =
    Inr (Inr (wvalue p, length pre + length (wbytes p)))"
proof (cases p)
  case (WInt k i)
  let ?m = "nat (i mod 2 ^ (8 * k))"
  have k: "k \<in> {1, 2, 4, 8}" "0 < k" and b: "- (2 ^ (8 * k - 1)) \<le> i" "i < 2 ^ (8 * k - 1)"
    using assms(1) WInt by auto
  have "decode_fixed k data (length pre) False = Inr (VInt i, length pre + k)"
    using decode_fixed_bytes [of data pre k ?m post False] signed_value [OF k(2) b] data WInt by simp
  with k(1) WInt show ?thesis
    by (auto simp: decodeParamValue_def int_type_def)
next
  case (WUint k n)
  have k: "k \<in> {1, 2, 4, 8}" "n < 2 ^ (8 * k)"
    using assms(1) WUint by auto
  have "decode_fixed k data (length pre) True = Inr (VUint n, length pre + k)"
    using decode_fixed_bytes [of data pre k n post True] k(2) data WUint by simp
  with k(1) WUint show ?thesis
    by (auto simp: decodeParamValue_def int_type_def)
next
  case (WStr s)
  with decode_string_bytes [of data pre s post] data assms(4) show ?thesis
    by (simp add: decodeParamValue_def)
qed (use assms(2) in simp)

lemma decode_params_bytes:
  assumes "length data < 2 ^ 63" and "data = pre @ concat (map wbytes ps) @ post" and "list_all wparam_ok ps"
    and "\<And>j. j < length ps \<Longrightarrow> bit (nb ! ((i + j) div 8)) ((i + j) mod 8) = is_null (ps ! j)"
    and "\<And>j. j < length ps \<Longrightarrow> types ! ((i + j) * 2) = fst (wtype (ps ! j))"
    and "\<And>j. j < length ps \<Longrightarrow> types ! ((i + j) * 2 + 1) = snd (wtype (ps ! j))"
  shows "decode_params data nb True types (length pre) i (length ps) = Inr (Inr (map wvalue ps))"
  using assms
proof (induction ps arbitrary: pre i)
  case (Cons p ps)
  have now: "bit (nb ! (i div 8)) (i mod 8) = is_null p" "types ! (i * 2) = fst (wtype p)" "types ! (i * 2 + 1) = snd (wtype p)"
    using Cons.prems(4-6) [of 0] by simp_all
  have IH: "decode_params data nb True types (length (pre @ wbytes p)) (i + 1) (length ps) = Inr (Inr (map wvalue ps))"
    using Cons.prems(1,2,3) Cons.prems(4-6) [of "Suc _"] by (intro Cons.IH) simp_all
  show ?case
  proof (cases "is_null p")
    case True
    then have "wbytes p = []" "wvalue p = VNil" by (cases p; simp)+
    with True now IH show ?thesis by simp
  next
    case False
    have "decodeParamValue data (length pre) (fst (wtype p)) (snd (wtype p) = 0x80) =
        Inr (Inr (wvalue p, length pre + length (wbytes p)))"
      using Cons.prems(1,2,3) False by (intro decode_param [where post = "concat (map wbytes ps) @ post"]) simp_all
    with False now IH show ?thesis by simp
  qed
qed simp

lemma concat_types_nth:
  "j < length ps \<Longrightarrow> concat (map (\<lambda>p. [fst (wtype p), snd (wtype p)]) ps) ! (j * 2) = fst (wtype (ps ! j))"
  "j < length ps \<Longrightarrow> concat (map (\<lambda>p. [fst (wtype p), snd (wtype p)]) ps) ! (j * 2 + 1) = snd (wtype (ps ! j))"
  by (induction ps arbitrary: j) (auto simp: nth_Cons' less_Suc_eq_0_disj)

lemma length_concat_types: "length (concat (map (\<lambda>p. [fst (wtype p), snd (wtype p)]) ps)) = 2 * length ps"
  by (induction ps) simp_all

section \<open>Lemmas on splitting\<close>

lemma utf8_len_append:
  assumes "utf8_len s = Some k"
  shows "utf8_len (s @ t) = Some k"
proof -
  consider "s = []" | a where "s = [a]" | a b where "s = [a, b]" | a b c where "s = [a, b, c]"
    | a b c d r where "s = a # b # c # d # r"
    by (metis neq_Nil_conv)
  then show ?thesis
    using assms by cases (simp_all add: utf8_len_def split: if_splits)
qed

lemma runes_append_fuel: "valid_utf8_fuel n s \<Longrightarrow> runes (s @ t) = runes s @ runes t"
proof (induction n s rule: valid_utf8_fuel.induct)
  case (3 n c cs)
  then obtain k where k: "utf8_len (c # cs) = Some k"
    by (auto split: option.splits)
  have len: "k \<le> length (c # cs)"
    using utf8_len_bounds [OF k] by simp
  have k': "utf8_len (c # cs @ t) = Some k"
    using utf8_len_append [OF k, of t] by simp
  have IH: "runes (drop k (c # cs) @ t) = runes (drop k (c # cs)) @ runes t"
    using 3 k by simp
  have "runes ((c # cs) @ t) = take k ((c # cs) @ t) # runes (drop k ((c # cs) @ t))"
    using k' by (subst runes.simps) simp
  moreover have "runes (c # cs) = take k (c # cs) # runes (drop k (c # cs))"
    using k by (subst runes.simps) simp
  moreover have "take k ((c # cs) @ t) = take k (c # cs)" "drop k ((c # cs) @ t) = drop k (c # cs) @ t"
    using len by (simp_all del: append_Cons)
  ultimately show ?case
    using IH by simp
qed simp_all

lemma runes_append: "valid_utf8 s \<Longrightarrow> runes (s @ t) = runes s @ runes t"
  unfolding valid_utf8_def by (rule runes_append_fuel)

text \<open>
  Scanning for a semicolon outside quotes: the open quote, if any, and whether the next rune is escaped; no
  result when such a semicolon is met. A statement is complete when nothing is left open at its end.
\<close>

definition next_quote :: "string option \<Rightarrow> string \<Rightarrow> string option" where
  "next_quote q r = (if is_quote r then (case q of None \<Rightarrow> Some r | Some c \<Rightarrow> if r = c then None else q) else q)"

fun scan :: "string option \<Rightarrow> bool \<Rightarrow> string list \<Rightarrow> (string option \<times> bool) option" where
  "scan q esc [] = Some (q, esc)"
| "scan q esc (r # rs) =
     (if esc then scan q False rs
      else if r = [CHR 0x5C] then scan q True rs
      else if r = '';'' \<and> next_quote q r = None then None
      else scan (next_quote q r) False rs)"

definition complete :: "string \<Rightarrow> bool" where
  "complete s \<longleftrightarrow> valid_utf8 s \<and> scan None False (runes s) = Some (None, False)"

definition quote_state :: "string option \<Rightarrow> splitter \<Rightarrow> bool" where
  "quote_state q sp \<longleftrightarrow> (case q of None \<Rightarrow> \<not> sp_inQuote sp | Some c \<Rightarrow> sp_inQuote sp \<and> sp_quoteChar sp = c)"

lemma split_rune_escape:
  assumes "sp_escaped sp \<or> r = [CHR 0x5C]"
  shows "split_rune sp r = sp\<lparr>sp_current := sp_current sp @ r, sp_escaped := \<not> sp_escaped sp\<rparr>"
  using assms by (cases "sp_escaped sp") (simp_all add: split_rune_def)

lemma split_rune_plain:
  assumes "quote_state q sp" and "\<not> sp_escaped sp" and "r \<noteq> [CHR 0x5C]" and "\<not> (r = '';'' \<and> next_quote q r = None)"
  shows "quote_state (next_quote q r) (split_rune sp r)" "\<not> sp_escaped (split_rune sp r)"
    "sp_queries (split_rune sp r) = sp_queries sp" "sp_current (split_rune sp r) = sp_current sp @ r"
proof -
  obtain sp1 where sp1: "sp1 = (if is_quote r then
                        if \<not> sp_inQuote sp then sp\<lparr>sp_inQuote := True, sp_quoteChar := r\<rparr>
                        else if r = sp_quoteChar sp then sp\<lparr>sp_inQuote := False\<rparr>
                        else sp
                      else sp)" by simp
  have q1: "quote_state (next_quote q r) sp1"
    using assms(1) by (cases q) (simp_all add: sp1 quote_state_def next_quote_def)
  have same: "\<not> sp_escaped sp1" "sp_queries sp1 = sp_queries sp" "sp_current sp1 = sp_current sp"
    using assms(2) by (simp_all add: sp1)
  have "r = '';'' \<Longrightarrow> sp_inQuote sp1"
    using q1 assms(4) by (cases "next_quote q r") (auto simp: quote_state_def)
  then have "split_rune sp r = sp1\<lparr>sp_current := sp_current sp1 @ r\<rparr>"
    unfolding split_rune_def Let_def sp1 [symmetric] using assms(2,3) by auto
  with q1 same show "quote_state (next_quote q r) (split_rune sp r)" "\<not> sp_escaped (split_rune sp r)"
    "sp_queries (split_rune sp r) = sp_queries sp" "sp_current (split_rune sp r) = sp_current sp @ r"
    by (simp_all add: quote_state_def cong: option.case_cong)
qed

lemma foldl_scan:
  assumes "scan q (sp_escaped sp) rs = Some (q', esc')" and "quote_state q sp"
  shows "sp_queries (foldl split_rune sp rs) = sp_queries sp \<and> sp_current (foldl split_rune sp rs) = sp_current sp @ concat rs \<and>
    quote_state q' (foldl split_rune sp rs) \<and> sp_escaped (foldl split_rune sp rs) = esc'"
  using assms
proof (induction rs arbitrary: q sp)
  case (Cons r rs)
  show ?case
  proof (cases "sp_escaped sp \<or> r = [CHR 0x5C]")
    case True
    let ?sp = "sp\<lparr>sp_current := sp_current sp @ r, sp_escaped := \<not> sp_escaped sp\<rparr>"
    have "scan q (sp_escaped ?sp) rs = Some (q', esc')" "quote_state q ?sp"
      using True Cons.prems by (auto simp: quote_state_def split: if_splits option.splits)
    from Cons.IH [OF this] show ?thesis
      using split_rune_escape [OF True] by simp
  next
    case False
    then have n: "\<not> (r = '';'' \<and> next_quote q r = None)" "scan (next_quote q r) False rs = Some (q', esc')"
      using Cons.prems(1) by (simp_all split: if_splits)
    note sr = split_rune_plain [OF Cons.prems(2) _ _ n(1)]
    show ?thesis
      using Cons.IH [of "next_quote q r" "split_rune sp r"] n(2) sr False by simp
  qed
qed simp

lemma split_statement:
  assumes "complete s" and "quote_state None sp" and "\<not> sp_escaped sp"
  shows "sp_queries (foldl split_rune sp (runes s)) = sp_queries sp" "sp_current (foldl split_rune sp (runes s)) = sp_current sp @ s"
    "quote_state None (foldl split_rune sp (runes s))" "\<not> sp_escaped (foldl split_rune sp (runes s))"
  using foldl_scan [of None sp "runes s" None False] assms by (auto simp: complete_def concat_runes)

lemma split_join:
  assumes "list_all complete ss" and "quote_state None sp" and "\<not> sp_escaped sp" and "sp_current sp = []"
  shows "sp_queries (flush (foldl split_rune sp (runes (Join ss '';'')))) = sp_queries sp @ filter (\<lambda>q. q \<noteq> []) (map TrimSpace ss)"
  using assms
proof (induction ss "'';''" arbitrary: sp rule: Join.induct)
  case 1
  then show ?case by (simp add: flush_def Let_def)
next
  case (2 w)
  then show ?case
    using split_statement [of w sp] by (auto simp: flush_def Let_def)
next
  case (3 w v ws)
  let ?sp = "foldl split_rune sp (runes w)"
  have w: "complete w" using "3.prems" by simp
  note st = split_statement [OF w "3.prems"(2,3)]
  have semi: "split_rune ?sp '';'' = flush ?sp"
    using st by (simp add: split_rune_def is_quote_def quote_state_def)
  have fl: "quote_state None (flush ?sp)" "\<not> sp_escaped (flush ?sp)" "sp_current (flush ?sp) = []"
    "sp_queries (flush ?sp) = sp_queries sp @ filter (\<lambda>q. q \<noteq> []) [TrimSpace w]"
    using st "3.prems"(4) by (auto simp: flush_def Let_def quote_state_def)
  have "runes (w @ '';'' @ Join (v # ws) '';'') = runes w @ '';'' # runes (Join (v # ws) '';'')"
    using w by (simp add: complete_def runes_append in_range_def)
  then have "foldl split_rune sp (runes (Join (w # v # ws) '';'')) = foldl split_rune (flush ?sp) (runes (Join (v # ws) '';''))"
    using semi by simp
  with "3.hyps" [OF _ fl(1-3)] "3.prems"(1) fl(4) show ?case
    by simp
qed

lemma le_bytes_2: "le_bytes 2 n = [of_nat n, of_nat (n div 256)]"
  by (simp only: numeral_2_eq_2 le_bytes.simps)

lemma eof_frame:
  "frame s (eof_packet st w1 w2) = [5, 0, 0, s, 0xFE, w1, w2, of_nat (unat st), of_nat (unat st div 256)]"
proof -
  have "le_bytes 3 5 = [5, 0, 0]"
    by (simp only: numeral_3_eq_3 le_bytes.simps) simp
  then show ?thesis
    unfolding frame_header length_eof_packet by (simp add: eof_packet_def le_bytes_2)
qed

lemma set_more_results_eof:
  "set_more_results lib (frame s (eof_packet st w1 w2)) = Inr (frame s (eof_packet (st OR ml_StatusMoreResultsExists lib) w1 w2))"
proof -
  have "drop 7 (frame s (eof_packet st w1 w2)) = le_bytes 2 (unat st) @ []"
    by (simp add: eof_frame le_bytes_2)
  moreover have "put_word16 7 w (frame s (eof_packet st w1 w2)) = frame s (eof_packet w w1 w2)" for w
    by (simp add: put_word16_def eof_frame)
  moreover have "frame s (eof_packet st w1 w2) ! 4 = 0xFE"
    by (simp add: eof_frame)
  ultimately show ?thesis
    by (simp add: set_more_results_def del: append_Nil2)
qed

text \<open>A driver with the constants of the protocol, for the instances below.\<close>

definition protocol_lib :: mysql_lib where
  "protocol_lib = \<lparr>ml_StatusInTrans = 0x0001, ml_StatusInAutocommit = 0x0002, ml_StatusMoreResultsExists = 0x0008,
     ml_ComQuit = 0x01, ml_ComInitDB = 0x02, ml_ComQuery = 0x03, ml_ComFieldList = 0x04, ml_ComPing = 0x0e,
     ml_ComStmtPrepare = 0x16, ml_ComStmtExecute = 0x17, ml_ComStmtClose = 0x19, ml_ComStmtReset = 0x1a,
     ml_ReadLengthEncodedInteger = (\<lambda>data. if data \<noteq> [] \<and> hd data = 0xfb then 1 else snd (decodeLengthEncodedInt data)),
     ml_WriteOKPacket = (\<lambda>rows lastID status. 0x00 # encode_len (unat rows) @ encode_len (unat lastID) @ le_bytes 2 (unat status) @ [0, 0]),
     ml_WriteErrorPacket = (\<lambda>msg. 0xff # le_bytes 2 1105 @ bytes_of (''#HY000'' @ msg)),
     ml_WriteEOFPacket = (\<lambda>status. [0xfe, 0, 0] @ le_bytes 2 (unat status))\<rparr>"

lemma protocol_more_results [simp]: "ml_StatusMoreResultsExists protocol_lib = 8"
  by (simp add: protocol_lib_def)

lemma renumbered_append:
  "renumbered seq (ps @ ps') = renumbered seq ps @ renumbered (seq + of_nat (length ps)) ps'"
  by (induction ps arbitrary: seq) (simp_all add: add.assoc)

lemma length_frames_renumbered: "length (frames (renumbered seq (map snd pkts))) = length (frames pkts)"
  by (induction pkts arbitrary: seq) (auto simp: split_def frames_def)

section \<open>Properties\<close>

lemma read_packet_short: "length s < 4 + le_nat (take 3 s) \<Longrightarrow> read_packet s = None"
  by (auto simp: read_packet_def read_full_def)

text \<open>A packet that one side frames is the packet the other side reads, whatever follows it, and no part
  of it is taken for a packet.\<close>

lemma packet_roundtrip:
  assumes "length p < 2 ^ 24"
  shows "read_packet (frame seq p @ s) = Some (seq, p, s) \<and>
    (\<forall>k < length (frame seq p). read_packet (take k (frame seq p)) = None)"
proof (intro conjI allI impI)
  show "read_packet (frame seq p @ s) = Some (seq, p, s)"
    by (rule read_packet_frame [OF assms])
next
  fix k assume k: "k < length (frame seq p)"
  show "read_packet (take k (frame seq p)) = None"
  proof (cases "k < 4")
    case True
    then show ?thesis by (simp add: read_packet_def read_full_def)
  next
    case False
    then have "take 3 (take k (frame seq p)) = le_bytes 3 (length p)"
      using frame_parts(4) [OF assms, of seq "[]"] by (simp add: min_def)
    then have "le_nat (take 3 (take k (frame seq p))) = length p"
      using assms by (simp add: le_nat_le_bytes)
    with k show ?thesis
      by (intro read_packet_short) simp
  qed
qed

lemma packet_roundtrip_witness:
  "read_packet (frame 7 [3, 0x41] @ [9]) = Some (7, [3, 0x41], [9]) \<and> read_packet (take 5 (frame 7 [3, 0x41])) = None"
  using packet_roundtrip [of "[3, 0x41]" 7 "[9]"] by simp

text \<open>C26: The parameters of a prepared statement are decoded to the values the client encoded: NULLs by the
  bitmap, integers of one, two, four and eight bytes with and without sign, strings of any length, as many as
  the statement has question marks.\<close>

theorem decodeStmtParams_roundtrip:
  assumes n: "CountChar (pq_Query parsed) (CHR ''?'') = length ps" and "ps \<noteq> []" and "list_all wparam_ok ps"
    and "length hdr = 9" and "length nb = (length ps + 7) div 8"
    and "\<forall>j < length ps. bit (nb ! (j div 8)) (j mod 8) = is_null (ps ! j)"
    and "length (hdr @ nb @ [1] @ concat (map (\<lambda>p. [fst (wtype p), snd (wtype p)]) ps) @ concat (map wbytes ps)) < 2 ^ 63"
  shows "decodeStmtParams (hdr @ nb @ [1] @ concat (map (\<lambda>p. [fst (wtype p), snd (wtype p)]) ps) @ concat (map wbytes ps)) parsed
    = Inr (Inr (map wvalue ps))"
proof -
  define types where "types = concat (map (\<lambda>p. [fst (wtype p), snd (wtype p)]) ps)"
  define data where "data = hdr @ nb @ [1] @ types @ concat (map wbytes ps)"
  let ?L = "(length ps + 7) div 8"
  have lt: "length types = length ps * 2"
    by (simp add: types_def length_concat_types)
  have pos: "0 < length ps" using assms(2) by simp
  have parts: "take ?L (drop 9 data) = nb" "data ! (9 + ?L) = 1" "take (length ps * 2) (drop (9 + ?L + 1) data) = types"
    using assms(4,5) lt by (simp_all add: data_def nth_append)
  have lens: "\<not> length data < 10" "\<not> length data < 10 + ?L" "\<not> 9 + ?L + 1 + length ps * 2 > length data"
    using assms(4,5) lt by (simp_all add: data_def)
  have pre: "length (hdr @ nb @ [1] @ types) = 9 + ?L + 1 + length ps * 2"
    using assms(4,5) lt by simp
  have "decode_params data nb True types (length (hdr @ nb @ [1] @ types)) 0 (length ps) = Inr (Inr (map wvalue ps))"
    using assms(3,6,7) concat_types_nth [of _ ps]
    by (intro decode_params_bytes [where post = "[]"]) (simp_all add: data_def types_def)
  then have "decodeStmtParams data parsed = Inr (Inr (map wvalue ps))"
    using lens pos parts unfolding pre by (simp add: decodeStmtParams_def n Let_def)
  then show ?thesis
    by (simp add: data_def types_def)
qed

theorem decodeStmtParams_roundtrip_witness:
  "decodeStmtParams ([1, 0, 0, 0, 0, 1, 0, 0, 0] @ [2] @ [1] @ [0x01, 0x00, 0xfd, 0x00, 0xfd, 0x00] @ [0xFE, 2, 0x68, 0x69])
     (Parse ''INSERT INTO t VALUES (?, ?, ?)'') = Inr (Inr [VInt (- 2), VNil, VString ''hi''])"
proof -
  let ?ps = "[WInt 1 (-2), WNull 0xfd 0, WStr ''hi'']"
  have c: "CountChar (pq_Query (Parse ''INSERT INTO t VALUES (?, ?, ?)'')) (CHR ''?'') = length ?ps"
    by code_simp
  have ok: "list_all wparam_ok ?ps" by simp
  have b: "\<forall>j < length ?ps. bit ([2 :: byte] ! (j div 8)) (j mod 8) = is_null (?ps ! j)"
    by (simp add: less_Suc_eq)
  have t: "concat (map (\<lambda>p. [fst (wtype p), snd (wtype p)]) ?ps) = [0x01, 0x00, 0xfd, 0x00, 0xfd, 0x00]"
    by (simp add: int_type_def)
  have v: "concat (map wbytes ?ps) = [0xFE, 2, 0x68, 0x69]"
    by code_simp
  show ?thesis
    using decodeStmtParams_roundtrip [OF c _ ok _ _ b, of "[1, 0, 0, 0, 0, 1, 0, 0, 0]"] unfolding t v by simp
qed

text \<open>A client can crash the proxy: an execution of a batched prepared statement whose string parameter
  announces \<open>2 ^ 64 - 1\<close> bytes passes the length test, because the sum wraps, and the slice behind it panics.\<close>

lemma huge_parameter_panics:
  "\<exists>parsed. Parse ''/* ttl:0 batch:5 */ INSERT INTO t VALUES (?)'' = parsed \<and> IsWritable parsed \<and> IsBatchable parsed \<and>
   decodeStmtParams ([1, 0, 0, 0, 0, 1, 0, 0, 0] @ [0] @ [1] @ [0xfd, 0x00] @ [0xfe] @ [0xFF, 0xFF, 0xFF, 0xFF, 0xFF, 0xFF, 0xFF, 0xFF]) parsed = Inl SliceOutOfRange"
proof (intro exI conjI)
  show "Parse ''/* ttl:0 batch:5 */ INSERT INTO t VALUES (?)'' =
      \<lparr>pq_Type = QueryInsert, pq_TTL = 0, pq_DB = [], pq_File = [], pq_Line = 0, pq_BatchMs = 5, pq_Query = ''INSERT INTO t VALUES (?)''\<rparr>"
    by code_simp
  show "IsWritable \<lparr>pq_Type = QueryInsert, pq_TTL = 0, pq_DB = [], pq_File = [], pq_Line = 0, pq_BatchMs = 5, pq_Query = ''INSERT INTO t VALUES (?)''\<rparr>"
    by code_simp
  show "IsBatchable \<lparr>pq_Type = QueryInsert, pq_TTL = 0, pq_DB = [], pq_File = [], pq_Line = 0, pq_BatchMs = 5, pq_Query = ''INSERT INTO t VALUES (?)''\<rparr>"
    by code_simp
  have "le_nat [0xFF, 0xFF, 0xFF, 0xFF, 0xFF, 0xFF, 0xFF, 0xFF] = 18446744073709551615"
    by simp
  then show "decodeStmtParams ([1, 0, 0, 0, 0, 1, 0, 0, 0] @ [0] @ [1] @ [0xfd, 0x00] @ [0xfe] @ [0xFF, 0xFF, 0xFF, 0xFF, 0xFF, 0xFF, 0xFF, 0xFF])
      \<lparr>pq_Type = QueryInsert, pq_TTL = 0, pq_DB = [], pq_File = [], pq_Line = 0, pq_BatchMs = 5, pq_Query = ''INSERT INTO t VALUES (?)''\<rparr> = Inl SliceOutOfRange"
    by (simp add: decodeStmtParams_def CountChar_def decodeParamValue_def decode_string_def decodeLengthEncodedInt_def wrap64_def)
qed

text \<open>C27: The readers of responses take exactly one result set from the stream. For a result set in the classic
  protocol (the column definitions, an EOF packet, the rows, an EOF packet without the more-results flag) the
  response is all of its packets, and the bytes behind it stay for the next command; a row may start with any
  byte but 0xFF, and with 0xFE when it is longer than an EOF packet. This holds for text rows and for the binary
  rows of prepared statements, which start with 0x00.\<close>

theorem result_set_read:
  assumes "defs \<noteq> []" and "\<forall>(s, p) \<in> set defs. length p < 2 ^ 24 \<and> plain_first p \<and> hd p \<noteq> 0xFB"
    and "\<forall>(s, p) \<in> set rows. length p < 2 ^ 24 \<and> row_first p"
    and "status2 AND ml_StatusMoreResultsExists lib = 0"
  shows "(let pkts = defs @ [(s1, eof_packet status1 w1 w2)] @ rows @ [(s2, eof_packet status2 w3 w4)]
     in read_response (query_verdict lib) 0 0 [] (frames pkts @ rest) = Got s2 (frames pkts) rest \<and>
        read_response (response_verdict lib) 0 0 [] (frames pkts @ rest) = Got s2 (frames pkts) rest)"
  unfolding Let_def using assms
  by (intro conjI read_result_set [where lib = lib]) (auto simp del: One_nat_def)

theorem result_set_read_witness:
  "let pkts = [(1, [1]), (2, [3, 0x64])] @ [(3, eof_packet 2 0 0)] @ [(4, [0xFB, 1])] @ [(5, eof_packet 2 0 0)]
   in read_response (query_verdict protocol_lib) 0 0 [] (frames pkts @ [9]) = Got 5 (frames pkts) [9] \<and>
      read_response (response_verdict protocol_lib) 0 0 [] (frames pkts @ [9]) = Got 5 (frames pkts) [9]"
  by (rule result_set_read) (simp_all add: plain_first_def row_first_def)

text \<open>A request for a local file is lost on a plain query: the reader of prepared statements stops at the
  packet that starts with 0xFB, the reader of queries waits for more packets, which the server does not send, and
  fails. The test for such a packet behind the query is never reached with one.\<close>

lemma local_infile_not_recognised:
  assumes "length name < 2 ^ 24 - 1"
  shows "read_response (response_verdict lib) 0 0 [] (frame seq (0xFB # name)) = Got seq (frame seq (0xFB # name)) [] \<and>
    read_response (query_verdict lib) 0 0 [] (frame seq (0xFB # name)) = ReadError"
proof -
  have "length (0xFB # name) < 2 ^ 24" using assms by simp
  note rf = read_response_frame [OF this, where s = "[]", unfolded append_Nil2]
  have "read_response (query_verdict lib) 1 0 (frame seq (0xFB # name)) [] = ReadError"
    by (subst read_response.simps) (simp add: read_packet_def read_full_def)
  then show ?thesis
    by (simp add: rf response_verdict_def query_verdict_def)
qed

lemma local_infile_not_recognised_witness:
  "read_response (response_verdict protocol_lib) 0 0 [] (frame 1 [0xFB, 0x66]) = Got 1 (frame 1 [0xFB, 0x66]) [] \<and>
   read_response (query_verdict protocol_lib) 0 0 [] (frame 1 [0xFB, 0x66]) = ReadError"
  using local_infile_not_recognised [of "[0x66]" protocol_lib 1] by simp

text \<open>C28: Forwarding a response keeps the payload of every packet and numbers the packets from the client's
  sequence number on, modulo 256. When more results follow, a final EOF packet gets the more-results flag, and
  nothing else changes.\<close>

theorem forwarded_packets:
  assumes "\<forall>(s, p) \<in> set pkts. length p < 2 ^ 24"
  shows "forward_bytes lib seq (frames pkts) False =
      Inr (frames (renumbered seq (map snd pkts)), seq + of_nat (length pkts)) \<and>
    forward_bytes lib seq (frames (pkts @ [(s', eof_packet st w1 w2)])) True =
      Inr (frames (renumbered seq (map snd pkts @ [eof_packet (st OR ml_StatusMoreResultsExists lib) w1 w2])),
           seq + of_nat (length pkts) + 1)"
proof (intro conjI)
  show "forward_bytes lib seq (frames pkts) False = Inr (frames (renumbered seq (map snd pkts)), seq + of_nat (length pkts))"
    using renumber_frames [OF assms, of seq 0 0] by (auto simp: forward_bytes_def)
next
  let ?pkts = "pkts @ [(s', eof_packet st w1 w2)]"
  let ?q = "seq + of_nat (length pkts) + 1"
  have "\<forall>(s, p) \<in> set ?pkts. length p < 2 ^ 24"
    using assms by auto
  from renumber_frames [OF this, of seq 0 0]
  have r: "renumber seq 0 0 (frames ?pkts) = (frames (renumbered seq (map snd ?pkts)), ?q, length (frames pkts))"
    by (auto simp: add.assoc)
  have sp: "renumbered seq (map snd pkts @ [p]) = renumbered seq (map snd pkts) @ [(?q, p)]" for p
    by (simp add: renumbered_append)
  have len: "length (frames (renumbered seq (map snd pkts))) = length (frames pkts)"
    by (rule length_frames_renumbered)
  show "forward_bytes lib seq (frames ?pkts) True =
      Inr (frames (renumbered seq (map snd pkts @ [eof_packet (st OR ml_StatusMoreResultsExists lib) w1 w2])), ?q)"
    unfolding forward_bytes_def r using len by (simp add: sp set_more_results_eof)
qed

theorem forwarded_packets_witness:
  "forward_bytes protocol_lib 7 (frames [(1, [1]), (2, [3])]) False = Inr (frames [(8, [1]), (9, [3])], 9) \<and>
   forward_bytes protocol_lib 7 (frames ([(1, [1]), (2, [3])] @ [(3, eof_packet 2 0 0)])) True =
     Inr (frames [(8, [1]), (9, [3]), (10, eof_packet 0x0A 0 0)], 10)"
  using forwarded_packets [of "[(1, [1]), (2, [3])]" protocol_lib 7 3 2 0 0] by (simp del: frames_simps)

text \<open>C31: A query of several statements is split at the semicolons between them: when every statement is complete
  (its quotes are closed, no backslash stands open at its end, and its semicolons are quoted or escaped), the parts
  are the statements without the spaces around them, the empty ones left out.\<close>

theorem splitQueries_statements:
  assumes "list_all complete ss"
  shows "splitQueries (Join ss '';'') = filter (\<lambda>q. q \<noteq> []) (map TrimSpace ss)"
  unfolding splitQueries_def using split_join [OF assms, of splitter0] by (simp add: splitter0_def quote_state_def)

theorem splitQueries_statements_witness:
  "splitQueries (''SELECT '' @ [CHR 0x27] @ '';'' @ [CHR 0x27] @ ''; ; UPDATE t SET a=1'') = [''SELECT '' @ [CHR 0x27] @ '';'' @ [CHR 0x27], ''UPDATE t SET a=1'']"
proof -
  have c: "list_all complete [''SELECT '' @ [CHR 0x27] @ '';'' @ [CHR 0x27], '' '', '' UPDATE t SET a=1'']"
    by code_simp
  have t: "filter (\<lambda>q. q \<noteq> []) (map TrimSpace [''SELECT '' @ [CHR 0x27] @ '';'' @ [CHR 0x27], '' '', '' UPDATE t SET a=1'']) = [''SELECT '' @ [CHR 0x27] @ '';'' @ [CHR 0x27], ''UPDATE t SET a=1'']"
    by code_simp
  show ?thesis
    using splitQueries_statements [OF c] unfolding t by simp
qed

end
