(* ===== verification/Maria_Conn.thy ===== *)
theory Maria_Conn
  imports Go_Monad Configuration Caching Maria_Wire Metrics
begin

text \<open>
  A client connection of the MariaDB proxy, \<^verbatim>\<open>mariadb/mariadb.go\<close>: its state, the packets it exchanges with
  the client and with the backend, and the choice and the change of the backend connection. The streams of
  the client and of a backend are the bytes they send, read from the front; what the proxy writes is logged.
  Everything outside the repository (the driver, the store of the cache, Prometheus, the network) is the record \<open>menv\<close>,
  an argument of the definitions; \<open>cc_tick\<close> numbers the calls of it, so that equal calls may have different
  results. \<open>cc_metrics\<close> are the values recorded for metrics, with their labels. The logging of the code is left out.
\<close>

section \<open>The environment\<close>

text \<open>
  The driver's \<^verbatim>\<open>Connect\<close>: it fails, gives a connection (the bytes the backend will send on it; \<^verbatim>\<open>None\<close> when
  \<^verbatim>\<open>GetRawConn\<close> returns nil), or calls \<^verbatim>\<open>HandleAuth\<close> with the plugin, the salt and the capabilities of the server and
  goes on with the user and the answer of the callback, or with its error.
\<close>

datatype connect =
    ConnectFails string
  | Connected "bytes option"
  | CallHandleAuth string bytes "32 word" "goerr + string \<times> bytes \<Rightarrow> connect"

record mysql_Config =
  mc_User :: string
  mc_Net :: string
  mc_Addr :: string
  mc_DBName :: string

record 's menv =
  me_lib :: mysql_lib
  me_tq :: "'s tqmemory"
  me_wait :: "'s Cache \<Rightarrow> nat \<Rightarrow> 's Cache \<times> wake"
  me_connect :: "nat \<Rightarrow> mysql_Config \<Rightarrow> connect"
  me_Enqueue :: "nat \<Rightarrow> string \<Rightarrow> string \<Rightarrow> govalue list \<Rightarrow> int \<Rightarrow> WriteResult"
  me_write_error :: "nat \<Rightarrow> string option"
  me_read_error :: "nat \<Rightarrow> goerr"
  me_sha1_hex :: "bytes \<Rightarrow> string"
  me_WriteHandshakeV10 :: "32 word \<Rightarrow> bytes \<Rightarrow> 32 word \<Rightarrow> 16 word \<Rightarrow> bytes"
  me_ParseHandshakeResponse :: "bytes \<Rightarrow> string + (32 word \<times> string \<times> bytes \<times> string)"
  me_stripped_capabilities :: "32 word"
  me_prom :: prometheus

section \<open>State\<close>

record 's Proxy =
  px_config :: ProxyConfig
  px_pools :: "(string, nat) gomap"
  px_heap :: PoolHeap
  px_cache :: "'s Cache"
  px_writeBatch :: bool

text \<open>A backend connection: the address it was dialled to and the bytes still to be read from it.\<close>

record backend_conn =
  bk_addr :: string
  bk_in :: bytes

record 's clientConn =
  cc_proxy :: "'s Proxy"
  cc_in :: bytes
  cc_out :: "bytes list"
  cc_sent :: "(string \<times> bytes) list"
  cc_tick :: nat
  cc_metrics :: "(metric \<times> string list) list"
  cc_backend :: "backend_conn option"
  cc_backendPool :: "nat option"
  cc_connID :: "32 word"
  cc_capability :: "32 word"
  cc_status :: "16 word"
  cc_sequence :: byte
  cc_backendSeq :: byte
  cc_salt :: bytes
  cc_db :: string
  cc_user :: string
  cc_auth :: bytes
  cc_rawAuthPkt :: bytes
  cc_backendAddr :: string
  cc_backendName :: string
  cc_lastQueryBackend :: string
  cc_lastQueryShard :: string
  cc_lastQueryCacheHit :: bool
  cc_lastBatchSize :: int
  cc_preparedStatements :: "(32 word, ParsedQuery) gomap"
  cc_inTransaction :: bool

text \<open>\<open>cc_out\<close> are the writes to the client, \<open>cc_sent\<close> the writes to backends with the address of each.\<close>

type_synonym ('s, 'a) mgo = "('s clientConn, 'a) go"

definition New_proxy :: "ProxyConfig \<Rightarrow> (string, nat) gomap \<Rightarrow> PoolHeap \<Rightarrow> 's Cache \<Rightarrow> 's Proxy" where
  "New_proxy pcfg pools h c = \<lparr>px_config = pcfg, px_pools = pools, px_heap = h, px_cache = c, px_writeBatch = False\<rparr>"

definition UpdateConfig :: "ProxyConfig \<Rightarrow> (string, nat) gomap \<Rightarrow> 's Proxy \<Rightarrow> 's Proxy" where
  "UpdateConfig pcfg pools p = p\<lparr>px_config := pcfg, px_pools := pools\<rparr>"

section \<open>Packets of the client\<close>

definition tick :: "('s, nat) mgo" where
  "tick = andthen (gets cc_tick) (\<lambda>n. next_do (modify (\<lambda>c. c\<lparr>cc_tick := n + 1\<rparr>)) (ret n))"

text \<open>Values recorded for metrics; labels that are refused panic.\<close>

definition record_calls :: "'s menv \<Rightarrow> (metric \<times> string list) list \<Rightarrow> ('s, unit) mgo" where
  "record_calls E calls =
     (if accepts_all (me_prom E) calls then modify (\<lambda>c. c\<lparr>cc_metrics := cc_metrics c @ calls\<rparr>) else crash InvalidLabel)"

definition conn_Write :: "'s menv \<Rightarrow> bytes \<Rightarrow> ('s, unit) mgo" where
  "conn_Write E bs = andthen tick (\<lambda>n.
     case me_write_error E n of
       Some e \<Rightarrow> raise (ErrMsg e)
     | None \<Rightarrow> modify (\<lambda>c. c\<lparr>cc_out := cc_out c @ [bs]\<rparr>))"

definition writePacket :: "'s menv \<Rightarrow> bytes \<Rightarrow> ('s, unit) mgo" where
  "writePacket E payload =
     next_do (modify (\<lambda>c. c\<lparr>cc_sequence := cc_sequence c + 1\<rparr>))
       (andthen (gets cc_sequence) (\<lambda>seq. conn_Write E (frame seq payload)))"

text \<open>\<^verbatim>\<open>io.ReadFull\<close> on the client: all of a short stream is read before the error.\<close>

definition read_client :: "nat \<Rightarrow> ('s, bytes) mgo" where
  "read_client n = andthen (gets cc_in) (\<lambda>s.
     case read_full n s of
       None \<Rightarrow> next_do (modify (\<lambda>c. c\<lparr>cc_in := []\<rparr>)) (raise (if s = [] then EOF else ErrMsg ''unexpected EOF''))
     | Some (bs, rest) \<Rightarrow> next_do (modify (\<lambda>c. c\<lparr>cc_in := rest\<rparr>)) (ret bs))"

definition readPacket :: "('s, bytes) mgo" where
  "readPacket = andthen (read_client 4) (\<lambda>header.
     next_do (modify (\<lambda>c. c\<lparr>cc_sequence := header ! 3\<rparr>)) (read_client (le_nat (take 3 header))))"

definition writeOKWithRowsAndID :: "'s menv \<Rightarrow> int \<Rightarrow> int \<Rightarrow> bool \<Rightarrow> ('s, unit) mgo" where
  "writeOKWithRowsAndID E affectedRows lastInsertID moreResults =
     andthen (gets cc_status) (\<lambda>status.
       writePacket E (ml_WriteOKPacket (me_lib E) (word_of_int affectedRows) (word_of_int lastInsertID)
         (if moreResults then status OR ml_StatusMoreResultsExists (me_lib E) else status)))"

definition writeOKWithInfo :: "'s menv \<Rightarrow> bool \<Rightarrow> ('s, unit) mgo" where
  "writeOKWithInfo E moreResults =
     andthen (gets cc_status) (\<lambda>status.
       writePacket E (ml_WriteOKPacket (me_lib E) 0 0
         (if moreResults then status OR ml_StatusMoreResultsExists (me_lib E) else status)))"

definition writeOK :: "'s menv \<Rightarrow> ('s, unit) mgo" where
  "writeOK E = writeOKWithInfo E False"

definition writeError :: "'s menv \<Rightarrow> goerr \<Rightarrow> ('s, unit) mgo" where
  "writeError E e = writePacket E (ml_WriteErrorPacket (me_lib E) (error_text e))"

definition writeEOF :: "'s menv \<Rightarrow> ('s, unit) mgo" where
  "writeEOF E = andthen (gets cc_status) (\<lambda>status. writePacket E (ml_WriteEOFPacket (me_lib E) status))"

definition forwardBackendResponse :: "'s menv \<Rightarrow> bytes \<Rightarrow> bool \<Rightarrow> ('s, unit) mgo" where
  "forwardBackendResponse E response moreResults =
     andthen (gets cc_sequence) (\<lambda>seq.
       andthen (or_panic (forward_bytes (me_lib E) seq response moreResults)) (\<lambda>(respCopy, seq').
         next_do (modify (\<lambda>c. c\<lparr>cc_sequence := seq'\<rparr>)) (conn_Write E respCopy)))"

section \<open>Packets of the backend\<close>

definition resetBackend :: "('s, unit) mgo" where
  "resetBackend = modify (\<lambda>c. c\<lparr>cc_backend := None, cc_backendAddr := [], cc_backendName := []\<rparr>)"

text \<open>A method call on the nil connection panics.\<close>

definition backend_of :: "('s, backend_conn) mgo" where
  "backend_of = andthen (gets cc_backend) (\<lambda>b. case b of None \<Rightarrow> crash NilDereference | Some bk \<Rightarrow> ret bk)"

definition readBackendPacket :: "'s menv \<Rightarrow> ('s, bytes) mgo" where
  "readBackendPacket E = andthen backend_of (\<lambda>bk.
     case read_packet (bk_in bk) of
       None \<Rightarrow> andthen tick (\<lambda>n. next_do resetBackend (raise (me_read_error E n)))
     | Some (seq, payload, rest) \<Rightarrow>
         next_do (modify (\<lambda>c. c\<lparr>cc_backend := Some (bk\<lparr>bk_in := rest\<rparr>), cc_backendSeq := seq\<rparr>)) (ret payload))"

definition writeBackendPacket :: "'s menv \<Rightarrow> bytes \<Rightarrow> ('s, unit) mgo" where
  "writeBackendPacket E payload =
     next_do (modify (\<lambda>c. c\<lparr>cc_backendSeq := cc_backendSeq c + 1\<rparr>))
       (andthen (gets cc_backendSeq) (\<lambda>seq.
         andthen backend_of (\<lambda>bk.
           andthen tick (\<lambda>n.
             case me_write_error E n of
               Some e \<Rightarrow> next_do resetBackend (raise (ErrMsg e))
             | None \<Rightarrow> modify (\<lambda>c. c\<lparr>cc_sent := cc_sent c @ [(bk_addr bk, frame seq payload)]\<rparr>)))))"

text \<open>
  The reading loops, by the readers of the wire format. After a failed read the sequence number of the lost
  connection is not kept: every command sets it anew.
\<close>

definition read_backend :: "'s menv \<Rightarrow> (nat \<Rightarrow> nat \<Rightarrow> bytes \<Rightarrow> verdict) \<Rightarrow> ('s, bytes) mgo" where
  "read_backend E v = andthen backend_of (\<lambda>bk.
     case read_response v 0 0 [] (bk_in bk) of
       Got seq response rest \<Rightarrow>
         next_do (modify (\<lambda>c. c\<lparr>cc_backend := Some (bk\<lparr>bk_in := rest\<rparr>), cc_backendSeq := seq\<rparr>)) (ret response)
     | ReadError \<Rightarrow> andthen tick (\<lambda>n. next_do resetBackend (raise (me_read_error E n)))
     | ReadPanic p \<Rightarrow> crash p)"

definition execBackendResponse :: "'s menv \<Rightarrow> ('s, bytes) mgo" where
  "execBackendResponse E = read_backend E (response_verdict (me_lib E))"

text \<open>A new command starts with the sequence number that wraps to 0 on the first write.\<close>

definition send_command :: "'s menv \<Rightarrow> byte \<Rightarrow> bytes \<Rightarrow> ('s, unit) mgo" where
  "send_command E cmd data =
     next_do (modify (\<lambda>c. c\<lparr>cc_backendSeq := 255\<rparr>)) (writeBackendPacket E (cmd # data))"

definition execBackendQuery :: "'s menv \<Rightarrow> string \<Rightarrow> ('s, bytes) mgo" where
  "execBackendQuery E query =
     next_do (send_command E (ml_ComQuery (me_lib E)) (bytes_of query))
       (read_backend E (query_verdict (me_lib E)))"

section \<open>Authentication\<close>

definition writeServerGreeting :: "'s menv \<Rightarrow> ('s, unit) mgo" where
  "writeServerGreeting E = andthen (gets (\<lambda>c. me_WriteHandshakeV10 E (cc_connID c) (cc_salt c) (cc_capability c) (cc_status c))) (\<lambda>payload.
     next_do (modify (\<lambda>c. c\<lparr>cc_sequence := 255\<rparr>)) (writePacket E payload))"

definition readClientAuth :: "'s menv \<Rightarrow> ('s, unit) mgo" where
  "readClientAuth E = andthen readPacket (\<lambda>packet.
     case me_ParseHandshakeResponse E packet of
       Inl e \<Rightarrow> raise (ErrMsg e)
     | Inr (capability, user, auth, db) \<Rightarrow>
         modify (\<lambda>c. c\<lparr>cc_capability := capability, cc_user := user, cc_auth := auth, cc_db := db, cc_rawAuthPkt := packet\<rparr>))"

definition HandleAuth :: "'s menv \<Rightarrow> string \<Rightarrow> bytes \<Rightarrow> 32 word \<Rightarrow> ('s, string \<times> bytes) mgo" where
  "HandleAuth E plugin salt serverCapabilities =
     andthen (gets cc_user) (\<lambda>user.
       if user = [] then
         next_do (modify (\<lambda>c. c\<lparr>cc_salt := salt, cc_capability := serverCapabilities AND NOT (me_stripped_capabilities E)\<rparr>))
           (next_do (writeServerGreeting E)
             (next_do (readClientAuth E) (gets (\<lambda>c. (cc_user c, cc_auth c)))))
       else next_do (writePacket E (0xFE # bytes_of plugin @ [0] @ salt)) (andthen readPacket (\<lambda>resp. ret (user, resp))))"

primrec run_connect :: "'s menv \<Rightarrow> connect \<Rightarrow> ('s, bytes option) mgo" where
  "run_connect E (ConnectFails e) = raise (ErrMsg e)"
| "run_connect E (Connected raw) = ret raw"
| "run_connect E (CallHandleAuth plugin salt caps k) =
     andthen (attempt (HandleAuth E plugin salt caps)) (\<lambda>r. run_connect E (k r))"

definition dialAndAuth :: "'s menv \<Rightarrow> string \<Rightarrow> ('s, backend_conn) mgo" where
  "dialAndAuth E addr =
     (case dial_target addr of (network, dialAddr) \<Rightarrow>
        andthen (gets cc_user) (\<lambda>user.
          andthen (gets cc_db) (\<lambda>db.
            andthen tick (\<lambda>n.
              andthen (run_connect E (me_connect E n \<lparr>mc_User = user, mc_Net = network, mc_Addr = dialAddr, mc_DBName = db\<rparr>)) (\<lambda>raw.
                next_do (if user = [] then writeOK E else ret ())
                  (case raw of
                     None \<Rightarrow> raise (ErrMsg ''failed to get raw connection from driver'')
                   | Some stream \<Rightarrow> ret \<lparr>bk_addr = addr, bk_in = stream\<rparr>))))))"

section \<open>Choosing the backend\<close>

definition ensureBackendConn :: "'s menv \<Rightarrow> string \<Rightarrow> string \<Rightarrow> nat option \<Rightarrow> ('s, unit) mgo" where
  "ensureBackendConn E addr name pool =
     andthen (gets (\<lambda>c. addr = cc_backendAddr c \<and> cc_backend c \<noteq> None)) (\<lambda>same.
       if same then ret ()
       else andthen (dialAndAuth E addr) (\<lambda>newBackend.
         modify (\<lambda>c. c\<lparr>cc_backend := Some newBackend, cc_backendPool := pool, cc_backendAddr := addr, cc_backendName := name\<rparr>)))"

definition pool_at :: "nat \<Rightarrow> 's clientConn \<Rightarrow> Pool" where
  "pool_at a c = ph_pool (px_heap (cc_proxy c)) a"

definition ensureBackend :: "'s menv \<Rightarrow> string \<Rightarrow> ('s, unit) mgo" where
  "ensureBackend E db =
     andthen (gets (\<lambda>c. shard_name (px_config (cc_proxy c)) db)) (\<lambda>shardName.
       andthen (gets (\<lambda>c. mget (px_pools (cc_proxy c)) shardName)) (\<lambda>targetPool.
         case targetPool of
           None \<Rightarrow> raise (ErrMsg (''no backend pool found for database '' @ [CHR 0x22] @ db @ [CHR 0x22]))
         | Some a \<Rightarrow>
             next_do (modify (\<lambda>c. c\<lparr>cc_lastQueryShard := shardName\<rparr>))
               (andthen (gets (\<lambda>c. cc_backendPool c = Some a \<and> cc_backend c \<noteq> None)) (\<lambda>same.
                 if same then ret ()
                 else andthen (gets (\<lambda>c. GetPrimary (pool_at a c))) (\<lambda>addr.
                   ensureBackendConn E addr ''primary'' (Some a))))))"

text \<open>The pool of the connection; a method call on a nil pool panics.\<close>

definition own_pool :: "('s, nat) mgo" where
  "own_pool = andthen (gets cc_backendPool) (\<lambda>p. case p of None \<Rightarrow> crash NilDereference | Some a \<Rightarrow> ret a)"

definition primary_of_pool :: "('s, string) mgo" where
  "primary_of_pool = andthen own_pool (\<lambda>a. gets (\<lambda>c. GetPrimary (pool_at a c)))"

definition replica_of_pool :: "('s, string \<times> string) mgo" where
  "replica_of_pool = andthen own_pool (\<lambda>a.
     andthen (gets (pool_at a)) (\<lambda>p.
       andthen (or_panic (GetReplica p)) (\<lambda>(p', addr, name).
         next_do (modify (\<lambda>c. c\<lparr>cc_proxy := (cc_proxy c)\<lparr>px_heap := update_pool (px_heap (cc_proxy c)) a p'\<rparr>\<rparr>))
           (ret (addr, name)))))"

end
