(* ===== verification/Maria_Handlers.thy ===== *)
theory Maria_Handlers
  imports Maria_Conn
begin

text \<open>
  The commands of a MariaDB client, \<^verbatim>\<open>mariadb/mariadb.go\<close>: queries with their routing, caching and batching,
  prepared statements, and the loop that reads and answers them. The write batch manager is called through
  \<open>me_Enqueue\<close>; its own behaviour is the subject of the write batch theories. The callback that a batch calls
  after its results are sent only repeats the assignment of \<open>cc_lastBatchSize\<close> and is left out.
\<close>

section \<open>The cache\<close>

definition set_cache :: "'s Cache \<Rightarrow> ('s, unit) mgo" where
  "set_cache ch = modify (\<lambda>c. c\<lparr>cc_proxy := (cc_proxy c)\<lparr>px_cache := ch\<rparr>\<rparr>)"

definition cache_Get :: "'s menv \<Rightarrow> string \<Rightarrow> ('s, bytes option \<times> int \<times> bool) mgo" where
  "cache_Get E key = andthen (gets (\<lambda>c. Get (me_tq E) (px_cache (cc_proxy c)) key)) (\<lambda>(ch, res).
     next_do (set_cache ch) (ret res))"

definition cache_GetOrWait :: "'s menv \<Rightarrow> string \<Rightarrow> ('s, bytes option \<times> int \<times> bool \<times> bool) mgo" where
  "cache_GetOrWait E key = andthen (gets (\<lambda>c. GetOrWait (me_tq E) (me_wait E) (px_cache (cc_proxy c)) key)) (\<lambda>(ch, res).
     next_do (set_cache ch) (ret res))"

definition cache_CancelInflight :: "string \<Rightarrow> ('s, unit) mgo" where
  "cache_CancelInflight key = andthen (gets (\<lambda>c. CancelInflight (px_cache (cc_proxy c)) key)) (\<lambda>r.
     andthen (or_panic r) set_cache)"

definition cache_SetAndNotify :: "'s menv \<Rightarrow> string \<Rightarrow> bytes \<Rightarrow> int \<Rightarrow> ('s, unit) mgo" where
  "cache_SetAndNotify E key value ttl =
     andthen (gets (\<lambda>c. SetAndNotify (me_tq E) (px_cache (cc_proxy c)) key value ttl)) (\<lambda>r.
       andthen (or_panic r) set_cache)"

definition cache_Set :: "'s menv \<Rightarrow> string \<Rightarrow> bytes \<Rightarrow> int \<Rightarrow> ('s, unit) mgo" where
  "cache_Set E key value ttl =
     andthen (gets (\<lambda>c. Set (me_tq E) (px_cache (cc_proxy c)) key value ttl)) set_cache"

definition nil_bytes :: "bytes option \<Rightarrow> bytes" where
  "nil_bytes v = (case v of Some bs \<Rightarrow> bs | None \<Rightarrow> [])"

text \<open>What answers a cacheable query without the backend, if anything: a fresh or a stale value, or the value that another
  request fetched while this one waited.\<close>

definition cached_answer :: "'s menv \<Rightarrow> qlabels \<Rightarrow> string \<Rightarrow> ('s, (string \<times> bytes) option) mgo" where
  "cached_answer E lb key =
     andthen (cache_Get E key) (\<lambda>(cached, flags, ok).
       if ok \<and> flags = FlagFresh then next_do (record_calls E (hit_calls lb)) (ret (Some (''cache'', nil_bytes cached)))
       else if ok \<and> flags = FlagStale
       then next_do (record_calls E (hit_calls lb)) (ret (Some (''cache (stale)'', nil_bytes cached)))
       else next_do (record_calls E (miss_calls lb))
         (andthen (cache_GetOrWait E key) (\<lambda>(cached, _, ok, waited).
           if waited \<and> ok then next_do (record_calls E (waited_calls lb)) (ret (Some (''cache'', nil_bytes cached)))
           else ret None)))"

definition served_from :: "string \<Rightarrow> bool \<Rightarrow> ('s, unit) mgo" where
  "served_from name hit = modify (\<lambda>c. c\<lparr>cc_lastQueryBackend := name, cc_lastQueryCacheHit := hit\<rparr>)"

section \<open>Transactions\<close>

definition handleBegin :: "'s menv \<Rightarrow> bool \<Rightarrow> ('s, unit) mgo" where
  "handleBegin E moreResults = next_do (execBackendQuery E ''BEGIN'')
     (next_do (modify (\<lambda>c. c\<lparr>cc_status := cc_status c OR ml_StatusInTrans (me_lib E), cc_inTransaction := True\<rparr>))
       (writeOKWithInfo E moreResults))"

definition end_transaction :: "'s menv \<Rightarrow> string \<Rightarrow> bool \<Rightarrow> ('s, unit) mgo" where
  "end_transaction E cmd moreResults = next_do (execBackendQuery E cmd)
     (next_do (modify (\<lambda>c. c\<lparr>cc_status := cc_status c AND NOT (ml_StatusInTrans (me_lib E)), cc_inTransaction := False\<rparr>))
       (writeOKWithInfo E moreResults))"

definition handleCommit :: "'s menv \<Rightarrow> bool \<Rightarrow> ('s, unit) mgo" where
  "handleCommit E moreResults = end_transaction E ''COMMIT'' moreResults"

definition handleRollback :: "'s menv \<Rightarrow> bool \<Rightarrow> ('s, unit) mgo" where
  "handleRollback E moreResults = end_transaction E ''ROLLBACK'' moreResults"

section \<open>Queries\<close>

definition handleShowTQDBStatus :: "'s menv \<Rightarrow> bool \<Rightarrow> ('s, unit) mgo" where
  "handleShowTQDBStatus E moreResults = next_do (ensureBackend E [])
     (andthen (gets id) (\<lambda>c.
       let backend = (if cc_lastQueryBackend c = [] then ''none'' else cc_lastQueryBackend c);
           shard = (if cc_lastQueryShard c = [] then pc_Default (px_config (cc_proxy c)) else cc_lastQueryShard c);
           query = ''SELECT '' @ [CHR 0x27] @ ''Backend'' @ [CHR 0x27] @ '' AS `Variable_name`, '' @ [CHR 0x27] @ backend @ [CHR 0x27] @
                   '' AS `Value` UNION ALL SELECT '' @ [CHR 0x27] @ ''Shard'' @ [CHR 0x27] @ '', '' @ [CHR 0x27] @ shard @ [CHR 0x27];
           query' = (if cc_lastBatchSize c > 0 then query @ '' UNION ALL SELECT '' @ [CHR 0x27] @ ''LastBatchSize'' @ [CHR 0x27] @
                       '', '' @ [CHR 0x27] @ Itoa (cc_lastBatchSize c) @ [CHR 0x27] else query)
       in andthen (execBackendQuery E query') (\<lambda>response. forwardBackendResponse E response moreResults)))"

text \<open>The packets of the client up to an empty one, for the backend. Every round takes a packet from the client.\<close>

lemma readPacket_shorter: "readPacket c = (Ok p, c') \<Longrightarrow> length (cc_in c') < length (cc_in c)"
  by (auto simp: readPacket_def read_client_def read_full_def elim!: andthen_cases split: option.splits if_splits) arith

lemma tick_run [simp]: "tick c = (Ok (cc_tick c), c\<lparr>cc_tick := cc_tick c + 1\<rparr>)"
  by (simp add: tick_def)

lemma writeBackendPacket_in: "writeBackendPacket E payload c = (r, c') \<Longrightarrow> cc_in c' = cc_in c"
  by (auto simp: writeBackendPacket_def backend_of_def resetBackend_def elim!: andthen_cases split: option.splits)

function infile_loop :: "'s menv \<Rightarrow> ('s, unit) mgo" where
  "infile_loop E c = andthen readPacket (\<lambda>packet.
     next_do (writeBackendPacket E packet) (\<lambda>c'. if packet = [] then (Ok (), c') else infile_loop E c')) c"
  by pat_completeness auto
termination
  by (relation "measure (\<lambda>(E, c). length (cc_in c))") (auto dest: readPacket_shorter simp: writeBackendPacket_in)

declare infile_loop.simps [simp del]

definition handleLocalInfile :: "'s menv \<Rightarrow> bytes \<Rightarrow> bool \<Rightarrow> ('s, unit) mgo" where
  "handleLocalInfile E initialResponse moreResults =
     next_do (forwardBackendResponse E initialResponse moreResults)
       (next_do (infile_loop E)
         (andthen (execBackendResponse E) (\<lambda>finalResponse. forwardBackendResponse E finalResponse moreResults)))"

definition executeImmediateWrite :: "'s menv \<Rightarrow> qlabels \<Rightarrow> string \<Rightarrow> bool \<Rightarrow> ('s, unit) mgo" where
  "executeImmediateWrite E lb query moreResults =
     andthen primary_of_pool (\<lambda>backendAddr.
       andthen (gets cc_backendPool) (\<lambda>pool.
         next_do (ensureBackendConn E backendAddr ''primary'' pool)
           (andthen (execBackendQuery E query) (\<lambda>response.
             next_do (record_calls E (database_calls ''primary'' lb))
               (next_do (served_from ''primary'' False) (forwardBackendResponse E response moreResults))))))"

definition ErrTimeout :: string where
  "ErrTimeout = ''write batch operation timeout''"

text \<open>What both kinds of batched writes do with the result of \<^verbatim>\<open>Enqueue\<close>: the errors of the manager itself fall back to an
  execution outside the batch.\<close>

definition answer_batched :: "'s menv \<Rightarrow> WriteResult \<Rightarrow> ('s, unit) mgo \<Rightarrow> bool \<Rightarrow> ('s, unit) mgo" where
  "answer_batched E result fallback moreResults =
     (case res_Error result of
        Some e \<Rightarrow> if e = ErrManagerClosed \<or> e = ErrTimeout then fallback else writeError E (ErrMsg e)
      | None \<Rightarrow>
          next_do (served_from ''write-batch'' False)
            (next_do (modify (\<lambda>c. c\<lparr>cc_lastBatchSize := res_BatchSize result\<rparr>))
              (writeOKWithRowsAndID E (res_AffectedRows result) (res_LastInsertID result) moreResults)))"

definition handleBatchedWrite :: "'s menv \<Rightarrow> qlabels \<Rightarrow> string \<Rightarrow> int \<Rightarrow> bool \<Rightarrow> ('s, unit) mgo" where
  "handleBatchedWrite E lb query batchMs moreResults =
     (let batchKey = GetBatchKey (Parse query)
      in andthen tick (\<lambda>n.
           next_do (record_calls E (batch_calls lb))
             (answer_batched E (me_Enqueue E n batchKey query [] batchMs) (executeImmediateWrite E lb query moreResults) moreResults)))"

text \<open>The commands that the proxy handles itself, by the tests of \<open>handleSingleQuery\<close> in their order.\<close>

datatype command = UseDatabase string | BeginCommand | CommitCommand | RollbackCommand | ShowStatus | OtherQuery

definition command_of :: "ParsedQuery \<Rightarrow> command" where
  "command_of parsed =
     (let queryUpper = TrimSuffix (ToUpper (TrimSpace (pq_Query parsed))) '';'';
          parts = Fields (pq_Query parsed)
      in if HasPrefix queryUpper ''USE '' \<and> length parts \<ge> 2 then UseDatabase (Trim (parts ! 1) ''`;'')
         else if queryUpper = ''BEGIN'' \<or> queryUpper = ''START TRANSACTION'' then BeginCommand
         else if queryUpper = ''COMMIT'' then CommitCommand
         else if queryUpper = ''ROLLBACK'' then RollbackCommand
         else if queryUpper = ''SHOW TQDB STATUS'' then ShowStatus
         else OtherQuery)"

definition use_database :: "'s menv \<Rightarrow> string \<Rightarrow> ('s, unit) mgo" where
  "use_database E dbName = next_do (ensureBackend E dbName)
     (next_do (modify (\<lambda>c. c\<lparr>cc_db := dbName\<rparr>))
       (next_do (execBackendQuery E (''USE `'' @ dbName @ ''`'')) (ret ())))"

text \<open>Sharding by a qualified table name.\<close>

definition switch_shard :: "'s menv \<Rightarrow> ParsedQuery \<Rightarrow> ('s, unit) mgo" where
  "switch_shard E parsed = andthen (gets cc_db) (\<lambda>db.
     if pq_DB parsed \<noteq> [] \<and> pq_DB parsed \<noteq> db then
       next_do (ensureBackend E (pq_DB parsed)) (modify (\<lambda>c. c\<lparr>cc_db := pq_DB parsed\<rparr>))
     else ret ())"

definition cancel_flight :: "ParsedQuery \<Rightarrow> ('s, unit) mgo" where
  "cancel_flight parsed = (if IsCacheable parsed then cache_CancelInflight (pq_Query parsed) else ret ())"

definition select_backend :: "'s menv \<Rightarrow> ParsedQuery \<Rightarrow> ('s, string \<times> string) mgo" where
  "select_backend E parsed =
     andthen primary_of_pool (\<lambda>primary.
       andthen (gets cc_status) (\<lambda>status.
         if IsCacheable parsed \<and> status AND ml_StatusInTrans (me_lib E) = 0 then replica_of_pool
         else ret (primary, ''primary'')))"

definition fetch_response :: "'s menv \<Rightarrow> ParsedQuery \<Rightarrow> ('s, string \<times> bytes) mgo" where
  "fetch_response E parsed =
     andthen (select_backend E parsed) (\<lambda>(backendAddr, backendName).
       andthen (gets cc_backendPool) (\<lambda>pool.
         next_do (on_error (ensureBackendConn E backendAddr backendName pool) (cancel_flight parsed))
           (andthen (on_error (execBackendQuery E (pq_Query parsed)) (cancel_flight parsed)) (\<lambda>response.
             ret (backendName, response)))))"

text \<open>A request for a local file from the client, which the server sends instead of a result.\<close>

definition is_infile_request :: "bytes \<Rightarrow> bool" where
  "is_infile_request response \<longleftrightarrow> length response \<ge> 5 \<and> response ! 4 = 0xFB"

definition fetch :: "'s menv \<Rightarrow> qlabels \<Rightarrow> ParsedQuery \<Rightarrow> bool \<Rightarrow> ('s, unit) mgo" where
  "fetch E lb parsed moreResults =
     andthen (fetch_response E parsed) (\<lambda>(backendName, response).
       if is_infile_request response then handleLocalInfile E response moreResults
       else next_do (record_calls E (database_calls backendName lb))
         (next_do (served_from backendName False)
           (next_do (if IsCacheable parsed
                     then cache_SetAndNotify E (pq_Query parsed) response (ttl_duration (pq_TTL parsed)) else ret ())
             (forwardBackendResponse E response moreResults))))"

definition batches :: "ParsedQuery \<Rightarrow> 's clientConn \<Rightarrow> bool" where
  "batches parsed c \<longleftrightarrow> px_writeBatch (cc_proxy c) \<and> \<not> cc_inTransaction c \<and> IsWritable parsed \<and> IsBatchable parsed"

definition run_query :: "'s menv \<Rightarrow> qlabels \<Rightarrow> ParsedQuery \<Rightarrow> bool \<Rightarrow> ('s, unit) mgo" where
  "run_query E lb parsed moreResults =
     andthen (gets (batches parsed)) (\<lambda>batched.
       if batched then handleBatchedWrite E lb (pq_Query parsed) (pq_BatchMs parsed) moreResults
       else if IsCacheable parsed then
         andthen (cached_answer E lb (pq_Query parsed)) (\<lambda>answer.
           case answer of
             Some (name, cached) \<Rightarrow> next_do (served_from name True) (forwardBackendResponse E cached moreResults)
           | None \<Rightarrow> fetch E lb parsed moreResults)
       else fetch E lb parsed moreResults)"

definition handleSingleQuery :: "'s menv \<Rightarrow> string \<Rightarrow> ParsedQuery \<Rightarrow> bool \<Rightarrow> ('s, unit) mgo" where
  "handleSingleQuery E query originalParsed moreResults =
     (let parsed = (if query \<noteq> pq_Query originalParsed then Parse query else originalParsed)
      in next_do (switch_shard E parsed)
           (case command_of parsed of
              UseDatabase dbName \<Rightarrow> next_do (use_database E dbName) (writeOKWithInfo E moreResults)
            | BeginCommand \<Rightarrow> handleBegin E moreResults
            | CommitCommand \<Rightarrow> handleCommit E moreResults
            | RollbackCommand \<Rightarrow> handleRollback E moreResults
            | ShowStatus \<Rightarrow> handleShowTQDBStatus E moreResults
            | OtherQuery \<Rightarrow> run_query E (query_labels originalParsed parsed) parsed moreResults))"

fun handle_statements :: "'s menv \<Rightarrow> ParsedQuery \<Rightarrow> string list \<Rightarrow> ('s, unit) mgo" where
  "handle_statements E parsed [] = ret ()"
| "handle_statements E parsed (stmt # rest) =
     next_do (handleSingleQuery E stmt parsed (rest \<noteq> [])) (handle_statements E parsed rest)"

definition handleQuery :: "'s menv \<Rightarrow> string \<Rightarrow> ('s, unit) mgo" where
  "handleQuery E query = (let parsed = Parse query in handle_statements E parsed (splitQueries (pq_Query parsed)))"

section \<open>Prepared statements\<close>

text \<open>One packet of the backend with its header, and \<open>n\<close> of them.\<close>

definition read_frame :: "'s menv \<Rightarrow> ('s, bytes) mgo" where
  "read_frame E = andthen (readBackendPacket E) (\<lambda>p. andthen (gets cc_backendSeq) (\<lambda>seq. ret (frame seq p)))"

fun read_frames :: "'s menv \<Rightarrow> nat \<Rightarrow> ('s, bytes) mgo" where
  "read_frames E 0 = ret []"
| "read_frames E (Suc n) = andthen (read_frame E) (\<lambda>f. andthen (read_frames E n) (\<lambda>fs. ret (f @ fs)))"

text \<open>The definitions of \<open>n\<close> parameters or columns and the EOF packet behind them, when there are any.\<close>

definition read_definitions :: "'s menv \<Rightarrow> nat \<Rightarrow> ('s, bytes) mgo" where
  "read_definitions E n = (if n > 0 then read_frames E (n + 1) else ret [])"

definition handlePrepare :: "'s menv \<Rightarrow> string \<Rightarrow> ('s, unit) mgo" where
  "handlePrepare E query =
     next_do (send_command E (ml_ComStmtPrepare (me_lib E)) (bytes_of query))
       (andthen (readBackendPacket E) (\<lambda>response.
         andthen (gets cc_backendSeq) (\<lambda>seq.
           if length response > 0 \<and> response ! 0 = 0x00 then
             if length response < 9 then crash SliceOutOfRange
             else let stmtID = of_nat (le_nat (take 4 (drop 1 response)));
                      numCols = le_nat (take 2 (drop 5 response));
                      numParams = le_nat (take 2 (drop 7 response))
                  in next_do (modify (\<lambda>c. c\<lparr>cc_preparedStatements := mset_key (cc_preparedStatements c) stmtID (Parse query)\<rparr>))
                       (andthen (read_definitions E numParams) (\<lambda>params.
                         andthen (read_definitions E numCols) (\<lambda>cols.
                           forwardBackendResponse E (frame seq response @ params @ cols) False)))
           else forwardBackendResponse E (frame seq response) False)))"

definition stmt_id :: "bytes \<Rightarrow> 32 word" where
  "stmt_id data = of_nat (le_nat (take 4 data))"

definition execute_directly :: "'s menv \<Rightarrow> bytes \<Rightarrow> ('s, bytes) mgo" where
  "execute_directly E data = next_do (send_command E (ml_ComStmtExecute (me_lib E)) data) (execBackendResponse E)"

definition handleBatchedPreparedExecute :: "'s menv \<Rightarrow> bytes \<Rightarrow> ParsedQuery \<Rightarrow> govalue list \<Rightarrow> ('s, unit) mgo" where
  "handleBatchedPreparedExecute E data parsed params =
     andthen tick (\<lambda>n.
       next_do (record_calls E (batch_calls (execute_labels parsed)))
         (answer_batched E (me_Enqueue E n (GetBatchKey parsed) (pq_Query parsed) params (pq_BatchMs parsed))
           (andthen (execute_directly E data) (\<lambda>response.
             andthen (gets cc_backendName) (\<lambda>name.
               next_do (served_from name False) (forwardBackendResponse E response False))))
           False))"

definition execute_key :: "'s menv \<Rightarrow> ParsedQuery \<Rightarrow> bytes \<Rightarrow> 's clientConn \<Rightarrow> string" where
  "execute_key E parsed data c = ''ps:'' @ me_sha1_hex E (bytes_of (cc_db c) @ bytes_of (pq_Query parsed) @ drop 4 data)"

definition execute_statement :: "'s menv \<Rightarrow> bytes \<Rightarrow> ParsedQuery \<Rightarrow> ('s, unit) mgo" where
  "execute_statement E data parsed =
     andthen (gets (execute_key E parsed data)) (\<lambda>cacheKey.
       andthen (if IsCacheable parsed then cache_Get E cacheKey else ret (None, 0, False)) (\<lambda>(cached, _, ok).
         if ok then next_do (served_from ''cache'' True) (forwardBackendResponse E (nil_bytes cached) False)
         else andthen (execute_directly E data) (\<lambda>response.
           if is_infile_request response then handleLocalInfile E response False
           else next_do (if IsCacheable parsed \<and> \<not> (length response \<ge> 5 \<and> response ! 4 = 0xFF)
                         then cache_Set E cacheKey response (ttl_duration (pq_TTL parsed)) else ret ())
             (andthen (gets cc_backendName) (\<lambda>name.
               next_do (served_from name False) (forwardBackendResponse E response False))))))"

definition handleExecute :: "'s menv \<Rightarrow> bytes \<Rightarrow> ('s, unit) mgo" where
  "handleExecute E data =
     (if length data < 4 then raise (ErrMsg ''malformed COM_STMT_EXECUTE packet'')
      else andthen (gets (\<lambda>c. mget (cc_preparedStatements c) (stmt_id data))) (\<lambda>found.
        case found of
          None \<Rightarrow> raise (ErrMsg (''unknown statement ID '' @ nat_dec (unat (stmt_id data))))
        | Some parsed \<Rightarrow>
            andthen (gets (batches parsed)) (\<lambda>batched.
              if batched then
                andthen (or_panic (decodeStmtParams data parsed)) (\<lambda>r.
                  case r of
                    Inl err \<Rightarrow> execute_statement E data parsed
                  | Inr params \<Rightarrow> handleBatchedPreparedExecute E data parsed params)
              else execute_statement E data parsed)))"

definition handleStmtClose :: "'s menv \<Rightarrow> bytes \<Rightarrow> ('s, unit) mgo" where
  "handleStmtClose E data =
     next_do (if length data \<ge> 4
              then modify (\<lambda>c. c\<lparr>cc_preparedStatements := mdelete (cc_preparedStatements c) (stmt_id data)\<rparr>) else ret ())
       (send_command E (ml_ComStmtClose (me_lib E)) data)"

definition handleStmtReset :: "'s menv \<Rightarrow> bytes \<Rightarrow> ('s, unit) mgo" where
  "handleStmtReset E data =
     next_do (send_command E (ml_ComStmtReset (me_lib E)) data)
       (andthen (readBackendPacket E) (\<lambda>response. forwardBackendResponse E response False))"

section \<open>Commands\<close>

definition dispatch :: "'s menv \<Rightarrow> byte \<Rightarrow> bytes \<Rightarrow> ('s, unit) mgo" where
  "dispatch E cmd data =
     (let lib = me_lib E
      in if cmd = ml_ComQuit lib then raise EOF
         else if cmd = ml_ComInitDB lib then next_do (use_database E (string_of data)) (writeOK E)
         else if cmd = ml_ComFieldList lib then writeEOF E
         else if cmd = ml_ComPing lib then writeOK E
         else if cmd = ml_ComQuery lib then handleQuery E (string_of data)
         else if cmd = ml_ComStmtPrepare lib then handlePrepare E (string_of data)
         else if cmd = ml_ComStmtExecute lib then handleExecute E data
         else if cmd = ml_ComStmtClose lib then handleStmtClose E data
         else if cmd = ml_ComStmtReset lib then handleStmtReset E data
         else raise (ErrMsg (''command '' @ nat_dec (unat cmd) @ '' not supported'')))"

text \<open>What the loop does with one packet of the client.\<close>

definition answer :: "'s menv \<Rightarrow> bytes \<Rightarrow> ('s, unit) mgo" where
  "answer E packet =
     (case packet of
        [] \<Rightarrow> ret ()
      | cmd # data \<Rightarrow>
          andthen (attempt (dispatch E cmd data)) (\<lambda>r.
            next_do (case r of
                       Inl err \<Rightarrow> next_do (attempt (writeError E err)) (ret ())
                     | Inr _ \<Rightarrow> ret ())
              (modify (\<lambda>c. c\<lparr>cc_sequence := 0\<rparr>))))"

end
