(* ===== verification/Maria_Steps.thy ===== *)
theory Maria_Steps
  imports Maria_Handlers
begin

text \<open>
  What the commands of the MariaDB proxy keep, and the loop over the packets of a client. A chain of locales
  lifts a relation from the elementary changes of a connection to all commands; the last one is interpreted
  for the consumption of the client's stream, which gives the termination of the loop, and for the invariant of a
  connection.
\<close>

section \<open>What all commands respect\<close>

text \<open>
  Locales that extend one another, for a relation that holds for the exchange with the client alone, for the use of
  the cache, for commands on one backend connection, for the choice of a connection, and for all commands.
\<close>

text \<open>Changes of the fields that no invariant depends on: sequence numbers, logs, authentication data, the current
  database and the data of \<^verbatim>\<open>SHOW TQDB STATUS\<close>.\<close>

definition quiet :: "'s clientConn \<Rightarrow> 's clientConn \<Rightarrow> bool" where
  "quiet c c' \<longleftrightarrow> cc_in c' = cc_in c \<and> cc_backend c' = cc_backend c \<and> cc_backendAddr c' = cc_backendAddr c \<and>
     cc_status c' = cc_status c \<and> cc_inTransaction c' = cc_inTransaction c \<and>
     cc_preparedStatements c' = cc_preparedStatements c \<and> cc_sent c' = cc_sent c \<and>
     cc_backendPool c' = cc_backendPool c \<and> px_heap (cc_proxy c') = px_heap (cc_proxy c) \<and>
     px_writeBatch (cc_proxy c') = px_writeBatch (cc_proxy c) \<and> px_cache (cc_proxy c') = px_cache (cc_proxy c) \<and>
     px_config (cc_proxy c') = px_config (cc_proxy c) \<and> px_pools (cc_proxy c') = px_pools (cc_proxy c)"

lemma dial_addr: "dialAndAuth E addr c = (Ok bk, c') \<Longrightarrow> bk_addr bk = addr"
  by (auto simp: dialAndAuth_def split: prod.splits option.splits elim!: andthen_cases)

locale client_relation = step_relation R
  for R :: "'s clientConn \<Rightarrow> 's clientConn \<Rightarrow> bool" +
  fixes E :: "'s menv"
  assumes quiet_step: "quiet c c' \<Longrightarrow> R c c'"
    and read_step: "length bs \<le> length (cc_in c) \<Longrightarrow> R c (c\<lparr>cc_in := bs\<rparr>)"
begin

lemma steps_quiet: "(\<And>c. quiet c (f c)) \<Longrightarrow> steps R (modify f)"
  by (intro steps_modify quiet_step)

lemma steps_tick: "steps R tick"
  by (rule stepsI) (simp add: quiet_step quiet_def)

lemma steps_conn_Write: "steps R (conn_Write E bs)"
  unfolding conn_Write_def by (intro rules steps_tick steps_quiet) (simp add: quiet_def)

lemma steps_writePacket: "steps R (writePacket E p)"
  unfolding writePacket_def by (intro rules steps_conn_Write steps_quiet) (simp add: quiet_def)

lemma steps_read_client: "steps R (read_client n)"
proof (rule stepsI)
  fix c
  show "R c (snd (read_client n c))"
    by (cases "read_full n (cc_in c)") (auto simp: read_client_def read_full_def read_step split: if_splits)
qed

lemma steps_readPacket: "steps R readPacket"
  unfolding readPacket_def by (intro rules steps_read_client steps_quiet) (simp add: quiet_def)

lemma steps_replies: "steps R (writeOKWithRowsAndID E a b m)" "steps R (writeOKWithInfo E m)" "steps R (writeOK E)"
    "steps R (writeError E e)" "steps R (writeEOF E)"
  unfolding writeOKWithRowsAndID_def writeOKWithInfo_def writeOK_def writeError_def writeEOF_def
  by (intro rules steps_writePacket)+

lemma steps_forward: "steps R (forwardBackendResponse E r m)"
  unfolding forwardBackendResponse_def by (intro rules steps_conn_Write steps_quiet) (simp add: quiet_def)

lemma steps_HandleAuth: "steps R (HandleAuth E plugin salt caps)"
  unfolding HandleAuth_def writeServerGreeting_def readClientAuth_def
  by (intro rules steps_writePacket steps_readPacket steps_quiet) (simp_all add: quiet_def)

lemma steps_run_connect: "steps R (run_connect E k)"
proof (induction k)
  case (CallHandleAuth plugin salt caps k)
  then show ?case
    by (auto intro!: rules steps_HandleAuth simp del: go_run)
qed (simp_all add: rules del: go_run)

lemma steps_dialAndAuth: "steps R (dialAndAuth E addr)"
  unfolding dialAndAuth_def by (intro rules steps_tick steps_run_connect steps_replies)

lemma steps_served_from: "steps R (served_from n h)"
  unfolding served_from_def by (rule steps_quiet) (simp add: quiet_def)

lemma steps_record_calls: "steps R (record_calls E calls)"
  unfolding record_calls_def by (intro rules steps_quiet) (simp add: quiet_def)

lemmas client_steps = steps_tick steps_replies steps_forward steps_readPacket steps_served_from steps_record_calls

lemma steps_batched: "steps R fallback \<Longrightarrow> steps R (answer_batched E res fallback m)"
  unfolding answer_batched_def by (intro rules client_steps steps_quiet) (simp_all add: quiet_def)

end

text \<open>The use of the cache.\<close>

locale caching_relation = client_relation R E
  for R :: "'s clientConn \<Rightarrow> 's clientConn \<Rightarrow> bool" and E :: "'s menv" +
  assumes cache_step: "R c (c\<lparr>cc_proxy := (cc_proxy c)\<lparr>px_cache := ch\<rparr>\<rparr>)"
begin

lemma steps_set_cache: "steps R (set_cache ch)"
  unfolding set_cache_def by (rule steps_modify) (rule cache_step)

lemma steps_cache: "steps R (cache_Get E k)" "steps R (cache_GetOrWait E k)"
    "steps R (cache_CancelInflight k)" "steps R (cache_SetAndNotify E k v t)" "steps R (cache_Set E k v t)"
  unfolding cache_Get_def cache_GetOrWait_def cache_CancelInflight_def cache_SetAndNotify_def cache_Set_def
  by (intro rules steps_set_cache)+

lemma steps_cached_answer: "steps R (cached_answer E lb k)"
  unfolding cached_answer_def by (intro rules steps_cache steps_record_calls)

lemma steps_cancel_flight: "steps R (cancel_flight q)"
  unfolding cancel_flight_def by (intro rules steps_cache)

end

text \<open>Commands on one backend connection: it is read, written and given up after an error.\<close>

locale wire_relation = client_relation R E
  for R :: "'s clientConn \<Rightarrow> 's clientConn \<Rightarrow> bool" and E :: "'s menv" +
  assumes reset_step: "R c (c\<lparr>cc_backend := None, cc_backendAddr := [], cc_backendName := []\<rparr>)"
    and backend_read_step: "cc_backend c = Some bk \<Longrightarrow>
      R c (c\<lparr>cc_backend := Some (bk\<lparr>bk_in := rest\<rparr>), cc_backendSeq := seq\<rparr>)"
    and send_step: "cc_backend c = Some bk \<Longrightarrow> R c (c\<lparr>cc_sent := cc_sent c @ [(bk_addr bk, bs)]\<rparr>)"
begin

lemma steps_reset: "steps R resetBackend"
  unfolding resetBackend_def by (rule steps_modify) (rule reset_step)

lemma steps_backend_of: "steps R backend_of"
  unfolding backend_of_def by (intro rules)

lemma lost_step: "R c (c\<lparr>cc_tick := Suc (cc_tick c), cc_backend := None, cc_backendAddr := [], cc_backendName := []\<rparr>)"
  using R_trans [OF quiet_step reset_step [of "c\<lparr>cc_tick := Suc (cc_tick c)\<rparr>"]] by (simp add: quiet_def)

lemma steps_readBackendPacket: "steps R (readBackendPacket E)"
proof (rule stepsI)
  fix c
  show "R c (snd (readBackendPacket E c))"
    by (cases "cc_backend c")
      (auto simp: readBackendPacket_def backend_of_def resetBackend_def R_refl backend_read_step lost_step split: option.splits prod.splits)
qed

lemma steps_read_backend: "steps R (read_backend E v)"
proof (rule stepsI)
  fix c
  show "R c (snd (read_backend E v c))"
    by (cases "cc_backend c")
      (auto simp: read_backend_def backend_of_def resetBackend_def R_refl backend_read_step lost_step split: read_result.splits)
qed

lemma steps_writeBackendPacket: "steps R (writeBackendPacket E p)"
proof (rule stepsI)
  fix c :: "'s clientConn"
  let ?s = "c\<lparr>cc_backendSeq := cc_backendSeq c + 1\<rparr>"
  let ?c = "?s\<lparr>cc_tick := Suc (cc_tick c)\<rparr>"
  have s: "R c ?s" and q: "R c ?c"
    by (simp_all add: quiet_step quiet_def)
  show "R c (snd (writeBackendPacket E p c))"
  proof (cases "cc_backend c")
    case None
    then have "snd (writeBackendPacket E p c) = ?s"
      by (simp add: writeBackendPacket_def backend_of_def)
    with s show ?thesis by simp
  next
    case (Some bk)
    have "R ?c (snd (writeBackendPacket E p c))"
    proof (cases "me_write_error E (cc_tick c)")
      case None
      then have "snd (writeBackendPacket E p c) = ?c\<lparr>cc_sent := cc_sent ?c @ [(bk_addr bk, frame (cc_backendSeq c + 1) p)]\<rparr>"
        using Some by (simp add: writeBackendPacket_def backend_of_def)
      moreover have "R ?c \<dots>"
        using Some by (intro send_step) simp
      ultimately show ?thesis by (rule ssubst)
    next
      case (Some e)
      then have "snd (writeBackendPacket E p c) = ?c\<lparr>cc_backend := None, cc_backendAddr := [], cc_backendName := []\<rparr>"
        using \<open>cc_backend c = Some bk\<close> by (simp add: writeBackendPacket_def backend_of_def resetBackend_def)
      then show ?thesis
        using reset_step [of ?c] by (rule ssubst)
    qed
    with q show ?thesis by (rule R_trans)
  qed
qed

lemma steps_send_command: "steps R (send_command E cmd data)"
  unfolding send_command_def by (intro rules steps_writeBackendPacket steps_quiet) (simp add: quiet_def)

lemma steps_exec: "steps R (execBackendQuery E q)" "steps R (execBackendResponse E)" "steps R (execute_directly E data)"
  unfolding execBackendQuery_def execBackendResponse_def execute_directly_def
  by (intro rules steps_send_command steps_read_backend)+

lemmas wire_steps = client_steps steps_exec steps_send_command steps_readBackendPacket steps_writeBackendPacket

lemma steps_infile_loop: "steps R (infile_loop E)"
proof -
  have "R c (snd (infile_loop E c))" for c
  proof (induction "length (cc_in c)" arbitrary: c rule: less_induct)
    case less
    obtain r t where run: "infile_loop E c = (r, t)" by (cases "infile_loop E c")
    from run have "R c t"
      unfolding infile_loop.simps [of E c]
    proof (cases rule: andthen_cases)
      case (Ok p c1)
      from Ok(2) have "R c1 t"
        using stepsD [OF steps_writeBackendPacket]
      proof (cases rule: andthen_cases)
        case (Ok u c2)
        have "length (cc_in c2) < length (cc_in c)"
          using readPacket_shorter [OF \<open>readPacket c = (Ok p, c1)\<close>] writeBackendPacket_in [OF Ok(1)] by simp
        then have "R c2 (snd (infile_loop E c2))" by (rule less)
        with stepsD [OF steps_writeBackendPacket Ok(1)] Ok(2) show ?thesis
          by (auto split: if_splits intro: R_trans)
      qed auto
      then show ?thesis
        using stepsD [OF steps_readPacket Ok(1)] by (rule R_trans [rotated])
    qed (auto dest: stepsD [OF steps_readPacket])
    then show ?case by (simp add: run)
  qed
  then show ?thesis by (rule stepsI)
qed

lemma steps_handleLocalInfile: "steps R (handleLocalInfile E r m)"
  unfolding handleLocalInfile_def by (intro rules wire_steps steps_infile_loop)

end

text \<open>The choice of a connection: the old one is replaced.\<close>

locale switching_relation = wire_relation R E
  for R :: "'s clientConn \<Rightarrow> 's clientConn \<Rightarrow> bool" and E :: "'s menv" +
  assumes switch_step: "bk_addr bk = addr \<Longrightarrow>
      R c (c\<lparr>cc_backend := Some bk, cc_backendPool := p, cc_backendAddr := addr, cc_backendName := n\<rparr>)"
begin

lemma steps_ensureBackendConn: "steps R (ensureBackendConn E addr name pool)"
proof (rule stepsI)
  fix c
  show "R c (snd (ensureBackendConn E addr name pool c))"
  proof (cases "addr = cc_backendAddr c \<and> cc_backend c \<noteq> None")
    case True
    then show ?thesis by (simp add: ensureBackendConn_def R_refl)
  next
    case False
    obtain r c' where d: "dialAndAuth E addr c = (r, c')" by (cases "dialAndAuth E addr c")
    have "R c c'" using stepsD [OF steps_dialAndAuth d] .
    then show ?thesis
      using False d dial_addr [of E addr c]
        switch_step [where addr = addr and c = c' and p = pool and n = name]
      by (cases r) (auto simp: ensureBackendConn_def intro: R_trans)
  qed
qed

lemma steps_ensureBackend: "steps R (ensureBackend E db)"
  unfolding ensureBackend_def by (intro rules steps_ensureBackendConn steps_quiet) (simp add: quiet_def)

lemma steps_primary: "steps R primary_of_pool"
  unfolding primary_of_pool_def own_pool_def by (intro rules)

lemmas switch_steps = wire_steps steps_ensureBackendConn steps_ensureBackend steps_primary

end

text \<open>The state of the session: transactions begin and end, statements are prepared and closed.\<close>

locale stateful_relation = wire_relation R E + caching_relation R E
  for R :: "'s clientConn \<Rightarrow> 's clientConn \<Rightarrow> bool" and E :: "'s menv" +
  assumes begin_step: "R c (c\<lparr>cc_status := cc_status c OR ml_StatusInTrans (me_lib E), cc_inTransaction := True\<rparr>)"
    and end_step: "R c (c\<lparr>cc_status := cc_status c AND NOT (ml_StatusInTrans (me_lib E)), cc_inTransaction := False\<rparr>)"
    and prepare_step: "R c (c\<lparr>cc_preparedStatements := mset_key (cc_preparedStatements c) k q\<rparr>)"
    and close_step: "R c (c\<lparr>cc_preparedStatements := mdelete (cc_preparedStatements c) k\<rparr>)"

text \<open>All commands, given what the choice of a connection does.\<close>

locale command_relation = stateful_relation R E
  for R :: "'s clientConn \<Rightarrow> 's clientConn \<Rightarrow> bool" and E :: "'s menv" +
  assumes backend_steps: "steps R (ensureBackend E db)"
    and write_steps: "steps R (executeImmediateWrite E lb query m)"
    and fetch_steps: "steps R (fetch E lb parsed m)"
begin

lemmas basic_steps = wire_steps backend_steps write_steps steps_cache steps_cached_answer steps_cancel_flight

lemma steps_transactions: "steps R (handleBegin E m)" "steps R (handleCommit E m)" "steps R (handleRollback E m)"
  unfolding handleBegin_def handleCommit_def handleRollback_def end_transaction_def
  by (intro rules basic_steps steps_modify begin_step end_step)+

lemma steps_query_parts: "steps R (use_database E db)" "steps R (switch_shard E q)" "steps R (handleShowTQDBStatus E m)"
    "steps R (handleBatchedWrite E lb s ms m)"
  unfolding use_database_def switch_shard_def handleShowTQDBStatus_def handleBatchedWrite_def
  by (intro rules basic_steps steps_batched steps_quiet; simp add: quiet_def)+

lemma steps_run_query: "steps R (run_query E lb q m)"
  unfolding run_query_def by (intro rules basic_steps fetch_steps steps_query_parts)

lemma steps_handleSingleQuery: "steps R (handleSingleQuery E s q m)"
proof -
  have "steps R (case k of
      UseDatabase dbName \<Rightarrow> next_do (use_database E dbName) (writeOKWithInfo E m)
    | BeginCommand \<Rightarrow> handleBegin E m | CommitCommand \<Rightarrow> handleCommit E m | RollbackCommand \<Rightarrow> handleRollback E m
    | ShowStatus \<Rightarrow> handleShowTQDBStatus E m | OtherQuery \<Rightarrow> run_query E lb p m)" for k lb p
    by (cases k) (auto intro!: rules basic_steps steps_query_parts steps_transactions steps_run_query)
  then show ?thesis
    unfolding handleSingleQuery_def by (intro rules steps_query_parts)
qed

lemma steps_handleQuery: "steps R (handleQuery E s)"
proof -
  have "steps R (handle_statements E q ss)" for q ss
    by (induction ss) (auto intro!: rules steps_handleSingleQuery simp del: go_run)
  then show ?thesis
    unfolding handleQuery_def by (intro rules)
qed

lemma steps_handlePrepare: "steps R (handlePrepare E s)"
proof -
  have f: "steps R (read_frames E n)" for n
    by (induction n) (auto intro!: rules basic_steps simp: read_frame_def simp del: go_run)
  show ?thesis
    unfolding handlePrepare_def read_definitions_def
    by (intro rules basic_steps f steps_modify prepare_step)
qed

lemma steps_handleExecute: "steps R (handleExecute E data)"
  unfolding handleExecute_def execute_statement_def handleBatchedPreparedExecute_def
  by (intro rules basic_steps steps_batched steps_handleLocalInfile)

lemma steps_dispatch: "steps R (dispatch E cmd data)"
  unfolding dispatch_def handleStmtClose_def handleStmtReset_def
  by (intro rules basic_steps steps_query_parts steps_handleQuery steps_handlePrepare steps_handleExecute steps_modify close_step)

lemma steps_answer: "steps R (answer E packet)"
proof (cases packet)
  case (Cons cmd data)
  have "steps R (modify (cc_sequence_update (\<lambda>_. 0)))"
    by (rule steps_quiet) (simp add: quiet_def)
  then show ?thesis
    unfolding answer_def Cons by (auto intro!: rules steps_dispatch basic_steps simp del: go_run)
qed (simp add: answer_def rules del: go_run)

end

text \<open>The commands for a relation that holds however a connection is replaced and a pool moves on to its next replica.\<close>

locale session_relation = switching_relation R E + stateful_relation R E
  for R :: "'s clientConn \<Rightarrow> 's clientConn \<Rightarrow> bool" and E :: "'s menv" +
  assumes replica_step: "GetReplica (pool_at a c) = Inr (p', res) \<Longrightarrow>
      R c (c\<lparr>cc_proxy := (cc_proxy c)\<lparr>px_heap := update_pool (px_heap (cc_proxy c)) a p'\<rparr>\<rparr>)"
begin

lemma steps_replica: "steps R replica_of_pool"
proof (rule stepsI)
  fix c
  show "R c (snd (replica_of_pool c))"
  proof (cases "cc_backendPool c")
    case (Some a)
    then show ?thesis
      by (cases "GetReplica (pool_at a c)")
        (auto simp: replica_of_pool_def own_pool_def R_refl dest: replica_step split: prod.splits)
  qed (simp add: replica_of_pool_def own_pool_def R_refl)
qed

lemma steps_executeImmediateWrite: "steps R (executeImmediateWrite E lb q m)"
  unfolding executeImmediateWrite_def by (intro rules switch_steps)

lemma steps_fetch: "steps R (fetch E lb q m)"
  unfolding fetch_def fetch_response_def select_backend_def
  by (intro rules switch_steps steps_cache steps_cancel_flight steps_replica steps_handleLocalInfile)

end

sublocale session_relation \<subseteq> command_relation R E
  by unfold_locales (intro steps_ensureBackend steps_executeImmediateWrite steps_fetch)+

section \<open>The loop\<close>

text \<open>No command makes the unread part of the client's stream longer.\<close>

interpretation stream: session_relation "\<lambda>c c'. length (cc_in c') \<le> length (cc_in c)" E for E
  by unfold_locales (auto simp: quiet_def)

function run :: "'s menv \<Rightarrow> ('s, unit) mgo" where
  "run E c = (case readPacket c of
     (Ok packet, c1) \<Rightarrow> andthen (answer E packet) (\<lambda>_ c2. run E c2) c1
   | (Err e, c1) \<Rightarrow> (Ok (), c1)
   | (Panic p, c1) \<Rightarrow> (Panic p, c1))"
  by pat_completeness auto
termination
proof (relation "measure (\<lambda>(E, c). length (cc_in c))")
  fix E :: "'s menv" and c c1 c2 :: "'s clientConn" and r packet x
  assume "(r, c1) = readPacket c" "r = Ok packet" "answer E packet c1 = (Ok x, c2)"
  then have "length (cc_in c1) < length (cc_in c)" "length (cc_in c2) \<le> length (cc_in c1)"
    using readPacket_shorter [of c packet c1] stepsD [OF stream.steps_answer] by (metis, blast)
  then show "((E, c2), E, c) \<in> measure (\<lambda>(E, c). length (cc_in c))" by simp
qed simp

declare run.simps [simp del]

context command_relation
begin

lemma steps_run: "steps R (run E)"
proof -
  have "R c (snd (run E c))" for c
  proof (induction "length (cc_in c)" arbitrary: c rule: less_induct)
    case less
    obtain r c1 where rd: "readPacket c = (r, c1)" by (cases "readPacket c")
    have c1: "R c c1" using stepsD [OF steps_readPacket rd] .
    show ?case
    proof (cases r)
      case (Ok packet)
      obtain r2 t where run: "andthen (answer E packet) (\<lambda>_. run E) c1 = (r2, t)"
        by (cases "andthen (answer E packet) (\<lambda>_. run E) c1")
      then have "R c1 t"
      proof (cases rule: andthen_cases)
        case (Ok u c2)
        have "length (cc_in c2) < length (cc_in c)"
          using readPacket_shorter [of c packet c1] rd \<open>r = _\<close> stepsD [OF stream.steps_answer Ok(1)] by simp
        from less [OF this] Ok(2) have "R c2 t" by simp
        with stepsD [OF steps_answer Ok(1)] show ?thesis by (rule R_trans)
      qed (auto dest: stepsD [OF steps_answer])
      then have "R c t" using c1 by (rule R_trans [rotated])
      then show ?thesis
        using rd Ok run by (simp add: run.simps [of E c])
    qed (use rd c1 in \<open>simp_all add: run.simps [of E c]\<close>)
  qed
  then show ?thesis by (rule stepsI)
qed

end

section \<open>A connection\<close>

definition New_conn :: "'s menv \<Rightarrow> 's Proxy \<Rightarrow> bytes \<Rightarrow> 32 word \<Rightarrow> 's clientConn" where
  "New_conn E px client connID =
     \<lparr>cc_proxy = px, cc_in = client, cc_out = [], cc_sent = [], cc_tick = 0, cc_metrics = [], cc_backend = None,
      cc_backendPool = mget (px_pools px) (pc_Default (px_config px)), cc_connID = connID, cc_capability = 0,
      cc_status = ml_StatusInAutocommit (me_lib E), cc_sequence = 0, cc_backendSeq = 0, cc_salt = [], cc_db = [],
      cc_user = [], cc_auth = [], cc_rawAuthPkt = [], cc_backendAddr = [], cc_backendName = [],
      cc_lastQueryBackend = [], cc_lastQueryShard = [], cc_lastQueryCacheHit = False, cc_lastBatchSize = 0,
      cc_preparedStatements = [], cc_inTransaction = False\<rparr>"

text \<open>The database of the handshake is selected on the backend; a failure is only logged.\<close>

definition select_initial_db :: "'s menv \<Rightarrow> ('s, unit) mgo" where
  "select_initial_db E = andthen (gets cc_db) (\<lambda>db.
     if db \<noteq> [] then next_do (attempt (execBackendQuery E (''USE `'' @ db @ ''`''))) (ret ()) else ret ())"

definition serve :: "'s menv \<Rightarrow> ('s, unit) mgo" where
  "serve E = andthen primary_of_pool (\<lambda>addr.
     andthen (attempt (dialAndAuth E addr)) (\<lambda>r. case r of
       Inl err \<Rightarrow> ret ()
     | Inr backend \<Rightarrow>
         next_do (modify (\<lambda>c. c\<lparr>cc_backend := Some backend, cc_backendAddr := addr, cc_backendName := ''primary''\<rparr>))
           (next_do (select_initial_db E) (run E))))"

definition handleConnection :: "'s menv \<Rightarrow> 's Proxy \<Rightarrow> bytes \<Rightarrow> 32 word \<Rightarrow> unit outcome \<times> 's clientConn" where
  "handleConnection E px client connID = serve E (New_conn E px client connID)"

context session_relation
begin

lemma steps_serve: "steps R (serve E)"
proof (rule stepsI)
  fix c
  obtain r t where "serve E c = (r, t)" by (cases "serve E c")
  moreover have rest: "steps R (next_do (select_initial_db E) (run E))"
    unfolding select_initial_db_def by (intro rules wire_steps steps_run)
  ultimately have "R c t"
    unfolding serve_def
  proof (cases rule: andthen_cases)
    case (Ok addr c1)
    have "R c c1" using stepsD [OF steps_primary Ok(1)] .
    moreover have "R c1 t"
      using Ok(2)
    proof (cases rule: andthen_cases)
      case (Ok r1 c2)
      have c2: "R c1 c2" using stepsD [OF steps_attempt [OF steps_dialAndAuth] Ok(1)] .
      show ?thesis
      proof (cases r1)
        case (Inr bk)
        have "bk_addr bk = addr"
          using Ok(1) Inr dial_addr [of E addr c1 bk c2] by (auto simp: attempt_def split: prod.splits outcome.splits)
        from switch_step [OF this, of c2 "''primary''" "cc_backendPool c2"]
        have "R c2 (c2\<lparr>cc_backend := Some bk, cc_backendAddr := addr, cc_backendName := ''primary''\<rparr>)"
          by (cases c2) simp
        moreover have "R (c2\<lparr>cc_backend := Some bk, cc_backendAddr := addr, cc_backendName := ''primary''\<rparr>) t"
          using stepsD [OF rest] Ok(2) Inr by simp
        ultimately show ?thesis
          using c2 R_trans by blast
      qed (use Ok(2) c2 in simp)
    qed (auto dest: stepsD [OF steps_attempt [OF steps_dialAndAuth]])
    ultimately show ?thesis by (rule R_trans)
  qed (auto dest: stepsD [OF steps_primary])
  then show "R c (snd (serve E c))"
    using \<open>serve E c = (r, t)\<close> by simp
qed

end

section \<open>The invariant of a connection\<close>

text \<open>
  The address the proxy keeps is the one its backend connection was dialled to; the transaction flag of the
  status that clients are told is the flag that keeps writes out of batches; and the pools are well formed.
\<close>

definition conn_ok :: "'s menv \<Rightarrow> 's clientConn \<Rightarrow> bool" where
  "conn_ok E c \<longleftrightarrow>
     (\<forall>bk. cc_backend c = Some bk \<longrightarrow> bk_addr bk = cc_backendAddr c) \<and>
     (cc_inTransaction c \<longleftrightarrow> cc_status c AND ml_StatusInTrans (me_lib E) \<noteq> 0) \<and>
     map_ok (cc_preparedStatements c) \<and> (\<forall>a. pool_ok (pool_at a c))"

lemma in_trans_flag:
  fixes w t :: "16 word"
  shows "(w OR t) AND t = t" and "(w AND NOT t) AND t = 0"
  by (auto intro: bit_eqI simp: bit_simps)

lemma pool_at_update: "pool_at b (c\<lparr>cc_proxy := (cc_proxy c)\<lparr>px_heap := update_pool (px_heap (cc_proxy c)) a p\<rparr>\<rparr>)
    = (if b = a then p else pool_at b c)"
  by (simp add: pool_at_def update_pool_def)

interpretation session: session_relation
  "\<lambda>c c'. ml_StatusInTrans (me_lib E) \<noteq> 0 \<longrightarrow> conn_ok E c \<longrightarrow> conn_ok E c'" E for E
proof (unfold_locales, goal_cases)
  case (3 c c')
  then show ?case by (simp add: quiet_def conn_ok_def pool_at_def)
next
  case (4 bs c)
  then show ?case by (simp add: conn_ok_def pool_at_def)
next
  case (5 c)
  then show ?case by (simp add: conn_ok_def pool_at_def)
next
  case (6 c bk rest seq)
  then show ?case by (simp add: conn_ok_def pool_at_def)
next
  case (7 c bk bs)
  then show ?case by (simp add: conn_ok_def pool_at_def)
next
  case (8 bk addr c p n)
  then show ?case by (simp add: conn_ok_def pool_at_def)
next
  case (9 c ch)
  then show ?case by (simp add: conn_ok_def pool_at_def)
next
  case (10 c)
  then show ?case by (simp add: conn_ok_def pool_at_def in_trans_flag)
next
  case (11 c)
  then show ?case by (simp add: conn_ok_def pool_at_def in_trans_flag)
next
  case (12 c k q)
  then show ?case by (simp add: conn_ok_def pool_at_def)
next
  case (13 c k)
  then show ?case by (simp add: conn_ok_def pool_at_def)
next
  case (14 a c p' res)
  then show ?case
    using pool.pick_inv [of "pool_at a c" p' "fst res" "snd res"] by (auto simp: conn_ok_def pool_at_update)
qed auto

end
