(* ===== verification/Maria_Session.thy ===== *)
theory Maria_Session
  imports Maria_Steps
begin

text \<open>
  The sessions of the MariaDB proxy from the handshake to the end: the properties of the whole connection, of the
  routing of queries, and of their caching, with examples of sessions that show where the code departs from
  what its users expect.
\<close>

section \<open>Where packets go\<close>

text \<open>The backend connection, if there is one, goes to \<open>addr\<close>; and a step sends to \<open>addr\<close> only, while this holds.\<close>

definition connected_to :: "string \<Rightarrow> 's clientConn \<Rightarrow> bool" where
  "connected_to addr c \<longleftrightarrow> (\<forall>bk. cc_backend c = Some bk \<longrightarrow> bk_addr bk = addr)"

definition sends_to :: "string \<Rightarrow> 's clientConn \<Rightarrow> 's clientConn \<Rightarrow> bool" where
  "sends_to addr c c' \<longleftrightarrow> cc_backendPool c' = cc_backendPool c \<and> px_heap (cc_proxy c') = px_heap (cc_proxy c) \<and>
     (connected_to addr c \<longrightarrow> connected_to addr c' \<and>
       (\<exists>new. cc_sent c' = cc_sent c @ new \<and> (\<forall>x \<in> set new. fst x = addr)))"

lemma sends_to_trans: "sends_to addr c c' \<Longrightarrow> sends_to addr c' c'' \<Longrightarrow> sends_to addr c c''"
  unfolding sends_to_def by (auto 0 3)

interpretation sends: wire_relation "sends_to addr" E for addr E
proof (unfold_locales, goal_cases)
  case (2 s t u)
  then show ?case by (rule sends_to_trans)
qed (auto simp: sends_to_def connected_to_def quiet_def)

interpretation sends_cache: caching_relation "sends_to addr" E for addr E
  by unfold_locales (simp add: sends_to_def connected_to_def)

text \<open>Dialling sends nothing on the current connection and leaves it alone.\<close>

definition same_backend :: "'s clientConn \<Rightarrow> 's clientConn \<Rightarrow> bool" where
  "same_backend c c' \<longleftrightarrow> cc_sent c' = cc_sent c \<and> cc_backend c' = cc_backend c \<and> cc_backendPool c' = cc_backendPool c \<and>
     cc_backendAddr c' = cc_backendAddr c \<and> px_heap (cc_proxy c') = px_heap (cc_proxy c) \<and>
     cc_inTransaction c' = cc_inTransaction c \<and> cc_status c' = cc_status c \<and>
     px_writeBatch (cc_proxy c') = px_writeBatch (cc_proxy c)"

interpretation dial: caching_relation same_backend E for E
  by unfold_locales (auto simp: same_backend_def quiet_def)

text \<open>Choosing a backend sends nothing either, and ends on a connection to the address asked for.\<close>

definition no_traffic :: "'s clientConn \<Rightarrow> 's clientConn \<Rightarrow> bool" where
  "no_traffic c c' \<longleftrightarrow> cc_sent c' = cc_sent c \<and> px_heap (cc_proxy c') = px_heap (cc_proxy c) \<and>
     cc_inTransaction c' = cc_inTransaction c \<and> cc_status c' = cc_status c \<and>
     px_writeBatch (cc_proxy c') = px_writeBatch (cc_proxy c)"

interpretation choosing: caching_relation no_traffic E for E
  by unfold_locales (auto simp: no_traffic_def quiet_def)

lemma ensureBackendConn_cases:
  assumes "ensureBackendConn E addr name pool c = (r, t)" and "conn_ok E c"
  shows "no_traffic c t" and "r \<noteq> Ok () \<Longrightarrow> same_backend c t"
    and "r = Ok () \<Longrightarrow> connected_to addr t \<and> cc_backend t \<noteq> None \<and> (cc_backendPool t = pool \<or> cc_backendPool t = cc_backendPool c)"
proof -
  have "no_traffic c t \<and> (r \<noteq> Ok () \<longrightarrow> same_backend c t) \<and>
    (r = Ok () \<longrightarrow> connected_to addr t \<and> cc_backend t \<noteq> None \<and> (cc_backendPool t = pool \<or> cc_backendPool t = cc_backendPool c))"
  proof (cases "addr = cc_backendAddr c \<and> cc_backend c \<noteq> None")
    case True
    then show ?thesis
      using assms by (auto simp: ensureBackendConn_def no_traffic_def conn_ok_def connected_to_def)
  next
    case False
    obtain r1 c1 where d: "dialAndAuth E addr c = (r1, c1)" by (cases "dialAndAuth E addr c")
    have s: "same_backend c c1" using stepsD [OF dial.steps_dialAndAuth d] .
    show ?thesis
    proof (cases r1)
      case (Ok bk)
      then show ?thesis
        using assms(1) False d dial_addr [of E addr c bk c1] s
        by (auto simp: ensureBackendConn_def no_traffic_def same_backend_def connected_to_def)
    qed (use assms(1) False d s in \<open>auto simp: ensureBackendConn_def no_traffic_def same_backend_def\<close>)
  qed
  then show "no_traffic c t" and "r \<noteq> Ok () \<Longrightarrow> same_backend c t"
    and "r = Ok () \<Longrightarrow> connected_to addr t \<and> cc_backend t \<noteq> None \<and> (cc_backendPool t = pool \<or> cc_backendPool t = cc_backendPool c)"
    by blast+
qed

lemma ensureBackendConn_no_traffic: "steps no_traffic (ensureBackendConn E addr name pool)"
proof (rule stepsI)
  fix c
  show "no_traffic c (snd (ensureBackendConn E addr name pool c))"
  proof (cases "addr = cc_backendAddr c \<and> cc_backend c \<noteq> None")
    case False
    obtain r1 c1 where d: "dialAndAuth E addr c = (r1, c1)" by (cases "dialAndAuth E addr c")
    have "same_backend c c1" using stepsD [OF dial.steps_dialAndAuth d] .
    then show ?thesis
      using False d by (cases r1) (auto simp: ensureBackendConn_def no_traffic_def same_backend_def)
  qed (simp add: ensureBackendConn_def no_traffic_def)
qed

lemma steps_switch_shard: "steps no_traffic (switch_shard E q)"
  unfolding switch_shard_def ensureBackend_def
  by (intro choosing.rules ensureBackendConn_no_traffic choosing.steps_quiet) (simp_all add: quiet_def)

text \<open>A command on the connection chosen last.\<close>

lemma connected_command:
  assumes "ensureBackendConn E addr name (cc_backendPool c) c = (Ok (), c1)" and "conn_ok E c"
    and "steps (sends_to addr) m" and "m c1 = (r, t)"
  shows "cc_backendPool t = cc_backendPool c \<and> px_heap (cc_proxy t) = px_heap (cc_proxy c) \<and>
    (\<exists>new. cc_sent t = cc_sent c @ new \<and> (\<forall>x \<in> set new. fst x = addr))"
  using ensureBackendConn_cases [OF assms(1,2)] stepsD [OF assms(3,4)]
  by (auto simp: sends_to_def no_traffic_def)

text \<open>What a client may expect of the packets a query sends: they go to the primary of the pool of the connection, or to a
  replica of it that is up, when \<open>read_only\<close> holds.\<close>

definition routed :: "bool \<Rightarrow> 's clientConn \<Rightarrow> 's clientConn \<Rightarrow> bool" where
  "routed read_only c t \<longleftrightarrow> (\<exists>new. cc_sent t = cc_sent c @ new \<and>
     (\<forall>(addr, packet) \<in> set new. \<exists>a. cc_backendPool t = Some a \<and>
        (addr = GetPrimary (pool_at a t) \<or> read_only \<and> IsHealthy (pool_at a t) addr)))"

lemma routed_same: "cc_sent t = cc_sent c \<Longrightarrow> routed b c t"
  by (simp add: routed_def)

lemma routed_to:
  assumes "cc_backendPool t = Some a" and "\<exists>new. cc_sent t = cc_sent c @ new \<and> (\<forall>x \<in> set new. fst x = addr)"
    and "addr = GetPrimary (pool_at a t) \<or> b \<and> IsHealthy (pool_at a t) addr"
  shows "routed b c t"
proof -
  obtain new where new: "cc_sent t = cc_sent c @ new" "\<forall>x \<in> set new. fst x = addr"
    using assms(2) by blast
  show ?thesis
    unfolding routed_def
  proof (intro exI conjI ballI)
    show "cc_sent t = cc_sent c @ new" by (rule new(1))
  next
    fix x assume "x \<in> set new"
    with new(2) assms(1,3) show "case x of (addr', packet) \<Rightarrow> \<exists>a. cc_backendPool t = Some a \<and>
        (addr' = GetPrimary (pool_at a t) \<or> b \<and> IsHealthy (pool_at a t) addr')"
      by (cases x) auto
  qed
qed

lemma executeImmediateWrite_routed:
  assumes "executeImmediateWrite E lb query m c = (r, t)" and "conn_ok E c"
  shows "routed b c t"
proof (cases "cc_backendPool c")
  case None
  then show ?thesis
    using assms(1) by (auto simp: executeImmediateWrite_def primary_of_pool_def own_pool_def intro: routed_same)
next
  case (Some a)
  let ?addr = "GetPrimary (pool_at a c)"
  let ?rest = "andthen (execBackendQuery E query) (\<lambda>response.
             next_do (record_calls E (database_calls ''primary'' lb))
               (next_do (served_from ''primary'' False) (forwardBackendResponse E response m)))"
  have run: "next_do (ensureBackendConn E ?addr ''primary'' (Some a)) ?rest c = (r, t)"
    using assms(1) Some by (simp add: executeImmediateWrite_def primary_of_pool_def own_pool_def)
  have st: "steps (sends_to ?addr) ?rest"
    by (intro sends.rules sends.wire_steps)
  from run show ?thesis
  proof (cases rule: andthen_cases)
    case (Ok u c1)
    note cmd = connected_command [of E ?addr "''primary''" c c1 ?rest r t]
    have facts: "cc_backendPool t = Some a" "px_heap (cc_proxy t) = px_heap (cc_proxy c)"
      "\<exists>new. cc_sent t = cc_sent c @ new \<and> (\<forall>x \<in> set new. fst x = ?addr)"
      using cmd Ok st assms(2) Some by auto
    have "pool_at a t = pool_at a c"
      using facts(2) by (simp add: pool_at_def)
    then show ?thesis
      using routed_to [where addr = ?addr, OF facts(1,3)] by simp
  qed (use ensureBackendConn_cases(1) [OF _ assms(2)] in \<open>auto simp: no_traffic_def intro: routed_same\<close>)
qed

lemma select_backend_cases:
  assumes "select_backend E q c = (r, t)" and "conn_ok E c"
  shows "cc_sent t = cc_sent c" "cc_backendPool t = cc_backendPool c" "conn_ok E t"
    and "r = Ok (addr, name) \<Longrightarrow> \<exists>a. cc_backendPool t = Some a \<and> (addr = GetPrimary (pool_at a t) \<or>
      IsCacheable q \<and> \<not> cc_inTransaction c \<and> IsHealthy (pool_at a t) addr)"
proof -
  have "cc_sent t = cc_sent c \<and> cc_backendPool t = cc_backendPool c \<and> conn_ok E t \<and>
    (r = Ok (addr, name) \<longrightarrow> (\<exists>a. cc_backendPool t = Some a \<and> (addr = GetPrimary (pool_at a t) \<or>
      IsCacheable q \<and> \<not> cc_inTransaction c \<and> IsHealthy (pool_at a t) addr)))"
  proof (cases "cc_backendPool c")
    case None
    then show ?thesis
      using assms by (auto simp: select_backend_def primary_of_pool_def own_pool_def)
  next
    case (Some a)
    have ok: "pool_ok (pool_at a c)"
      using assms(2) by (simp add: conn_ok_def)
    from pool.pick_total [OF ok] obtain p' ad nm where g: "GetReplica (pool_at a c) = Inr (p', ad, nm)"
      by blast
    note facts = pool.pick_inv [OF ok g] pool.pick_frame [OF ok g] pool.pick_up [OF ok g]
    show ?thesis
    proof (cases "IsCacheable q \<and> cc_status c AND ml_StatusInTrans (me_lib E) = 0")
      case True
      then have "r = Ok (ad, nm)" and t: "t = c\<lparr>cc_proxy := (cc_proxy c)\<lparr>px_heap := update_pool (px_heap (cc_proxy c)) a p'\<rparr>\<rparr>"
        using assms(1) Some g by (auto simp: select_backend_def primary_of_pool_def replica_of_pool_def own_pool_def)
      moreover have "\<not> cc_inTransaction c"
        using True assms(2) by (simp add: conn_ok_def)
      moreover have "pool_at b t = (if b = a then p' else pool_at b c)" for b
        unfolding t by (rule pool_at_update)
      ultimately show ?thesis
        using True Some assms(2) facts by (auto simp: conn_ok_def split: if_splits)
    next
      case False
      then show ?thesis
        using assms Some by (auto simp: select_backend_def primary_of_pool_def own_pool_def)
    qed
  qed
  then show "cc_sent t = cc_sent c" "cc_backendPool t = cc_backendPool c" "conn_ok E t"
    and "r = Ok (addr, name) \<Longrightarrow> \<exists>a. cc_backendPool t = Some a \<and> (addr = GetPrimary (pool_at a t) \<or>
      IsCacheable q \<and> \<not> cc_inTransaction c \<and> IsHealthy (pool_at a t) addr)"
    by blast+
qed

lemma fetch_routed:
  assumes "fetch E lb q m c = (r, t)" and "conn_ok E c"
  shows "routed (IsCacheable q \<and> \<not> cc_inTransaction c) c t"
  using assms(1) unfolding fetch_def fetch_response_def andthen_assoc
proof (cases rule: andthen_cases)
  case (Ok an c1)
  obtain addr name where an: "an = (addr, name)" by (cases an)
  note sel = select_backend_cases(1-3) [OF Ok(1) assms(2)]
  from select_backend_cases(4) [OF Ok(1) assms(2)] an obtain a where a: "cc_backendPool c1 = Some a" and up: "addr = GetPrimary (pool_at a c1) \<or>
      IsCacheable q \<and> \<not> cc_inTransaction c \<and> IsHealthy (pool_at a c1) addr" by blast
  have pre: "steps no_traffic (on_error (ensureBackendConn E addr name (cc_backendPool c1)) (cancel_flight q))"
    by (intro choosing.rules ensureBackendConn_no_traffic choosing.steps_cancel_flight)
  let ?rest = "andthen (on_error (execBackendQuery E (pq_Query q)) (cancel_flight q)) (\<lambda>response.
             if is_infile_request response then handleLocalInfile E response m
             else next_do (record_calls E (database_calls name lb))
               (next_do (served_from name False)
                 (next_do (if IsCacheable q
                           then cache_SetAndNotify E (pq_Query q) response (ttl_duration (pq_TTL q)) else ret ())
                   (forwardBackendResponse E response m))))"
  have rest: "steps (sends_to addr) ?rest"
    by (intro sends.rules sends.wire_steps sends_cache.steps_cache sends.steps_handleLocalInfile sends_cache.steps_cancel_flight)
  have run: "next_do (on_error (ensureBackendConn E addr name (cc_backendPool c1)) (cancel_flight q)) ?rest c1 = (r, t)"
    using Ok(2) by (simp add: an andthen_assoc)
  from run show ?thesis
  proof (cases rule: andthen_cases)
    case (Ok u c2)
    then have e: "ensureBackendConn E addr name (cc_backendPool c1) c1 = (Ok (), c2)"
      by (cases rule: on_error_cases) (auto simp: cancel_flight_def elim!: andthen_cases)
    have facts: "cc_backendPool t = Some a" "px_heap (cc_proxy t) = px_heap (cc_proxy c1)"
      "\<exists>new. cc_sent t = cc_sent c1 @ new \<and> (\<forall>x \<in> set new. fst x = addr)"
      using connected_command [OF e sel(3) rest Ok(2)] a by auto
    have "pool_at a t = pool_at a c1"
      using facts(2) by (simp add: pool_at_def)
    then show ?thesis
      using routed_to [where addr = addr and b = "IsCacheable q \<and> \<not> cc_inTransaction c", OF facts(1,3)] up sel(1)
      by (simp add: routed_def)
  qed (use stepsD [OF pre] sel(1) in \<open>auto simp: no_traffic_def intro: routed_same\<close>)
qed (auto dest!: select_backend_cases(1) [OF _ assms(2)] intro: routed_same)

lemma routed_after:
  "routed b c1 t \<Longrightarrow> cc_sent c1 = cc_sent c \<Longrightarrow> routed b c t"
  by (simp add: routed_def)

lemma answer_batched_cases:
  assumes "answer_batched E res fallback m c = (r, t)"
  shows "same_backend c t \<or> fallback c = (r, t)"
proof (cases "res_Error res = None \<or> (\<exists>e. res_Error res = Some e \<and> e \<noteq> ErrManagerClosed \<and> e \<noteq> ErrTimeout)")
  case True
  then have "answer_batched E res (ret ()) m c = (r, t)"
    using assms by (auto simp: answer_batched_def)
  moreover have "steps same_backend (answer_batched E res (ret ()) m)"
    by (intro dial.steps_batched dial.rules)
  ultimately show ?thesis by (blast dest: stepsD)
next
  case False
  then show ?thesis
    using assms by (auto simp: answer_batched_def)
qed

lemma conn_ok_tick: "conn_ok E (c\<lparr>cc_tick := n, cc_metrics := ms\<rparr>) = conn_ok E c"
  by (simp add: conn_ok_def pool_at_def)

lemma run_query_routed:
  assumes "run_query E lb q m c = (r, t)" and "conn_ok E c" and "ml_StatusInTrans (me_lib E) \<noteq> 0"
  shows "routed (IsCacheable q \<and> \<not> cc_inTransaction c) c t"
proof -
  consider "batches q c" | "\<not> batches q c" "IsCacheable q" | "\<not> batches q c" "\<not> IsCacheable q" by blast
  then show ?thesis
  proof cases
    case 1
    let ?c = "c\<lparr>cc_tick := Suc (cc_tick c), cc_metrics := cc_metrics c @ batch_calls lb\<rparr>"
    have "conn_ok E ?c"
      using assms(2) by (simp add: conn_ok_tick)
    from 1 assms(1) consider "cc_sent t = cc_sent c"
      | res where "answer_batched E res (executeImmediateWrite E lb (pq_Query q) m) m ?c = (r, t)"
      by (auto simp: run_query_def handleBatchedWrite_def record_calls_def split: if_splits)
    then show ?thesis
    proof cases
      case 2
      then have "same_backend ?c t \<or> routed (IsCacheable q \<and> \<not> cc_inTransaction c) ?c t"
        using answer_batched_cases executeImmediateWrite_routed [OF _ \<open>conn_ok E ?c\<close>] by blast
      then show ?thesis
        by (auto simp: same_backend_def intro: routed_same routed_after)
    qed (rule routed_same)
  next
    case 2
    have run: "andthen (cached_answer E lb (pq_Query q)) (\<lambda>answer.
           case answer of
             Some (name, cached) \<Rightarrow> next_do (served_from name True) (forwardBackendResponse E cached m)
           | None \<Rightarrow> fetch E lb q m) c = (r, t)"
      using 2 assms(1) by (simp add: run_query_def)
    from run show ?thesis
    proof (cases rule: andthen_cases)
      case (Ok answer c1)
      have same: "same_backend c c1" "conn_ok E c1"
        using stepsD [OF dial.steps_cached_answer Ok(1)] stepsD [OF session.steps_cached_answer Ok(1)] assms(2,3) by blast+
      show ?thesis
      proof (cases answer)
        case None
        then have "routed (IsCacheable q \<and> \<not> cc_inTransaction c1) c1 t"
          using Ok(2) fetch_routed [OF _ same(2)] by simp
        then show ?thesis
          using same(1) by (simp add: same_backend_def routed_after)
      next
        case (Some a)
        obtain name cached where a: "a = (name, cached)" by (cases a)
        have "steps same_backend (next_do (served_from name True) (forwardBackendResponse E cached m))"
          by (intro dial.rules dial.client_steps)
        from stepsD [OF this] Ok(2) Some a same(1) show ?thesis
          by (auto simp: same_backend_def intro: routed_same)
      qed
    qed (auto dest!: stepsD [OF dial.steps_cached_answer] simp: same_backend_def intro: routed_same)
  next
    case 3
    then have "fetch E lb q m c = (r, t)"
      using assms(1) by (simp add: run_query_def)
    then show ?thesis
      by (rule fetch_routed) (rule assms(2))
  qed
qed

section \<open>Flights\<close>

text \<open>Everything but the operations of the cache leaves it alone.\<close>

definition cache_kept :: "'s clientConn \<Rightarrow> 's clientConn \<Rightarrow> bool" where
  "cache_kept c c' \<longleftrightarrow> px_cache (cc_proxy c') = px_cache (cc_proxy c)"

interpretation kept: switching_relation cache_kept E for E
  by unfold_locales (auto simp: cache_kept_def quiet_def)

lemma steps_select_backend: "steps cache_kept (select_backend E q)"
proof -
  have "steps cache_kept replica_of_pool"
    unfolding replica_of_pool_def own_pool_def
    by (intro kept.rules kept.steps_modify) (simp add: cache_kept_def)
  then show ?thesis
    unfolding select_backend_def by (intro kept.rules kept.steps_primary)
qed

abbreviation conn_flights :: "'s clientConn \<Rightarrow> string set" where
  "conn_flights c \<equiv> flights_of (px_cache (cc_proxy c))"

definition without_flight :: "ParsedQuery \<Rightarrow> string set \<Rightarrow> string set" where
  "without_flight q F = (if IsCacheable q then F - {pq_Query q} else F)"

lemma cancel_flight_flights:
  "cancel_flight q c = (Ok u, t) \<Longrightarrow> conn_flights t = without_flight q (conn_flights c)"
  by (auto simp: cancel_flight_def cache_CancelInflight_def set_cache_def or_panic_def CancelInflight_flights without_flight_def
      elim!: andthen_cases split: sum.splits if_splits)

lemma cancel_flight_no_error: "cancel_flight q c \<noteq> (Err e, t)"
  by (auto simp: cancel_flight_def cache_CancelInflight_def set_cache_def or_panic_def elim!: andthen_cases split: sum.splits if_splits)

lemma on_error_flights:
  assumes "on_error m (cancel_flight q) c = (r, t)" and "steps cache_kept m"
  shows "r = Ok x \<Longrightarrow> conn_flights t = conn_flights c"
    and "r = Err e \<Longrightarrow> conn_flights t = without_flight q (conn_flights c)"
proof -
  have "(r = Ok x \<longrightarrow> conn_flights t = conn_flights c) \<and> (r = Err e \<longrightarrow> conn_flights t = without_flight q (conn_flights c))"
    using assms(1)
  proof (cases rule: on_error_cases)
    case (Ok x)
    then show ?thesis
      using stepsD [OF assms(2) Ok(1)] by (simp add: cache_kept_def)
  next
    case (Err e' s')
    have s': "conn_flights s' = conn_flights c"
      using stepsD [OF assms(2) Err(1)] by (simp add: cache_kept_def)
    from Err(2) show ?thesis
    proof (cases rule: andthen_cases)
      case (Ok u s'')
      then show ?thesis
        using cancel_flight_flights [OF Ok(1)] s' by auto
    qed (simp_all add: cancel_flight_no_error)
  qed simp
  then show "r = Ok x \<Longrightarrow> conn_flights t = conn_flights c"
    and "r = Err e \<Longrightarrow> conn_flights t = without_flight q (conn_flights c)" by blast+
qed

lemma select_backend_no_error: "select_backend E q c \<noteq> (Err e, t)"
  by (auto simp: select_backend_def primary_of_pool_def own_pool_def replica_of_pool_def or_panic_def
      elim!: andthen_cases split: option.splits if_splits sum.splits)

lemma fetch_response_flights:
  assumes "fetch_response E q c = (r, t)"
  shows "r = Ok x \<Longrightarrow> conn_flights t = conn_flights c"
    and "r = Err e \<Longrightarrow> conn_flights t = without_flight q (conn_flights c)"
proof -
  have "(r = Ok x \<longrightarrow> conn_flights t = conn_flights c) \<and> (r = Err e \<longrightarrow> conn_flights t = without_flight q (conn_flights c))"
    using assms unfolding fetch_response_def
  proof (cases rule: andthen_cases)
    case (Ok an c1)
    obtain addr name where an: "an = (addr, name)" by (cases an)
    have c1: "conn_flights c1 = conn_flights c"
      using stepsD [OF steps_select_backend Ok(1)] by (simp add: cache_kept_def)
    from Ok(2) have "next_do (on_error (ensureBackendConn E addr name (cc_backendPool c1)) (cancel_flight q))
       (andthen (on_error (execBackendQuery E (pq_Query q)) (cancel_flight q)) (\<lambda>response. ret (name, response))) c1 = (r, t)"
      by (simp add: an)
    then show ?thesis
    proof (cases rule: andthen_cases)
      case (Ok u c2)
      have c2: "conn_flights c2 = conn_flights c1"
        using on_error_flights(1) [OF Ok(1) kept.steps_ensureBackendConn] by simp
      from Ok(2) show ?thesis
      proof (cases rule: andthen_cases)
        case (Ok y c3)
        then show ?thesis
          using on_error_flights(1) [OF Ok(1) kept.steps_exec(1)] c1 c2 by auto
      next
        case (Err e')
        then show ?thesis
          using on_error_flights(2) [OF Err(1) kept.steps_exec(1)] c1 c2 by simp
      qed simp
    next
      case (Err e')
      then show ?thesis
        using on_error_flights(2) [OF Err(1) kept.steps_ensureBackendConn] c1 by simp
    qed simp
  qed (simp_all add: select_backend_no_error)
  then show "r = Ok x \<Longrightarrow> conn_flights t = conn_flights c"
    and "r = Err e \<Longrightarrow> conn_flights t = without_flight q (conn_flights c)" by blast+
qed

lemma fetch_flights:
  assumes "fetch E lb q m c = (r, t)" and "\<And>p. r \<noteq> Panic p"
    and "\<And>name response c1. fetch_response E q c = (Ok (name, response), c1) \<Longrightarrow> \<not> is_infile_request response"
  shows "conn_flights t = without_flight q (conn_flights c)"
  using assms(1) unfolding fetch_def
proof (cases rule: andthen_cases)
  case (Ok nr c1)
  obtain name response where nr: "nr = (name, response)" by (cases nr)
  have c1: "conn_flights c1 = conn_flights c"
    using fetch_response_flights(1) [OF Ok(1)] by simp
  have "\<not> is_infile_request response"
    using assms(3) Ok(1) nr by simp
  with Ok(2) assms(2) have run: "next_do (if IsCacheable q
                   then cache_SetAndNotify E (pq_Query q) response (ttl_duration (pq_TTL q)) else ret ())
           (forwardBackendResponse E response m) (c1\<lparr>cc_metrics := cc_metrics c1 @ database_calls name lb,
             cc_lastQueryBackend := name, cc_lastQueryCacheHit := False\<rparr>) = (r, t)"
    by (auto simp: nr served_from_def record_calls_def split: if_splits)
  from run show ?thesis
  proof (cases rule: andthen_cases)
    case (Ok u c3)
    have "conn_flights c3 = without_flight q (conn_flights c1)"
      using Ok(1) by (cases "IsCacheable q")
        (auto simp: without_flight_def cache_SetAndNotify_def set_cache_def or_panic_def SetAndNotify_flights
          elim!: andthen_cases split: sum.splits)
    with stepsD [OF kept.steps_forward Ok(2)] c1 show ?thesis
      by (simp add: cache_kept_def)
  next
    case (Err e)
    then show ?thesis
      by (cases "IsCacheable q") (auto simp: cache_SetAndNotify_def set_cache_def or_panic_def elim!: andthen_cases split: sum.splits)
  qed (use assms(2) in blast)
next
  case (Err e)
  then show ?thesis
    using fetch_response_flights(2) [OF Err(1)] by simp
qed (use assms(2) in blast)

section \<open>Properties\<close>


text \<open>C13: The invariant of a connection holds at the end of every session, and so after every command, since a client may
  stop anywhere: the proxy knows the address its backend connection goes to, the transaction flag that the client is
  told is the one that keeps its writes out of batches, and the round-robin index of every pool is in range.\<close>

theorem session_invariant:
  assumes "handleConnection E px client connID = (r, c)" and "ml_StatusInTrans (me_lib E) \<noteq> 0"
    and "ml_StatusInAutocommit (me_lib E) AND ml_StatusInTrans (me_lib E) = 0"
    and "\<forall>a. pool_ok (ph_pool (px_heap px) a)"
  shows "conn_ok E c"
proof -
  have "conn_ok E (New_conn E px client connID)"
    using assms(3,4) by (simp add: conn_ok_def New_conn_def pool_at_def map_ok_def mkeys_def)
  with stepsD [OF session.steps_serve assms(1) [unfolded handleConnection_def]] assms(2) show ?thesis
    by blast
qed

lemma readPacket_error: "readPacket c = (Err e, c') \<Longrightarrow> cc_in c' = []"
  by (auto simp: readPacket_def read_client_def elim!: andthen_cases split: option.splits prod.splits)

lemma readPacket_no_panic: "readPacket c \<noteq> (Panic p, c')"
  by (auto simp: readPacket_def read_client_def elim!: andthen_cases split: option.splits prod.splits)

lemma answer_no_error: "answer E packet c \<noteq> (Err e, t)"
  by (auto simp: answer_def attempt_no_error elim!: andthen_cases split: list.splits sum.splits)

lemma cached_answer_flights:
  assumes "cached_answer E lb key c = (r, t)" and "\<And>ch f. flights_of (fst (me_wait E ch f)) \<subseteq> flights_of ch"
  shows "r = Ok (Some x) \<Longrightarrow> conn_flights t \<subseteq> conn_flights c"
    and "conn_flights t \<subseteq> insert key (conn_flights c)"
proof -
  obtain ch1 v1 f1 ok1 where g1: "Get (me_tq E) (px_cache (cc_proxy c)) key = (ch1, v1, f1, ok1)"
    by (metis prod_cases4)
  obtain ch2 v2 f2 ok2 w2 where g2: "GetOrWait (me_tq E) (me_wait E) ch1 key = (ch2, v2, f2, ok2, w2)"
    by (metis prod_cases5)
  have "flights_of ch2 \<subseteq> (if ok2 then flights_of ch1 else insert key (flights_of ch1))"
    using g2 assms(2) by (rule GetOrWait_flights)
  then show "r = Ok (Some x) \<Longrightarrow> conn_flights t \<subseteq> conn_flights c" and "conn_flights t \<subseteq> insert key (conn_flights c)"
    using assms(1) Get_flights [OF g1]
    by (auto simp: cached_answer_def cache_Get_def cache_GetOrWait_def set_cache_def record_calls_def g1 g2 split: if_splits)
qed

lemma run_query_keeps_cache:
  assumes "\<not> IsCacheable q"
  shows "steps cache_kept (run_query E lb q m)"
proof -
  have "steps cache_kept (fetch E lb q m)"
    unfolding fetch_def fetch_response_def cancel_flight_def using assms
    by (auto intro!: kept.rules kept.switch_steps kept.steps_handleLocalInfile steps_select_backend simp del: go_run)
  moreover have "steps cache_kept (handleBatchedWrite E lb s ms m)" for s ms
    unfolding handleBatchedWrite_def executeImmediateWrite_def
    by (intro kept.rules kept.switch_steps kept.steps_batched)
  ultimately show ?thesis
    unfolding run_query_def using assms by (auto intro!: kept.rules simp del: go_run)
qed

text \<open>C11: A query leaves no flight behind: when it returns, with or without an error, no key is in flight that was not in flight
  before, whatever the cache, the network and the backend did, so that requests for the same key do not
  wait for a fetch that nobody does. The one exception is an answer that asks for a local file, and the other
  requests are assumed not to add flights while this one waits.\<close>

theorem query_leaves_no_flight:
  assumes "run_query E lb q m c = (r, t)" and "\<forall>p. r \<noteq> Panic p"
    and wait: "\<forall>ch f. flights_of (fst (me_wait E ch f)) \<subseteq> flights_of ch"
    and infile: "\<forall>c1 c2 name response. cached_answer E lb (pq_Query q) c = (Ok None, c1) \<longrightarrow>
      fetch_response E q c1 = (Ok (name, response), c2) \<longrightarrow> \<not> is_infile_request response"
  shows "flights_of (px_cache (cc_proxy t)) \<subseteq> flights_of (px_cache (cc_proxy c))"
proof (cases "IsCacheable q")
  case True
  then have nb: "\<not> batches q c" by (auto simp: batches_def IsCacheable_def IsWritable_def)
  have "andthen (cached_answer E lb (pq_Query q)) (\<lambda>answer.
         case answer of
           Some (name, cached) \<Rightarrow> next_do (served_from name True) (forwardBackendResponse E cached m)
         | None \<Rightarrow> fetch E lb q m) c = (r, t)"
    using assms(1) nb True by (simp add: run_query_def)
  then show ?thesis
  proof (cases rule: andthen_cases)
    case (Ok a c1)
    note ca = cached_answer_flights [OF Ok(1)]
    show ?thesis
    proof (cases a)
      case None
      have "conn_flights t = without_flight q (conn_flights c1)"
        using Ok None infile assms(2) by (intro fetch_flights [of E lb q m c1 r t]) auto
      with ca(2) wait True show ?thesis by (auto simp: without_flight_def)
    next
      case (Some nc)
      have "steps cache_kept (next_do (served_from (fst nc) True) (forwardBackendResponse E (snd nc) m))"
        by (intro kept.rules kept.client_steps)
      from stepsD [OF this] Ok(2) Some ca(1) wait show ?thesis
        by (auto simp: cache_kept_def split_def)
    qed
  next
    case (Err e)
    then show ?thesis
      by (auto simp: cached_answer_def cache_Get_def cache_GetOrWait_def set_cache_def record_calls_def elim!: andthen_cases split: prod.splits if_splits)
  qed (use assms(2) in blast)
next
  case False
  then show ?thesis
    using stepsD [OF run_query_keeps_cache [OF False] assms(1)] by (simp add: cache_kept_def)
qed

text \<open>What a fetch leaves in the store.\<close>

lemma cache_SetAndNotify_Ok:
  "cache_SetAndNotify E k v ttl c = (Ok u, t) \<Longrightarrow> SetAndNotify (me_tq E) (px_cache (cc_proxy c)) k v ttl = Inr (px_cache (cc_proxy t))"
  by (cases "SetAndNotify (me_tq E) (px_cache (cc_proxy c)) k v ttl") (auto simp: cache_SetAndNotify_def set_cache_def)

lemma fetch_stores:
  assumes "fetch E lb q m c = (Ok (), t)" and "fetch_response E q c = (Ok (name, response), c1)" and "\<not> is_infile_request response"
    and "IsCacheable q" and "ttl_duration (pq_TTL q) > 0"
  shows "\<exists>s. cache_store (px_cache (cc_proxy t)) = tq_Set (me_tq E) s (pq_Query q) response (ttl_duration (pq_TTL q))"
proof -
  let ?c = "c1\<lparr>cc_metrics := cc_metrics c1 @ database_calls name lb,
      cc_lastQueryBackend := name, cc_lastQueryCacheHit := False\<rparr>"
  have "next_do (cache_SetAndNotify E (pq_Query q) response (ttl_duration (pq_TTL q))) (forwardBackendResponse E response m) ?c = (Ok (), t)"
    using assms by (auto simp: fetch_def served_from_def record_calls_def split: if_splits)
  then obtain c2 where c2: "cache_SetAndNotify E (pq_Query q) response (ttl_duration (pq_TTL q)) ?c = (Ok (), c2)"
      "forwardBackendResponse E response m c2 = (Ok (), t)"
    by (auto elim: andthen_cases)
  have "cache_store (px_cache (cc_proxy c2)) =
      tq_Set (me_tq E) (cache_store (px_cache (cc_proxy c1))) (pq_Query q) response (ttl_duration (pq_TTL q))"
    using cache_SetAndNotify_Ok [OF c2(1)] SetAndNotify_store assms(5) by fastforce
  with stepsD [OF kept.steps_forward c2(2)] show ?thesis
    by (auto simp: cache_kept_def)
qed


text \<open>C29: The loop of a connection ends for every stream of a client, and only when the stream is over, or with a panic: no
  error of a command ends a session, and all of the client's bytes are read.\<close>

theorem session_ends:
  "\<exists>t. run E c = (Ok (), t) \<and> cc_in t = [] \<or> (\<exists>p. run E c = (Panic p, t))"
proof (induction E c rule: run.induct)
  case (1 E c)
  obtain r c1 where rd: "readPacket c = (r, c1)" by (cases "readPacket c")
  show ?case
  proof (cases r)
    case (Ok packet)
    obtain r2 c2 where a: "answer E packet c1 = (r2, c2)" by (cases "answer E packet c1")
    have run: "run E c = andthen (answer E packet) (\<lambda>_. run E) c1"
      using rd Ok by (simp add: run.simps [of E c])
    show ?thesis
    proof (cases r2)
      case (Ok u)
      then show ?thesis
        using 1 [OF rd [symmetric] \<open>r = _\<close>] a by (simp add: run)
    next
      case (Panic p)
      then show ?thesis using a by (simp add: run)
    qed (use a answer_no_error in blast)
  next
    case (Err e)
    then show ?thesis
      using rd readPacket_error [of c e c1] by (simp add: run.simps [of E c])
  qed (use rd readPacket_no_panic in blast)
qed

section \<open>Examples\<close>

text \<open>A driver that always connects to a backend that answers OK, and a pool with one replica.\<close>

declare frame_header [code]

definition ok_reply :: bytes where
  "ok_reply = frame 1 [0, 0, 0, 2, 0, 0, 0]"

definition demo_env :: "(string \<times> bytes) list menv" where
  "demo_env = \<lparr>me_lib = protocol_lib, me_tq = demo_store, me_wait = (\<lambda>ch f. (ch, SafetyTimeout)),
     me_connect = (\<lambda>n cfg. Connected (Some (ok_reply @ ok_reply @ ok_reply))),
     me_Enqueue = (\<lambda>n key query params ms. ok_result 1 0 1), me_write_error = (\<lambda>n. None), me_read_error = (\<lambda>n. EOF),
     me_sha1_hex = string_of, me_WriteHandshakeV10 = (\<lambda>connID salt caps status. []),
     me_ParseHandshakeResponse = (\<lambda>packet. Inl ''no handshake''), me_stripped_capabilities = 0, me_prom = documented\<rparr>"

definition demo_proxy :: "(string \<times> bytes) list Proxy" where
  "demo_proxy = New_proxy
     \<lparr>pc_Listen = [], pc_Socket = [], pc_Default = ''main'', pc_Backends = [(''main'', \<lparr>be_Primary = ''p:1'', be_Replicas = [''r:1'']\<rparr>)],
      pc_DBMap = [], pc_WriteBatch = \<lparr>wbc_MaxBatchSize = 1000, wbc_UseCopy = False\<rparr>\<rparr>
     [(''main'', 0)] \<lparr>ph_pool = (\<lambda>_. NewPool ''p:1'' [''r:1'']), ph_next = 1\<rparr> (New_cache [])"

text \<open>A connection after its handshake, on the primary.\<close>

definition demo_conn :: "(string \<times> bytes) list clientConn" where
  "demo_conn = (New_conn demo_env demo_proxy [] 1001)\<lparr>cc_user := ''app'', cc_backend := Some \<lparr>bk_addr = ''p:1'', bk_in = ok_reply\<rparr>,
     cc_backendAddr := ''p:1'', cc_backendName := ''primary''\<rparr>"

fun commands :: "'s menv \<Rightarrow> (byte \<times> bytes) list \<Rightarrow> ('s, unit) mgo" where
  "commands E [] = ret ()"
| "commands E ((cmd, data) # rest) = next_do (dispatch E cmd data) (commands E rest)"

lemma demo_conn_ok: "conn_ok demo_env demo_conn"
proof -
  have "pool_ok (pool_at a demo_conn)" for a
    by (simp add: pool_at_def demo_conn_def New_conn_def demo_proxy_def New_proxy_def NewPool_ok)
  then show ?thesis
    by (simp add: conn_ok_def demo_conn_def New_conn_def demo_env_def protocol_lib_def map_ok_def mkeys_def)
qed

lemma demo_trans: "ml_StatusInTrans (me_lib demo_env) \<noteq> 0"
  by (simp add: demo_env_def protocol_lib_def)


theorem session_invariant_witness:
  "conn_ok demo_env (snd (handleConnection demo_env demo_proxy (frame 0 [0x0e]) 1001))"
proof (rule session_invariant)
  show "handleConnection demo_env demo_proxy (frame 0 [0x0e]) 1001 =
      (fst (handleConnection demo_env demo_proxy (frame 0 [0x0e]) 1001), snd (handleConnection demo_env demo_proxy (frame 0 [0x0e]) 1001))"
    by simp
qed (simp_all add: demo_env_def protocol_lib_def demo_proxy_def New_proxy_def NewPool_ok)

definition demo_labels :: qlabels where
  "demo_labels = (''unknown'', ''0'', ''select'')"

theorem query_leaves_no_flight_witness:
  "flights_of (px_cache (cc_proxy (snd (run_query demo_env demo_labels (Parse ''/* ttl:60 */ SELECT 1'') False demo_conn)))) \<subseteq> {}"
proof -
  let ?q = "Parse ''/* ttl:60 */ SELECT 1''"
  have r: "run_query demo_env demo_labels ?q False demo_conn = (Ok (), snd (run_query demo_env demo_labels ?q False demo_conn))"
    by (rule prod_eqI) (code_simp, simp)
  have i: "\<not> is_infile_request response"
    if "cached_answer demo_env demo_labels (pq_Query ?q) demo_conn = (Ok None, c1)" "fetch_response demo_env ?q c1 = (Ok (name, response), c2)"
    for c1 c2 name response
  proof -
    have "case fetch_response demo_env ?q (snd (cached_answer demo_env demo_labels (pq_Query ?q) demo_conn)) of
        (Ok (name, response), c2) \<Rightarrow> \<not> is_infile_request response | _ \<Rightarrow> True"
      by code_simp
    then show ?thesis using that by simp
  qed
  have "flights_of (px_cache (cc_proxy demo_conn)) = {}"
    by (simp add: flights_of_def demo_conn_def New_conn_def demo_proxy_def New_proxy_def New_cache_def mkeys_def)
  then show ?thesis
    using query_leaves_no_flight [OF r] i by (simp add: demo_env_def)
qed


section \<open>Sessions that go wrong\<close>

text \<open>A transaction that begins while the connection is on a replica: BEGIN goes to the replica, the write goes to the
  primary, outside of any transaction, and COMMIT goes there too.\<close>

lemma begin_on_replica:
  "map fst (cc_sent (snd (commands demo_env
     [(3, bytes_of ''/* ttl:60 */ SELECT 1''), (3, bytes_of ''BEGIN''), (3, bytes_of ''DELETE FROM t''), (3, bytes_of ''COMMIT'')] demo_conn)))
   = [''r:1'', ''r:1'', ''p:1'', ''p:1'']"
  by code_simp

text \<open>A statement that is prepared on the primary and executed after a read went to a replica: the execution is sent to the
  replica, which never saw the statement.\<close>

lemma prepared_on_other_backend:
  "map fst (cc_sent (snd (commands demo_env
     [(0x16, bytes_of ''DELETE FROM t''), (3, bytes_of ''/* ttl:60 */ SELECT 1''), (0x17, [0, 0, 0, 0, 0, 1, 0, 0, 0])]
     (demo_conn\<lparr>cc_backend := Some \<lparr>bk_addr = ''p:1'', bk_in = frame 1 (replicate 12 0)\<rparr>\<rparr>))))
   = [''p:1'', ''r:1'', ''r:1'']"
  by code_simp

text \<open>A connection that lost its backend: the next BEGIN calls a method of the nil connection.\<close>

lemma begin_after_loss_panics:
  "fst (handleQuery demo_env ''BEGIN'' (demo_conn\<lparr>cc_backend := None, cc_backendAddr := [], cc_backendName := []\<rparr>)) = Panic NilDereference \<and>
   (case handleQuery demo_env ''DELETE FROM t'' (demo_conn\<lparr>cc_backend := Some \<lparr>bk_addr = ''p:1'', bk_in = []\<rparr>\<rparr>) of
      (r, c) \<Rightarrow> r = Err EOF \<and> cc_backend c = None)"
  by (intro conjI; code_simp)

text \<open>COM_QUIT is answered with an error packet and the session goes on: a ping behind it is answered.\<close>

lemma quit_does_not_end:
  "length (cc_out (snd (run demo_env (demo_conn\<lparr>cc_in := frame 0 [0x01] @ frame 0 [0x0e]\<rparr>)))) = 2"
  by code_simp

text \<open>The answer to COM_STMT_RESET is forwarded without its header: the client gets seven bytes that are no packet.\<close>

lemma stmt_reset_reply_broken:
  "cc_out (snd (dispatch demo_env 0x1a [1, 0, 0, 0] demo_conn)) = [[0, 0, 0, 1, 0, 0, 0]]"
  by code_simp

text \<open>A hint is lost when the statement ends with a semicolon: the statement without it is parsed again, and the hint is gone.\<close>

lemma hint_lost_with_semicolon:
  "cache_store (px_cache (cc_proxy (snd (handleQuery demo_env ''/* ttl:60 */ SELECT 1'' demo_conn)))) \<noteq> [] \<and>
   cache_store (px_cache (cc_proxy (snd (handleQuery demo_env ''/* ttl:60 */ SELECT 1;'' demo_conn)))) = []"
  by (intro conjI; code_simp)

text \<open>An error packet is cached like a result.\<close>

lemma error_response_cached:
  "map_of (cache_store (px_cache (cc_proxy (snd (handleQuery
       (demo_env\<lparr>me_connect := \<lambda>n cfg. Connected (Some (frame 1 [0xFF, 0x51, 0x04]))\<rparr>) ''/* ttl:60 */ SELECT 1'' demo_conn))))) ''SELECT 1''
   = Some (frame 1 [0xFF, 0x51, 0x04])"
  by code_simp

text \<open>After a reload that removes the default backend, the next connection panics.\<close>

lemma missing_default_panics:
  "mget (px_pools px) (pc_Default (px_config px)) = None \<Longrightarrow> fst (handleConnection E px client connID) = Panic NilDereference"
  by (simp add: handleConnection_def serve_def New_conn_def primary_of_pool_def own_pool_def)

end
