(* ===== verification/Maria_Routing.thy ===== *)
theory Maria_Routing
  imports Maria_Session
begin

text \<open>
  Where the packets of a whole session of the MariaDB proxy go, \<^verbatim>\<open>handleConnection\<close> to its end: whatever the client sends,
  the proxy dials and writes only to addresses of the pools that it has.
\<close>

section \<open>The addresses of a proxy\<close>

definition pool_addr :: "Pool \<Rightarrow> string \<Rightarrow> bool" where
  "pool_addr p addr \<longleftrightarrow> addr = GetPrimary p \<or> addr \<in> set (pool_replicas p)"

definition proxy_addr :: "'s Proxy \<Rightarrow> string \<Rightarrow> bool" where
  "proxy_addr px addr \<longleftrightarrow> (\<exists>name a. mget (px_pools px) name = Some a \<and> pool_addr (ph_pool (px_heap px) a) addr)"

definition proxy_pool :: "'s Proxy \<Rightarrow> nat \<Rightarrow> bool" where
  "proxy_pool px a \<longleftrightarrow> (\<exists>name. mget (px_pools px) name = Some a)"

text \<open>The proxy of a connection keeps its pools and their addresses; only the position of a pool and the cache change.\<close>

definition same_pools :: "'s clientConn \<Rightarrow> 's clientConn \<Rightarrow> bool" where
  "same_pools c c' \<longleftrightarrow> px_pools (cc_proxy c') = px_pools (cc_proxy c) \<and>
     (\<forall>a. (pool_ok (pool_at a c) \<longrightarrow> pool_ok (pool_at a c')) \<and>
          GetPrimary (pool_at a c') = GetPrimary (pool_at a c) \<and> pool_replicas (pool_at a c') = pool_replicas (pool_at a c))"

definition placed :: "'s clientConn \<Rightarrow> bool" where
  "placed c \<longleftrightarrow> (\<forall>a. pool_ok (pool_at a c)) \<and>
     (\<forall>a. cc_backendPool c = Some a \<longrightarrow> proxy_pool (cc_proxy c) a) \<and>
     (\<forall>bk. cc_backend c = Some bk \<longrightarrow> proxy_addr (cc_proxy c) (bk_addr bk)) \<and>
     (\<forall>addr packet. (addr, packet) \<in> set (cc_sent c) \<longrightarrow> proxy_addr (cc_proxy c) addr)"

definition placing :: "'s clientConn \<Rightarrow> 's clientConn \<Rightarrow> bool" where
  "placing c c' \<longleftrightarrow> (\<forall>a. pool_ok (pool_at a c)) \<longrightarrow> same_pools c c' \<and> (placed c \<longrightarrow> placed c')"

lemma same_pools_addr:
  "same_pools c c' \<Longrightarrow> proxy_addr (cc_proxy c') = proxy_addr (cc_proxy c)"
  "same_pools c c' \<Longrightarrow> proxy_pool (cc_proxy c') = proxy_pool (cc_proxy c)"
  by (simp_all add: fun_eq_iff proxy_addr_def proxy_pool_def pool_addr_def same_pools_def pool_at_def)

lemma same_pools_refl [simp]: "same_pools c c"
  by (simp add: same_pools_def)

lemma same_pools_trans: "same_pools c c' \<Longrightarrow> same_pools c' c'' \<Longrightarrow> same_pools c c''"
  by (simp add: same_pools_def)

lemma same_pools_frame:
  "px_pools (cc_proxy c') = px_pools (cc_proxy c) \<Longrightarrow> px_heap (cc_proxy c') = px_heap (cc_proxy c) \<Longrightarrow> same_pools c c'"
  by (simp add: same_pools_def pool_at_def)

lemma pool_addr_primary: "proxy_pool (cc_proxy c) a \<Longrightarrow> proxy_addr (cc_proxy c) (GetPrimary (pool_at a c))"
  by (auto simp: proxy_addr_def proxy_pool_def pool_addr_def pool_at_def)

lemma pool_addr_healthy:
  assumes "proxy_pool (cc_proxy c) a" and "pool_ok (pool_at a c)" and "IsHealthy (pool_at a c) addr"
  shows "proxy_addr (cc_proxy c) addr"
proof -
  have "addr \<in> set (pool_replicas (pool_at a c))"
    using assms(2,3) by (auto simp: pool_ok_def IsHealthy_def dom_def split: option.splits)
  with assms(1) show ?thesis
    by (auto simp: proxy_addr_def proxy_pool_def pool_addr_def pool_at_def)
qed

lemma placedD:
  assumes "placed c"
  shows "pool_ok (pool_at a c)" and "cc_backendPool c = Some a \<Longrightarrow> proxy_pool (cc_proxy c) a"
    and "cc_backend c = Some bk \<Longrightarrow> proxy_addr (cc_proxy c) (bk_addr bk)"
    and "(addr, packet) \<in> set (cc_sent c) \<Longrightarrow> proxy_addr (cc_proxy c) addr"
  using assms by (auto simp: placed_def)

lemma placingI:
  assumes pools: "px_pools (cc_proxy c') = px_pools (cc_proxy c)" and heap: "px_heap (cc_proxy c') = px_heap (cc_proxy c)"
    and "\<And>a. placed c \<Longrightarrow> cc_backendPool c' = Some a \<Longrightarrow> proxy_pool (cc_proxy c) a"
    and "\<And>bk. placed c \<Longrightarrow> cc_backend c' = Some bk \<Longrightarrow> proxy_addr (cc_proxy c) (bk_addr bk)"
    and "\<And>addr packet. placed c \<Longrightarrow> (addr, packet) \<in> set (cc_sent c') \<Longrightarrow> proxy_addr (cc_proxy c) addr"
  shows "placing c c'"
proof -
  have s: "same_pools c c'"
    using pools heap by (rule same_pools_frame)
  have at: "pool_at a c' = pool_at a c" for a
    by (simp add: pool_at_def heap)
  have "placed c'" if p: "placed c"
    unfolding placed_def same_pools_addr [OF s] at using assms(3-5) [OF p] placedD(1) [OF p] by blast
  with s show ?thesis
    by (simp add: placing_def)
qed

lemma placing_trans: "placing c c' \<Longrightarrow> placing c' c'' \<Longrightarrow> placing c c''"
  unfolding placing_def by (metis same_pools_def same_pools_trans)

interpretation placing: stateful_relation placing E for E
proof (unfold_locales, goal_cases)
  case (1 c)
  show ?case by (simp add: placing_def)
next
  case (2 s t u)
  then show ?case by (rule placing_trans)
next
  case (3 c c')
  then show ?case by (intro placingI) (simp_all add: quiet_def placedD)
next
  case (6 c bk seq rest)
  then show ?case by (intro placingI) (auto dest: placedD)
next
  case (7 c bk bs)
  then show ?case by (intro placingI) (auto dest: placedD)
qed (rule placingI; auto dest: placedD)+

text \<open>The choice of a connection, for an address and a pool of the proxy.\<close>

lemma ensureBackendConn_placing:
  assumes run: "ensureBackendConn E addr name pool c = (r, t)"
    and "placed c \<Longrightarrow> proxy_addr (cc_proxy c) addr" and "\<And>a. placed c \<Longrightarrow> pool = Some a \<Longrightarrow> proxy_pool (cc_proxy c) a"
  shows "placing c t"
proof (cases "addr = cc_backendAddr c \<and> cc_backend c \<noteq> None")
  case True
  with run show ?thesis by (simp add: ensureBackendConn_def placing_def)
next
  case False
  obtain r1 c1 where d: "dialAndAuth E addr c = (r1, c1)" by (cases "dialAndAuth E addr c")
  have c1: "placing c c1" using stepsD [OF placing.steps_dialAndAuth d] .
  show ?thesis
  proof (cases r1)
    case (Ok bk)
    have t: "t = c1\<lparr>cc_backend := Some bk, cc_backendPool := pool, cc_backendAddr := addr, cc_backendName := name\<rparr>"
      using run False d Ok by (auto simp: ensureBackendConn_def split: if_splits)
    have ok: "proxy_addr (cc_proxy c1) addr" "\<And>a. pool = Some a \<Longrightarrow> proxy_pool (cc_proxy c1) a" if p: "placed c"
      using assms(2,3) [OF p] c1 p same_pools_addr [of c c1] by (auto simp: placing_def placed_def)
    have "same_pools c1 t"
      by (rule same_pools_frame) (simp_all add: t)
    moreover have "placed t" if p: "placed c"
      using ok [OF p] dial_addr [of E addr c bk c1] d Ok p c1 same_pools_addr [OF \<open>same_pools c1 t\<close>]
      unfolding placed_def by (auto simp: t placing_def placed_def pool_at_def)
    ultimately show ?thesis
      using c1 same_pools_trans unfolding placing_def by blast
  qed (use run False d c1 in \<open>auto simp: ensureBackendConn_def split: if_splits\<close>)
qed


lemma ensureBackend_placing: "steps placing (ensureBackend E db)"
proof (rule stepsI)
  fix c :: "'a clientConn"
  let ?c = "\<lambda>name. c\<lparr>cc_lastQueryShard := name\<rparr>"
  obtain name where name: "name = shard_name (px_config (cc_proxy c)) db" by simp
  show "placing c (snd (ensureBackend E db c))"
  proof (cases "mget (px_pools (cc_proxy c)) name")
    case (Some a)
    have shard: "placing c (?c name)"
      by (intro placingI) (simp_all add: placedD)
    obtain r t where run: "ensureBackendConn E (GetPrimary (pool_at a c)) ''primary'' (Some a) (?c name) = (r, t)"
      by (cases "ensureBackendConn E (GetPrimary (pool_at a c)) ''primary'' (Some a) (?c name)")
    have "proxy_pool (cc_proxy (?c name)) a" "pool_at a (?c name) = pool_at a c"
      using Some by (auto simp: proxy_pool_def pool_at_def)
    with pool_addr_primary [of "?c name" a] have "placing (?c name) t"
      by (intro ensureBackendConn_placing [OF run]) simp_all
    with shard run placing_trans Some name show ?thesis
      by (auto simp: ensureBackend_def pool_at_def)
  qed (simp add: ensureBackend_def name placing.R_refl)
qed

lemma GetReplica_replicas:
  assumes "pool_ok p" and "GetReplica p = Inr (p', res)" shows "pool_replicas p' = pool_replicas p"
  using assms GetReplica_spec [OF assms(1)] by (auto split: option.splits)

lemma replica_placing:
  assumes "GetReplica (pool_at a c) = Inr (p', addr, name)"
  shows "placing c (c\<lparr>cc_proxy := (cc_proxy c)\<lparr>px_heap := update_pool (px_heap (cc_proxy c)) a p'\<rparr>\<rparr>)" (is "placing c ?t")
proof (unfold placing_def, intro impI)
  assume ok: "\<forall>b. pool_ok (pool_at b c)"
  then have p: "pool_ok (pool_at a c)" by blast
  have at: "pool_at b ?t = (if b = a then p' else pool_at b c)" for b
    by (rule pool_at_update)
  have s: "same_pools c ?t"
    using pool.pick_inv [OF p assms] pool.pick_frame [OF p assms] GetReplica_replicas [OF p assms]
    by (simp add: same_pools_def at)
  have "placed ?t" if "placed c"
    using that pool.pick_inv [OF p assms] unfolding placed_def same_pools_addr [OF s] at by simp
  with s show "same_pools c ?t \<and> (placed c \<longrightarrow> placed ?t)" by blast
qed

lemma select_backend_placing:
  assumes run: "select_backend E q c = (r, t)"
  shows "placing c t"
    and "r = Ok (addr, name) \<Longrightarrow> \<forall>b. pool_ok (pool_at b c) \<Longrightarrow> placed t \<Longrightarrow> proxy_addr (cc_proxy t) addr"
proof -
  have "placing c t \<and> (r = Ok (addr, name) \<longrightarrow> (\<forall>b. pool_ok (pool_at b c)) \<longrightarrow> placed t \<longrightarrow> proxy_addr (cc_proxy t) addr)"
  proof (cases "cc_backendPool c")
    case None
    then show ?thesis
      using run by (auto simp: select_backend_def primary_of_pool_def own_pool_def placing.R_refl)
  next
    case (Some a)
    show ?thesis
    proof (cases "IsCacheable q \<and> cc_status c AND ml_StatusInTrans (me_lib E) = 0")
      case False
      then show ?thesis
        using run Some pool_addr_primary [of c a] placedD(2) [of c a]
        by (auto simp: select_backend_def primary_of_pool_def own_pool_def placing.R_refl)
    next
      case True
      show ?thesis
      proof (cases "GetReplica (pool_at a c)")
        case (Inl err)
        then show ?thesis
          using True run Some by (auto simp: select_backend_def primary_of_pool_def replica_of_pool_def own_pool_def placing.R_refl)
      next
        case (Inr x)
        obtain p' ad nm where g: "GetReplica (pool_at a c) = Inr (p', ad, nm)"
          using Inr by (cases x) auto
        then have r: "r = Ok (ad, nm)" and t: "t = c\<lparr>cc_proxy := (cc_proxy c)\<lparr>px_heap := update_pool (px_heap (cc_proxy c)) a p'\<rparr>\<rparr>"
          using True run Some by (auto simp: select_backend_def primary_of_pool_def replica_of_pool_def own_pool_def)
        have "proxy_addr (cc_proxy t) ad" if ok: "pool_ok (pool_at a c)" and p: "placed t"
        proof -
          have at: "pool_at a t = p'"
            unfolding t pool_at_update by simp
          have own: "proxy_pool (cc_proxy t) a"
            using placedD(2) [OF p] Some by (simp add: t)
          show ?thesis
            using pool.pick_up [OF ok g] pool.pick_frame [OF ok g] pool_addr_primary [OF own] pool_addr_healthy [OF own placedD(1) [OF p]]
            by (cases "nm = ''primary''") (auto simp: at)
        qed
        then show ?thesis
          using r replica_placing [OF g] t by auto
      qed
    qed
  qed
  then show "placing c t"
    and "r = Ok (addr, name) \<Longrightarrow> \<forall>b. pool_ok (pool_at b c) \<Longrightarrow> placed t \<Longrightarrow> proxy_addr (cc_proxy t) addr"
    by blast+
qed

text \<open>A function whose first part is allowed from the present state, and the rest from every state.\<close>

lemma andthen_placing:
  assumes "andthen m f c = (r, t)" and "\<And>r c1. m c = (r, c1) \<Longrightarrow> placing c c1" and "\<And>x. steps placing (f x)"
  shows "placing c t"
  using assms(1)
proof (cases rule: andthen_cases)
  case (Ok x c1)
  from assms(2) [OF Ok(1)] stepsD [OF assms(3) Ok(2)] show ?thesis by (rule placing_trans)
qed (auto dest: assms(2))

lemma executeImmediateWrite_placing: "steps placing (executeImmediateWrite E lb query m)"
proof (rule stepsI)
  fix c :: "'a clientConn"
  obtain r t where run: "executeImmediateWrite E lb query m c = (r, t)"
    by (cases "executeImmediateWrite E lb query m c")
  have "placing c t"
  proof (cases "cc_backendPool c")
    case None
    then show ?thesis
      using run by (auto simp: executeImmediateWrite_def primary_of_pool_def own_pool_def placing.R_refl)
  next
    case (Some a)
    let ?rest = "andthen (execBackendQuery E query) (\<lambda>response.
             next_do (record_calls E (database_calls ''primary'' lb))
               (next_do (served_from ''primary'' False) (forwardBackendResponse E response m)))"
    have "next_do (ensureBackendConn E (GetPrimary (pool_at a c)) ''primary'' (Some a)) ?rest c = (r, t)"
      using run Some by (simp add: executeImmediateWrite_def primary_of_pool_def own_pool_def)
    then show ?thesis
    proof (rule andthen_placing)
      show "steps placing ?rest"
        by (intro placing.rules placing.wire_steps)
      show "placing c c1" if "ensureBackendConn E (GetPrimary (pool_at a c)) ''primary'' (Some a) c = (r1, c1)" for r1 c1
        using ensureBackendConn_placing [OF that] pool_addr_primary placedD(2) [OF _ Some] by blast
    qed
  qed
  then show "placing c (snd (executeImmediateWrite E lb query m c))"
    using run by simp
qed

lemma fetch_placing: "steps placing (fetch E lb q m)"
proof (rule stepsI)
  fix c :: "'a clientConn"
  obtain r t where run: "fetch E lb q m c = (r, t)" by (cases "fetch E lb q m c")
  then have "placing c t"
    unfolding fetch_def fetch_response_def andthen_assoc
  proof (cases rule: andthen_cases)
    case (Ok an c1)
    obtain addr name where an: "an = (addr, name)" by (cases an)
    let ?rest = "andthen (on_error (execBackendQuery E (pq_Query q)) (cancel_flight q)) (\<lambda>response.
             if is_infile_request response then handleLocalInfile E response m
             else next_do (record_calls E (database_calls name lb))
               (next_do (served_from name False)
                 (next_do (if IsCacheable q
                           then cache_SetAndNotify E (pq_Query q) response (ttl_duration (pq_TTL q)) else ret ())
                   (forwardBackendResponse E response m))))"
    have rest: "steps placing ?rest"
      by (intro placing.rules placing.wire_steps placing.steps_cache placing.steps_handleLocalInfile placing.steps_cancel_flight)
    have run: "next_do (on_error (ensureBackendConn E addr name (cc_backendPool c1)) (cancel_flight q)) ?rest c1 = (r, t)"
      using Ok(2) by (simp add: an andthen_assoc)
    show ?thesis
    proof (cases "\<forall>b. pool_ok (pool_at b c)")
      case True
      have conn: "placing c1 c2" if e: "ensureBackendConn E addr name (cc_backendPool c1) c1 = (r1, c2)" for r1 c2
        using ensureBackendConn_placing [OF e] select_backend_placing(2) [OF Ok(1)] an True placedD(2) by blast
      have pre: "placing c1 c2" if "on_error (ensureBackendConn E addr name (cc_backendPool c1)) (cancel_flight q) c1 = (r1, c2)" for r1 c2
        using that
      proof (cases rule: on_error_cases)
        case (Err e c3)
        have "steps placing (next_do (cancel_flight q) (raise e :: ('a, unit) mgo))"
          by (intro placing.rules placing.steps_cancel_flight)
        from conn [OF Err(1)] stepsD [OF this Err(2)] show ?thesis by (rule placing_trans)
      qed (auto dest: conn)
      have "placing c1 t"
        by (rule andthen_placing [OF run]) (blast intro: pre, rule rest)
      with select_backend_placing(1) [OF Ok(1)] show ?thesis
        by (rule placing_trans)
    qed (auto simp: placing_def)
  qed (auto dest: select_backend_placing(1))
  then show "placing c (snd (fetch E lb q m c))"
    using run by simp
qed


interpretation placing: command_relation placing E for E
  by unfold_locales (intro ensureBackend_placing executeImmediateWrite_placing fetch_placing)+


section \<open>The session\<close>

lemma connection_placed:
  assumes run: "handleConnection E px client connID = (r, t)" and ok: "\<forall>a. pool_ok (ph_pool (px_heap px) a)"
  shows "placed t \<and> same_pools (New_conn E px client connID) t"
proof -
  let ?c = "New_conn E px client connID"
  have c: "placed ?c" "\<forall>a. pool_ok (pool_at a ?c)"
    using ok by (auto simp: placed_def New_conn_def pool_at_def proxy_pool_def)
  have rest: "steps placing (next_do (select_initial_db E) (run E))"
    unfolding select_initial_db_def by (intro placing.rules placing.wire_steps placing.steps_run)
  have "placing ?c t"
  proof (cases "mget (px_pools px) (pc_Default (px_config px))")
    case None
    then show ?thesis
      using run by (auto simp: handleConnection_def serve_def primary_of_pool_def own_pool_def New_conn_def placing.R_refl)
  next
    case (Some a)
    let ?addr = "GetPrimary (pool_at a ?c)"
    have addr: "proxy_addr (cc_proxy ?c) ?addr"
      by (rule pool_addr_primary) (use Some in \<open>auto simp: proxy_pool_def New_conn_def\<close>)
    have pool: "cc_backendPool ?c = Some a"
      using Some by (simp add: New_conn_def)
    obtain r1 c1 where d: "dialAndAuth E ?addr ?c = (r1, c1)" by (cases "dialAndAuth E ?addr ?c")
    have c1: "placing ?c c1"
      using stepsD [OF placing.steps_dialAndAuth d] .
    show ?thesis
    proof (cases r1)
      case (Ok bk)
      let ?c2 = "c1\<lparr>cc_backend := Some bk, cc_backendAddr := ?addr, cc_backendName := ''primary''\<rparr>"
      have "proxy_addr (cc_proxy c1) (bk_addr bk)"
        using dial_addr [of E ?addr ?c bk c1] d Ok addr c1 c same_pools_addr(1) [of ?c c1] by (simp add: placing_def)
      then have "placing c1 ?c2"
        by (intro placingI) (auto dest: placedD)
      moreover have "placing ?c2 t"
        using stepsD [OF rest, of ?c2 r t] run pool d Ok by (simp add: handleConnection_def serve_def primary_of_pool_def own_pool_def)
      ultimately show ?thesis
        using c1 placing_trans by blast
    qed (use run pool d c1 in \<open>auto simp: handleConnection_def serve_def primary_of_pool_def own_pool_def\<close>)
  qed
  with c show ?thesis
    by (simp add: placing_def)
qed

text \<open>The addresses at the end are those that the proxy had when the connection came.\<close>

lemma sent_to_pools:
  assumes run: "handleConnection E px client connID = (r, t)" and ok: "\<forall>a. pool_ok (ph_pool (px_heap px) a)"
    and "(addr, packet) \<in> set (cc_sent t)"
  shows "\<exists>name a. mget (px_pools px) name = Some a \<and>
    (addr = GetPrimary (ph_pool (px_heap px) a) \<or> addr \<in> set (pool_replicas (ph_pool (px_heap px) a)))"
proof -
  have "proxy_addr (cc_proxy (New_conn E px client connID)) addr"
    using connection_placed [OF run ok] placedD(4) assms(3) same_pools_addr(1) by metis
  then show ?thesis
    by (simp add: proxy_addr_def pool_addr_def New_conn_def)
qed


section \<open>The database of the handshake\<close>

text \<open>A proxy with a shard for one database, and a driver that asks the client for its credentials.\<close>

definition shard_proxy :: "(string \<times> bytes) list Proxy" where
  "shard_proxy = New_proxy
     \<lparr>pc_Listen = [], pc_Socket = [], pc_Default = ''main'', pc_Backends = [(''main'', \<lparr>be_Primary = ''p:1'', be_Replicas = []\<rparr>),
        (''shard1'', \<lparr>be_Primary = ''s:1'', be_Replicas = []\<rparr>)],
      pc_DBMap = [(''logs'', ''shard1'')], pc_WriteBatch = \<lparr>wbc_MaxBatchSize = 1000, wbc_UseCopy = False\<rparr>\<rparr>
     [(''main'', 0), (''shard1'', 1)] \<lparr>ph_pool = (\<lambda>a. NewPool (if a = 0 then ''p:1'' else ''s:1'') []), ph_next = 2\<rparr> (New_cache [])"

definition login_env :: "string \<Rightarrow> (string \<times> bytes) list menv" where
  "login_env db = demo_env\<lparr>me_connect := (\<lambda>n cfg. CallHandleAuth [] [] 0 (\<lambda>r. Connected (Some (ok_reply @ ok_reply @ ok_reply)))),
     me_ParseHandshakeResponse := (\<lambda>packet. Inr (0, ''app'', [], db))\<rparr>"

definition login_client :: bytes where
  "login_client = frame 1 [1]"

text \<open>A session after its handshake with the default backend.\<close>

definition logged_in :: "string \<Rightarrow> (string \<times> bytes) list clientConn" where
  "logged_in db = (case dialAndAuth (login_env db) ''p:1'' (New_conn (login_env db) shard_proxy login_client 1) of
     (Ok bk, c) \<Rightarrow> c\<lparr>cc_backend := Some bk, cc_backendAddr := ''p:1'', cc_backendName := ''primary''\<rparr>)"

text \<open>The documentation routes a connection by its database in both protocols, but the database of the handshake is only selected
  on the default backend: the queries of a session that names it in its handshake, also with the qualified name of a
  table, stay there, while a session that selects it with a statement is on its shard.\<close>

lemma handshake_database_on_default:
  "shard_name (px_config shard_proxy) ''logs'' = ''shard1''"
  "map fst (cc_sent (snd (next_do (select_initial_db (login_env ''logs''))
      (run_query (login_env ''logs'') demo_labels (Parse ''SELECT * FROM logs.t'') False) (logged_in ''logs'')))) = [''p:1'', ''p:1'']"
  "map fst (cc_sent (snd (use_database (login_env []) ''logs'' (logged_in [])))) = [''s:1'']"
  by code_simp+

end
