(* ===== verification/Pg_Wire.thy ===== *)
theory Pg_Wire
  imports Byte_Codec WB_SQL Go_Monad Configuration
begin

text \<open>
  The wire format of the PostgreSQL proxy, \<^verbatim>\<open>postgres/postgres.go\<close>: messages with a type and a length, the startup
  message, the rows that the proxy writes, and the messages of the extended query protocol that it reads. The
  lemmas show that what one side encodes the other side reads back, where this holds.
\<close>

section \<open>Messages\<close>

definition encodeMessage :: "byte \<Rightarrow> bytes \<Rightarrow> bytes" where
  "encodeMessage msgType payload = msgType # be_bytes 4 ((length payload + 4) mod 2 ^ 32) @ payload"

text \<open>The number of bytes of a payload: a 32-bit subtraction, which wraps around for a length below 4.\<close>

definition payload_length :: "bytes \<Rightarrow> nat" where
  "payload_length lengthBuf = unat (of_nat (be_nat lengthBuf) - 4 :: 32 word)"

text \<open>The types of the messages, as the constants of the source.\<close>

definition msgQuery :: byte where "msgQuery = 0x51"
definition msgParse :: byte where "msgParse = 0x50"
definition msgBind :: byte where "msgBind = 0x42"
definition msgExecute :: byte where "msgExecute = 0x45"
definition msgDescribe :: byte where "msgDescribe = 0x44"
definition msgClose :: byte where "msgClose = 0x43"
definition msgSync :: byte where "msgSync = 0x53"
definition msgTerminate :: byte where "msgTerminate = 0x58"
definition msgPassword :: byte where "msgPassword = 0x70"
definition msgReadyForQuery :: byte where "msgReadyForQuery = 0x5A"
definition msgCommandComplete :: byte where "msgCommandComplete = 0x43"
definition msgRowDescription :: byte where "msgRowDescription = 0x54"
definition msgDataRow :: byte where "msgDataRow = 0x44"
definition msgErrorResponse :: byte where "msgErrorResponse = 0x45"
definition msgAuthentication :: byte where "msgAuthentication = 0x52"
definition msgParameterStatus :: byte where "msgParameterStatus = 0x53"
definition msgBackendKeyData :: byte where "msgBackendKeyData = 0x4B"
definition msgParseComplete :: byte where "msgParseComplete = 0x31"
definition msgBindComplete :: byte where "msgBindComplete = 0x32"
definition msgCloseComplete :: byte where "msgCloseComplete = 0x33"
definition msgNoData :: byte where "msgNoData = 0x6E"
definition msgParameterDescription :: byte where "msgParameterDescription = 0x74"

lemmas msg_defs = msgQuery_def msgParse_def msgBind_def msgExecute_def msgDescribe_def msgClose_def msgSync_def
  msgTerminate_def msgPassword_def msgReadyForQuery_def msgCommandComplete_def msgRowDescription_def msgDataRow_def
  msgErrorResponse_def msgAuthentication_def msgParameterStatus_def msgBackendKeyData_def msgParseComplete_def
  msgBindComplete_def msgCloseComplete_def msgNoData_def msgParameterDescription_def

text \<open>The payload of ReadyForQuery: the letter I, for a session that is not in a transaction.\<close>

definition ready_message :: bytes where
  "ready_message = encodeMessage msgReadyForQuery [0x49]"

section \<open>The startup message\<close>

text \<open>The loop over the pairs of keys and values, on the part of the message behind the version.\<close>

function startup_pairs :: "(string, string) gomap \<Rightarrow> bytes \<Rightarrow> (string, string) gomap" where
  "startup_pairs params data =
     (case cut_zero data of
        None \<Rightarrow> params
      | Some (key, data1) \<Rightarrow>
          if key = [] then params
          else (case cut_zero data1 of
                  None \<Rightarrow> params
                | Some (value, data2) \<Rightarrow> startup_pairs (mset_key params (string_of key) (string_of value)) data2))"
  by pat_completeness auto
termination
  by (relation "measure (\<lambda>(params, data). length data)") (auto dest!: cut_zero_shorter)

declare startup_pairs.simps [simp del]

definition parseStartupParams :: "bytes \<Rightarrow> (string, string) gomap" where
  "parseStartupParams msg = (if length msg < 8 then [] else startup_pairs [] (drop 8 msg))"

definition param :: "(string, string) gomap \<Rightarrow> string \<Rightarrow> string" where
  "param m k = (case mget m k of Some v \<Rightarrow> v | None \<Rightarrow> [])"

section \<open>Rows\<close>

text \<open>\<^verbatim>\<open>fmt.Sprintf("%v", f)\<close> for a float: the shortest digits, with an exponent below -4 and from 6 on.\<close>

definition digits_of :: "nat \<Rightarrow> string" where
  "digits_of m = rev (dropWhile (\<lambda>c. c = CHR ''0'') (rev (nat_dec m)))"

definition two_digits :: "nat \<Rightarrow> string" where
  "two_digits n = (if n < 10 then CHR ''0'' # nat_dec n else nat_dec n)"

fun float_text :: "gofloat \<Rightarrow> string" where
  "float_text FNaN = ''NaN''"
| "float_text (FInf neg) = (if neg then ''-Inf'' else ''+Inf'')"
| "float_text (FDec neg m e) =
     (let x = int (length (nat_dec m)) + e - 1
      in if m \<noteq> 0 \<and> (x < -4 \<or> x \<ge> 6) then
           (let ds = digits_of m
            in (if neg then ''-'' else []) @ [hd ds] @ (if tl ds = [] then [] else CHR ''.'' # tl ds) @
               (if x < 0 then ''e-'' else ''e+'') @ two_digits (nat \<bar>x\<bar>))
         else FormatFloat (FDec neg m e))"

text \<open>\<^verbatim>\<open>fmt.Sprintf("%v", v)\<close>: a byte slice is printed as the list of its numbers.\<close>

fun value_text :: "govalue \<Rightarrow> string" where
  "value_text VNil = ''<nil>''"
| "value_text (VBool b) = (if b then ''true'' else ''false'')"
| "value_text (VInt i) = Itoa i"
| "value_text (VUint n) = nat_dec n"
| "value_text (VFloat f) = float_text f"
| "value_text (VString s) = s"
| "value_text (VBytes bs) = ''['' @ Join (map (\<lambda>b. nat_dec (unat b)) bs) '' '' @ '']''"
| "value_text (VOther s) = s"

definition column_description :: "string \<Rightarrow> bytes" where
  "column_description col = bytes_of col @ [0, 0, 0, 0, 0, 0, 0, 0, 0, 0, 25, 255, 255, 255, 255, 255, 255, 0, 0]"

definition buildRowDescription :: "string list \<Rightarrow> bytes" where
  "buildRowDescription cols =
     encodeMessage msgRowDescription (be_bytes 2 (length cols mod 2 ^ 16) @ concat (map column_description cols))"

definition column_value :: "govalue \<Rightarrow> bytes" where
  "column_value v =
     (if v = VNil then [255, 255, 255, 255]
      else be_bytes 4 (length (value_text v) mod 2 ^ 32) @ bytes_of (value_text v))"

definition buildDataRow :: "govalue list \<Rightarrow> bytes" where
  "buildDataRow values =
     encodeMessage msgDataRow (be_bytes 2 (length values mod 2 ^ 16) @ concat (map column_value values))"

definition command_complete :: "string \<Rightarrow> bytes" where
  "command_complete tag = encodeMessage msgCommandComplete (bytes_of tag @ [0])"

definition error_payload :: "string \<Rightarrow> string \<Rightarrow> string \<Rightarrow> bytes" where
  "error_payload severity code message =
     [0x53] @ bytes_of severity @ [0, 0x43] @ bytes_of code @ [0, 0x4D] @ bytes_of message @ [0, 0]"

text \<open>The answer to a query with a result: the rows, or the tag for a statement without columns.\<close>

definition rows_response :: "string \<Rightarrow> string list \<Rightarrow> govalue list list \<Rightarrow> bytes" where
  "rows_response tag cols rows =
     (if cols \<noteq> [] then
        buildRowDescription cols @ concat (map buildDataRow rows) @ command_complete (''SELECT '' @ nat_dec (length rows))
      else command_complete tag)"

section \<open>Messages of the extended query protocol\<close>

definition parse_Parse :: "bytes \<Rightarrow> string + string \<times> string" where
  "parse_Parse payload =
     (case cut_zero payload of
        None \<Rightarrow> Inl ''malformed Parse message: no statement name terminator''
      | Some (stmtName, rest) \<Rightarrow>
          (case cut_zero rest of
             None \<Rightarrow> Inl ''malformed Parse message: no query terminator''
           | Some (query, _) \<Rightarrow> Inr (string_of stmtName, string_of query)))"

text \<open>The largest number behind a dollar sign. A number that is out of range is skipped.\<close>

fun count_params :: "string \<Rightarrow> int \<Rightarrow> int" where
  "count_params [] maxParam = maxParam"
| "count_params (c # cs) maxParam =
     (let ds = takeWhile is_digit cs
      in count_params cs
           (if c = CHR ''$'' \<and> ds \<noteq> [] \<and> snd (Atoi ds) \<and> fst (Atoi ds) > maxParam then fst (Atoi ds) else maxParam))"

definition countPostgresParams :: "string \<Rightarrow> int" where
  "countPostgresParams query = count_params query 0"

text \<open>
  \<^verbatim>\<open>make([]byte, 2+numParams*4)\<close> with the 16-bit count: the size is a 64-bit product, and \<^verbatim>\<open>make\<close> panics for a negative
  size and for one above the address space of 48 bits.
\<close>

definition param_description :: "int \<Rightarrow> panic + bytes" where
  "param_description numParams =
     (let size = wrap64 (2 + wrap64 (numParams * 4))
      in if size < 0 \<or> size > 2 ^ 48 then Inl MakeSliceLen
         else Inr (be_bytes 2 (nat (numParams mod 2 ^ 16)) @ replicate (nat size - 2) 0))"

text \<open>The column of a RETURNING clause, with its description as a 4-byte integer.\<close>

definition returning_column :: "string \<Rightarrow> string option" where
  "returning_column query =
     (case Index (ToUpper query) '' RETURNING '' of
        None \<Rightarrow> None
      | Some i \<Rightarrow> Some (takeWhile (\<lambda>c. c \<notin> set '' ,;'') (TrimSpace (drop (i + 11) query))))"

definition returning_description :: "string \<Rightarrow> bytes" where
  "returning_description colName =
     be_bytes 2 1 @ bytes_of colName @ [0] @ be_bytes 4 0 @ be_bytes 2 0 @ be_bytes 4 23 @ be_bytes 2 4 @
     [255, 255, 255, 255] @ be_bytes 2 0"

text \<open>The values of the parameters, \<open>n\<close> of them. The length is read as an unsigned number and compared with -1.\<close>

fun bind_params :: "nat \<Rightarrow> bytes \<Rightarrow> string + govalue list" where
  "bind_params 0 rest = Inr []"
| "bind_params (Suc n) rest =
     (if length rest < 4 then Inl ''malformed Bind message: incomplete parameter length''
      else let paramLen = int (be_nat (take 4 rest)); rest1 = drop 4 rest
           in if paramLen = -1 then
                (case bind_params n rest1 of Inl e \<Rightarrow> Inl e | Inr vs \<Rightarrow> Inr (VNil # vs))
              else if paramLen > int (length rest1) then Inl ''malformed Bind message: incomplete parameter value''
              else (case bind_params n (drop (nat paramLen) rest1) of
                      Inl e \<Rightarrow> Inl e
                    | Inr vs \<Rightarrow> Inr (VString (string_of (take (nat paramLen) rest1)) # vs)))"

text \<open>The part of a Bind message behind the two names.\<close>

definition bind_values :: "bytes \<Rightarrow> string + govalue list" where
  "bind_values rest =
     (if length rest < 2 then Inl ''malformed Bind message: incomplete format codes''
      else let rest1 = drop (be_nat (take 2 rest) * 2) (drop 2 rest)
           in if length rest1 < 2 then Inl ''malformed Bind message: incomplete parameter count''
              else bind_params (be_nat (take 2 rest1)) (drop 2 rest1))"

text \<open>The name in a Close message: without a terminator the last byte is cut off instead.\<close>

definition close_name :: "bytes \<Rightarrow> string" where
  "close_name payload =
     (case cut_zero (drop 1 payload) of
        Some (name, _) \<Rightarrow> string_of name
      | None \<Rightarrow> string_of (take (length payload - 2) (drop 1 payload)))"

text \<open>The data row of an Execute message for a batched write: the first returned value, cut to 32 bits.\<close>

definition returned_int32 :: "int \<Rightarrow> bytes" where
  "returned_int32 v =
     encodeMessage msgDataRow (be_bytes 2 1 @ be_bytes 4 4 @ be_bytes 4 (unat (word_of_int v :: 32 word)))"

section \<open>Lemmas on messages\<close>

lemma payload_length_encoded:
  assumes "n + 4 < 2 ^ 32"
  shows "payload_length (be_bytes 4 ((n + 4) mod 2 ^ 32)) = n"
proof -
  have "be_nat (be_bytes 4 ((n + 4) mod 2 ^ 32)) = n + 4"
    using assms by (simp add: be_nat_be_bytes)
  then have "(of_nat (be_nat (be_bytes 4 ((n + 4) mod 2 ^ 32))) - 4 :: 32 word) = of_nat n"
    by simp
  then show ?thesis
    using assms by (simp add: payload_length_def unat_of_nat)
qed

text \<open>For evaluation, the encodings without the reductions that they do by themselves.\<close>

lemma encodings_code [code]:
  "encodeMessage msgType payload = msgType # be_bytes 4 (length payload + 4) @ payload"
  "buildRowDescription cols = encodeMessage msgRowDescription (be_bytes 2 (length cols) @ concat (map column_description cols))"
  "column_value v = (if v = VNil then [255, 255, 255, 255] else be_bytes 4 (length (value_text v)) @ bytes_of (value_text v))"
  "buildDataRow vs = encodeMessage msgDataRow (be_bytes 2 (length vs) @ concat (map column_value vs))"
  by (simp_all only: encodeMessage_def buildRowDescription_def column_value_def buildDataRow_def wire_simps)

lemma length_encodeMessage [simp]: "length (encodeMessage t p) = 5 + length p"
  by (simp add: encodeMessage_def)

subsection \<open>Startup\<close>

text \<open>The startup message of a client: length, version, the pairs, and a zero byte.\<close>

definition startup_message :: "(string \<times> string) list \<Rightarrow> bytes" where
  "startup_message pairs =
     (let body = concat (map (\<lambda>(k, v). bytes_of k @ [0] @ bytes_of v @ [0]) pairs) @ [0]
      in be_bytes 4 (length body + 8) @ [0, 3, 0, 0] @ body)"

definition c_string :: "string \<Rightarrow> bool" where
  "c_string s \<longleftrightarrow> 0 \<notin> set (bytes_of s)"

lemma startup_pairs_encoded:
  assumes "\<forall>(k, v) \<in> set pairs. k \<noteq> [] \<and> c_string k \<and> c_string v"
  shows "startup_pairs params (concat (map (\<lambda>(k, v). bytes_of k @ [0] @ bytes_of v @ [0]) pairs) @ [0]) =
    foldl (\<lambda>m (k, v). mset_key m k v) params pairs"
  using assms
proof (induction pairs arbitrary: params)
  case Nil
  have "cut_zero [0 :: byte] = Some ([], [])"
    using cut_zero_append [of "[]" "[]"] by simp
  then show ?case by (simp add: startup_pairs.simps)
next
  case (Cons kv pairs)
  obtain k v where kv: "kv = (k, v)" by (cases kv)
  with Cons.prems have "bytes_of k \<noteq> []" "0 \<notin> set (bytes_of k)" "0 \<notin> set (bytes_of v)"
    by (auto simp: c_string_def bytes_of_def)
  then show ?case
    using Cons by (simp add: kv startup_pairs.simps [of params])
qed

lemma mget_pairs: "mget (foldl (\<lambda>m (k, v). mset_key m k v) m pairs) k =
    (case map_of (rev pairs) k of None \<Rightarrow> mget m k | Some v \<Rightarrow> Some v)"
  by (induction pairs arbitrary: m) (auto simp: map_add_def split: option.splits)

subsection \<open>Rows as a client reads them\<close>

fun read_columns :: "nat \<Rightarrow> bytes \<Rightarrow> string option list option" where
  "read_columns 0 s = (if s = [] then Some [] else None)"
| "read_columns (Suc n) s =
     (case read_full 4 s of
        None \<Rightarrow> None
      | Some (l, s1) \<Rightarrow>
          if be_nat l = 2 ^ 32 - 1 then map_option (Cons None) (read_columns n s1)
          else (case read_full (be_nat l) s1 of
                  None \<Rightarrow> None
                | Some (v, s2) \<Rightarrow> map_option (Cons (Some (string_of v))) (read_columns n s2)))"

definition read_row :: "bytes \<Rightarrow> string option list option" where
  "read_row payload = (case read_full 2 payload of None \<Rightarrow> None | Some (n, s) \<Rightarrow> read_columns (be_nat n) s)"

definition column_text :: "govalue \<Rightarrow> string option" where
  "column_text v = (if v = VNil then None else Some (value_text v))"

lemma read_column_values:
  assumes "\<forall>v \<in> set vals. length (value_text v) < 2 ^ 32 - 1"
  shows "read_columns (length vals) (concat (map column_value vals)) = Some (map column_text vals)"
  using assms
proof (induction vals)
  case (Cons v vals)
  show ?case
  proof (cases "v = VNil")
    case True
    have "be_nat [255, 255, 255, 255] = 2 ^ 32 - 1"
      by (simp add: be_nat_def)
    moreover have "read_full 4 ([255, 255, 255, 255] @ concat (map column_value vals)) =
        Some ([255, 255, 255, 255], concat (map column_value vals))"
      by (rule read_full_append) simp
    ultimately show ?thesis
      using Cons True by (simp add: column_value_def [of VNil] column_text_def [of VNil])
  next
    case False
    let ?l = "be_bytes 4 (length (value_text v) mod 2 ^ 32)"
    let ?rest = "concat (map column_value vals)"
    have small: "length (value_text v) < 2 ^ 32 - 1"
      using Cons.prems by simp
    then have l: "be_nat ?l = length (value_text v)"
      by (simp add: be_nat_be_bytes)
    have "read_full 4 (?l @ bytes_of (value_text v) @ ?rest) = Some (?l, bytes_of (value_text v) @ ?rest)"
      by (rule read_full_append) simp
    moreover have "read_full (length (value_text v)) (bytes_of (value_text v) @ ?rest) = Some (bytes_of (value_text v), ?rest)"
      by (rule read_full_append) simp
    ultimately show ?thesis
      using Cons False l small by (simp add: column_value_def [of v] column_text_def [of v])
  qed
qed simp

subsection \<open>Bind\<close>

text \<open>The part of a Bind message behind the names, as a client writes it.\<close>

fun bind_param :: "bytes option \<Rightarrow> bytes" where
  "bind_param None = [255, 255, 255, 255]"
| "bind_param (Some p) = be_bytes 4 (length p) @ p"

definition bind_body :: "nat list \<Rightarrow> bytes option list \<Rightarrow> bytes \<Rightarrow> bytes" where
  "bind_body formats params tail =
     be_bytes 2 (length formats) @ concat (map (be_bytes 2) formats) @
     be_bytes 2 (length params) @ concat (map bind_param params) @ tail"

lemma bind_params_encoded:
  assumes "length (concat (map bind_param params) @ tail) < 2 ^ 32 - 1"
  shows "bind_params (length params) (concat (map bind_param params) @ tail) =
    (if None \<in> set params then Inl ''malformed Bind message: incomplete parameter value''
     else Inr (map (\<lambda>p. VString (string_of (the p))) params))"
  using assms
proof (induction params)
  case (Cons p params)
  let ?rest = "concat (map bind_param params) @ tail"
  show ?case
  proof (cases p)
    case None
    have "be_nat [255, 255, 255, 255] = 4294967295"
      by (simp add: be_nat_def)
    then show ?thesis
      using None Cons.prems by simp
  next
    case (Some v)
    have len: "length v < 2 ^ 32"
      using Cons.prems Some by simp
    then have "be_nat (be_bytes 4 (length v)) = length v"
      by (simp add: be_nat_be_bytes)
    moreover have "bind_params (length params) ?rest =
      (if None \<in> set params then Inl ''malformed Bind message: incomplete parameter value''
       else Inr (map (\<lambda>p. VString (string_of (the p))) params))"
      using Cons by simp
    ultimately show ?thesis
      using Some by simp
  qed
qed simp

lemma length_formats: "length (concat (map (be_bytes 2) formats)) = length formats * 2"
  by (induction formats) simp_all

lemma bind_values_encoded:
  assumes "length formats < 2 ^ 16" "length params < 2 ^ 16" "length (bind_body formats params tail) < 2 ^ 32 - 1"
  shows "bind_values (bind_body formats params tail) =
    (if None \<in> set params then Inl ''malformed Bind message: incomplete parameter value''
     else Inr (map (\<lambda>p. VString (string_of (the p))) params))"
proof -
  let ?ps = "concat (map bind_param params) @ tail"
  let ?fs = "concat (map (be_bytes 2) formats)"
  have n: "be_nat (be_bytes 2 (length formats)) = length formats" "be_nat (be_bytes 2 (length params)) = length params"
    using assms by (simp_all add: be_nat_be_bytes)
  have "drop (length formats * 2) (?fs @ be_bytes 2 (length params) @ ?ps) = be_bytes 2 (length params) @ ?ps"
    by (simp add: length_formats [symmetric])
  moreover have "length ?ps < 2 ^ 32 - 1"
    using assms(3) by (simp add: bind_body_def)
  ultimately show ?thesis
    using bind_params_encoded [of params tail] n by (simp add: bind_values_def bind_body_def)
qed

section \<open>Properties\<close>

text \<open>A row that the proxy writes is read back by the client: as many columns as the query has, NULL where the value is nil,
  and the text of every other value, also when it is empty. (The texts have less than 4 GiB and there are less than
  65536 columns.)\<close>

lemma row_roundtrip:
  assumes "length vs < 2 ^ 16" and "\<forall>v \<in> set vs. length (value_text v) < 2 ^ 32 - 1"
  shows "\<exists>payload. buildDataRow vs = encodeMessage msgDataRow payload \<and> read_row payload = Some (map column_text vs)"
proof (intro exI conjI)
  let ?n = "be_bytes 2 (length vs mod 2 ^ 16)"
  let ?cols = "concat (map column_value vs)"
  show "buildDataRow vs = encodeMessage msgDataRow (?n @ ?cols)"
    by (simp add: buildDataRow_def)
  have "read_full 2 (?n @ ?cols) = Some (?n, ?cols)"
    by (rule read_full_append) simp
  moreover have "be_nat ?n = length vs"
    using assms(1) by (simp add: be_nat_be_bytes)
  ultimately show "read_row (?n @ ?cols) = Some (map column_text vs)"
    using read_column_values [OF assms(2)] by (simp add: read_row_def)
qed

lemma row_roundtrip_witness:
  "\<exists>payload. buildDataRow [VInt 7, VNil, VString []] = encodeMessage msgDataRow payload \<and>
     read_row payload = Some [Some ''7'', None, Some []]"
proof -
  have "column_text (VInt 7) = Some ''7''" "column_text VNil = None" "column_text (VString []) = Some []"
    by code_simp+
  moreover have "length (value_text v) \<le> 5" if "v \<in> set [VInt 7, VNil, VString []]" for v
  proof -
    have "length (value_text (VInt 7)) = 1" by code_simp
    with that show ?thesis by auto
  qed
  ultimately show ?thesis
    using row_roundtrip [of "[VInt 7, VNil, VString []]"] by fastforce
qed

text \<open>C38: The values of a Bind message are read back as they were sent, whatever their bytes, unless one of them is NULL: the length
  -1 of a NULL is taken for 4294967295, so that a Bind message with a NULL is refused as incomplete.\<close>

theorem bind_roundtrip:
  assumes "length formats < 2 ^ 16" and "length params < 2 ^ 16" and "length (bind_body formats params tail) < 2 ^ 32 - 1"
  shows "bind_values (bind_body formats params tail) =
    (if None \<in> set params then Inl ''malformed Bind message: incomplete parameter value''
     else Inr (map (\<lambda>p. VString (string_of (the p))) params))"
  using assms by (rule bind_values_encoded)

theorem bind_roundtrip_witness:
  "bind_values (bind_body [1] [Some [0x41, 0], Some []] []) = Inr [VString [CHR ''A'', CHR 0x00], VString []] \<and>
   bind_values (bind_body [] [Some [0x41], None] []) = Inl ''malformed Bind message: incomplete parameter value''"
proof
  have "bind_values (bind_body [1] [Some [0x41, 0], Some []] []) = Inr [VString (string_of [0x41, 0]), VString (string_of [])]"
    using bind_roundtrip [of "[1]" "[Some [0x41, 0], Some []]" "[]"] by (simp add: bind_body_def)
  moreover have "string_of [0x41, 0] = [CHR ''A'', CHR 0x00]" "string_of [] = []"
    by code_simp+
  ultimately show "bind_values (bind_body [1] [Some [0x41, 0], Some []] []) = Inr [VString [CHR ''A'', CHR 0x00], VString []]"
    by simp
  show "bind_values (bind_body [] [Some [0x41], None] []) = Inl ''malformed Bind message: incomplete parameter value''"
    using bind_roundtrip [of "[]" "[Some [0x41], None]" "[]"] by (simp add: bind_body_def)
qed

text \<open>The parameters of the startup message are read back, the last one of a repeated key.\<close>

lemma startup_roundtrip:
  assumes "\<forall>(k, v) \<in> set pairs. k \<noteq> [] \<and> c_string k \<and> c_string v"
  shows "mget (parseStartupParams (startup_message pairs)) = map_of (rev pairs)"
proof -
  let ?body = "concat (map (\<lambda>(k, v). bytes_of k @ [0] @ bytes_of v @ [0]) pairs) @ [0]"
  have "drop 8 (startup_message pairs) = ?body" "\<not> length (startup_message pairs) < 8"
    by (simp_all add: startup_message_def Let_def)
  then have "parseStartupParams (startup_message pairs) = foldl (\<lambda>m (k, v). mset_key m k v) [] pairs"
    using startup_pairs_encoded [OF assms] by (simp add: parseStartupParams_def)
  then show ?thesis
    by (auto simp: mget_pairs fun_eq_iff split: option.splits)
qed

text \<open>A length below 4 wraps around: the proxy allocates almost 4 GiB and waits for as many bytes.\<close>

lemma short_length_wraps: "payload_length (be_bytes 4 0) = 4294967292"
proof -
  have "be_nat (be_bytes 4 0) = 0" by (simp add: be_nat_be_bytes)
  then show ?thesis by (simp add: payload_length_def)
qed

text \<open>Values that the driver gives as bytes, such as numeric or json columns, reach the client as lists of numbers.\<close>

lemma bytes_are_listed: "value_text (VBytes (bytes_of ''1.5'')) = ''[49 46 53]''"
  by code_simp

text \<open>One number in a statement makes Describe panic.\<close>

lemma param_count_panics: "param_description (countPostgresParams ''SELECT $9223372036854775807'') = Inl MakeSliceLen"
proof -
  have "countPostgresParams ''SELECT $9223372036854775807'' = 9223372036854775807"
    by (simp add: countPostgresParams_def is_digit_def Atoi_def dec_val_def digit_val_def max_int64_def)
  then show ?thesis by (simp add: param_description_def wrap64_def)
qed

end
