(* ===== verification/Maria_Helpers.thy ===== *)
theory Maria_Helpers
  imports Maria_Conn Pg_Wire
begin

text \<open>
  Methods of \<^verbatim>\<open>mariadb/mariadb.go\<close> that no path of the proxy calls: running a query on a connection of its own, building a
  result set from the rows of \<^verbatim>\<open>database/sql\<close>, and three small writers. The lemmas show what they do, and two places where
  a caller would be surprised. \<open>enc\<close> is \<^verbatim>\<open>mysql.AppendLengthEncodedInteger\<close> of the driver.
\<close>

section \<open>A query on a connection of its own\<close>

text \<open>The bytes written to the connection and the result; \<open>werr\<close> and \<open>rerr\<close> are the errors of writing and of reading,
  \<open>s\<close> the bytes that the server sends.\<close>

definition execQueryOnConn ::
  "mysql_lib \<Rightarrow> string option \<Rightarrow> goerr \<Rightarrow> bytes \<Rightarrow> string \<Rightarrow> bytes \<times> bytes outcome" where
  "execQueryOnConn lib werr rerr s query =
     (case werr of
        Some e \<Rightarrow> ([], Err (ErrMsg e))
      | None \<Rightarrow>
          (frame 0 (ml_ComQuery lib # bytes_of query),
           case read_response conn_verdict 0 0 [] s of
             Got seq response rest \<Rightarrow> Ok response
           | ReadError \<Rightarrow> Err rerr
           | ReadPanic p \<Rightarrow> Panic p))"

section \<open>Result sets from rows\<close>

definition next_packet :: "bytes \<Rightarrow> ('s, bytes) mgo" where
  "next_packet payload =
     next_do (modify (\<lambda>c. c\<lparr>cc_sequence := cc_sequence c + 1\<rparr>)) (gets (\<lambda>c. frame (cc_sequence c) payload))"

definition column_packet :: "(nat \<Rightarrow> bytes) \<Rightarrow> string \<Rightarrow> bytes" where
  "column_packet enc col =
     [0x03, 0x64, 0x65, 0x66, 0, 0, 0] @ enc (length col) @ bytes_of col @
     [0, 0x0c, 0x21, 0x00, 0xff, 0xff, 0xff, 0xff, 0xfd, 0x00, 0x00, 0x00, 0x00, 0x00]"

fun row_value :: "(nat \<Rightarrow> bytes) \<Rightarrow> govalue \<Rightarrow> bytes" where
  "row_value enc VNil = [0xfb]"
| "row_value enc (VBytes bs) = enc (length bs) @ bs"
| "row_value enc v = enc (length (value_text v)) @ bytes_of (value_text v)"

text \<open>The EOF packets are taken to have a header already.\<close>

definition eof_as_packet :: "'s menv \<Rightarrow> ('s, bytes) mgo" where
  "eof_as_packet E =
     next_do (modify (\<lambda>c. c\<lparr>cc_sequence := cc_sequence c + 1\<rparr>))
       (andthen (gets id) (\<lambda>c.
         let eofPacket = ml_WriteEOFPacket (me_lib E) (cc_status c)
         in if length eofPacket < 4 then crash IndexOutOfRange else ret (eofPacket[3 := cc_sequence c])))"

fun packet_list :: "bytes list \<Rightarrow> ('s, bytes) mgo" where
  "packet_list [] = ret []"
| "packet_list (p # ps) = andthen (next_packet p) (\<lambda>b. andthen (packet_list ps) (\<lambda>bs. ret (b @ bs)))"

text \<open>The rows with the results of \<^verbatim>\<open>Scan\<close>.\<close>

fun row_packets :: "(nat \<Rightarrow> bytes) \<Rightarrow> (string + govalue list) list \<Rightarrow> ('s, bytes) mgo" where
  "row_packets enc [] = ret []"
| "row_packets enc (Inl err # _) = raise (ErrMsg err)"
| "row_packets enc (Inr vals # rows) =
     andthen (next_packet (concat (map (row_value enc) vals))) (\<lambda>b. andthen (row_packets enc rows) (\<lambda>bs. ret (b @ bs)))"

definition buildResultSet ::
  "'s menv \<Rightarrow> (nat \<Rightarrow> bytes) \<Rightarrow> string + string list \<Rightarrow> (string + govalue list) list \<Rightarrow> ('s, bytes) mgo" where
  "buildResultSet E enc columns rows =
     (case columns of
        Inl err \<Rightarrow> raise (ErrMsg err)
      | Inr cols \<Rightarrow>
          andthen (next_packet (enc (length cols))) (\<lambda>count.
            andthen (packet_list (map (column_packet enc) cols)) (\<lambda>definitions.
              andthen (eof_as_packet E) (\<lambda>eof1.
                andthen (row_packets enc rows) (\<lambda>data.
                  andthen (eof_as_packet E) (\<lambda>eof2. ret (count @ definitions @ eof1 @ data @ eof2)))))))"

section \<open>Writers\<close>

definition forwardClientAuth :: "'s menv \<Rightarrow> ('s, unit) mgo" where
  "forwardClientAuth E =
     next_do (modify (\<lambda>c. c\<lparr>cc_backendSeq := cc_backendSeq c + 1\<rparr>))
       (andthen backend_of (\<lambda>bk.
         andthen tick (\<lambda>n.
           case me_write_error E n of
             Some e \<Rightarrow> raise (ErrMsg e)
           | None \<Rightarrow> modify (\<lambda>c. c\<lparr>cc_sent := cc_sent c @ [(bk_addr bk, frame (cc_backendSeq c) (cc_rawAuthPkt c))]\<rparr>))))"

text \<open>\<open>error_packet\<close> is \<^verbatim>\<open>mysql.WriteErrorPacket\<close>, of a code, a state and a message.\<close>

definition writeAuthError :: "'s menv \<Rightarrow> (nat \<Rightarrow> string \<Rightarrow> string \<Rightarrow> bytes) \<Rightarrow> string \<Rightarrow> ('s, unit) mgo" where
  "writeAuthError E error_packet user =
     writePacket E (error_packet 1045 ''28000'' (''Access denied for user '' @ [CHR 0x27] @ user @ [CHR 0x27] @ ''@'' @
       [CHR 0x27] @ ''localhost'' @ [CHR 0x27] @ '' (using password: YES)''))"

definition writeRaw :: "'s menv \<Rightarrow> bytes \<Rightarrow> ('s, unit) mgo" where
  "writeRaw E data = conn_Write E data"

section \<open>Lemmas\<close>

lemma conn_verdict_no_panic: "read_response conn_verdict k e r s \<noteq> ReadPanic p"
  by (induction v \<equiv> conn_verdict k e r s rule: read_response.induct)
    (subst read_response.simps, auto simp: conn_verdict_def Let_def split: option.splits verdict.splits list.splits if_splits)

text \<open>The query never panics, and everything that it returns was sent by the server.\<close>

lemma execQueryOnConn_no_panic: "snd (execQueryOnConn lib werr rerr s query) \<noteq> Panic p"
  by (simp add: execQueryOnConn_def conn_verdict_no_panic split: option.splits read_result.splits)

text \<open>The end of a response is found by the first byte of a packet alone: a row whose first value is empty is taken for
  an OK packet, and the rows behind it are cut off.\<close>

lemma empty_value_ends_response:
  assumes "\<forall>(seq, p) \<in> set defs. length p < 2 ^ 24 \<and> plain_first p" and "Suc (length row) < 2 ^ 24"
  shows "snd (execQueryOnConn lib None rerr (frames (defs @ [(s1, eof_packet status w1 w2), (s2, 0 # row)]) @ rest) query) =
     Ok (frames (defs @ [(s1, eof_packet status w1 w2), (s2, 0 # row)]))"
proof -
  have "conn_verdict k e p = More e" if "plain_first p" for k e p
    using that by (auto simp: conn_verdict_def plain_first_def split: list.splits)
  then have m: "read_response conn_verdict 0 0 [] (frames defs @ s) = read_response conn_verdict (length defs) 0 (frames defs) s" for s
    using read_response_more [of defs 0 conn_verdict 0 "[]"] assms(1) by (auto simp: case_prod_beta)
  show ?thesis
    using assms(2)
    by (simp add: execQueryOnConn_def m read_response_frame conn_verdict_def eof_packet_def)
qed

lemma packet_list_run:
  "packet_list ps c = (Ok (frames (renumbered (cc_sequence c) ps)), c\<lparr>cc_sequence := cc_sequence c + of_nat (length ps)\<rparr>)"
  by (induction ps arbitrary: c) (simp_all add: next_packet_def add.assoc)

text \<open>The EOF packets of a result set have no header, as \<open>writeEOF\<close> shows: the client takes the five bytes for the header of
  a packet of at least 254 bytes, and cannot read the rows.\<close>

lemma eof_without_header:
  assumes "length s < 253"
  shows "read_packet ((eof_packet status 0 0)[3 := seq] @ s) = None"
  using assms by (simp add: read_packet_def eof_packet_def read_full_def)

end
