(* ===== verification/Pg_Conn.thy ===== *)
theory Pg_Conn
  imports Pg_Wire Caching Metrics
begin

text \<open>
  A client connection of the PostgreSQL proxy, \<^verbatim>\<open>postgres/postgres.go\<close>: its state, the messages it exchanges with the
  client, and the database handles it opens. What lies outside the repository (the driver behind \<^verbatim>\<open>database/sql\<close>, the
  store of the cache, SHA-1, Prometheus, the network) is the record \<open>penv\<close>, an argument of the definitions; \<open>pg_tick\<close> numbers the
  calls of it. A database handle is known by the number of the call that opened it and by its data source name.
  \<open>pg_metrics\<close> are the values recorded for metrics, with their labels. Logging is left out.
\<close>

section \<open>The environment\<close>

text \<open>
  The result of a query: the columns, the rows that \<^verbatim>\<open>Next\<close> and \<^verbatim>\<open>Scan\<close> give, with one value per column, and the error that
  ended them early, if any, which \<^verbatim>\<open>Err\<close> would tell.
\<close>

record sql_Rows =
  rs_Columns :: "string list"
  rs_rows :: "govalue list list"
  rs_Err :: "string option"

record sql_DB =
  db_num :: nat
  db_dsn :: string

record 's penv =
  pe_tq :: "'s tqmemory"
  pe_wait :: "'s Cache \<Rightarrow> nat \<Rightarrow> 's Cache \<times> wake"
  pe_Open :: "nat \<Rightarrow> string \<Rightarrow> string option"
  pe_Ping :: "nat \<Rightarrow> sql_DB \<Rightarrow> string option"
  pe_Query :: "nat \<Rightarrow> sql_DB \<Rightarrow> string \<Rightarrow> govalue list \<Rightarrow> string + sql_Rows"
  pe_Enqueue :: "nat \<Rightarrow> string \<Rightarrow> string \<Rightarrow> govalue list \<Rightarrow> int \<Rightarrow> WriteResult"
  pe_write_error :: "nat \<Rightarrow> string option"
  pe_sha1_hex :: "bytes \<Rightarrow> string"
  pe_prom :: prometheus

section \<open>State\<close>

record 's pgProxy =
  pp_config :: ProxyConfig
  pp_pools :: "(string, nat) gomap"
  pp_heap :: PoolHeap
  pp_cache :: "'s Cache"
  pp_writeBatch :: bool

text \<open>
  The state of a connection: the client's bytes still to be read, the bytes written to it, the queries sent to
  databases, the handles that are open, and the fields of \<^verbatim>\<open>connState\<close>.
\<close>

record 's pgConn =
  pg_proxy :: "'s pgProxy"
  pg_in :: bytes
  pg_out :: bytes
  pg_sent :: "(sql_DB \<times> string \<times> govalue list) list"
  pg_tick :: nat
  pg_open :: "sql_DB list"
  pg_metrics :: "(metric \<times> string list) list"
  pg_connID :: "32 word"
  st_lastBackend :: string
  st_shard :: string
  st_lastCacheHit :: bool
  st_pool :: nat
  st_user :: string
  st_password :: string
  st_database :: string
  st_primaryDB :: sql_DB
  st_replicaDBs :: "(string, sql_DB) gomap"
  st_preparedStatements :: "(string, string) gomap"
  st_boundParams :: "(string, govalue list) gomap"
  st_portalStatements :: "(string, string) gomap"
  st_writeBatch :: bool
  st_inTransaction :: bool
  st_lastBatchSize :: int

type_synonym ('s, 'a) pgo = "('s pgConn, 'a) go"

definition pg_New :: "ProxyConfig \<Rightarrow> (string, nat) gomap \<Rightarrow> PoolHeap \<Rightarrow> 's Cache \<Rightarrow> 's pgProxy" where
  "pg_New pcfg pools h c = \<lparr>pp_config = pcfg, pp_pools = pools, pp_heap = h, pp_cache = c, pp_writeBatch = False\<rparr>"

definition pg_UpdateConfig :: "ProxyConfig \<Rightarrow> (string, nat) gomap \<Rightarrow> 's pgProxy \<Rightarrow> 's pgProxy" where
  "pg_UpdateConfig pcfg pools p = p\<lparr>pp_config := pcfg, pp_pools := pools\<rparr>"

text \<open>Values recorded for metrics; labels that are refused panic.\<close>

definition pg_record :: "'s penv \<Rightarrow> (metric \<times> string list) list \<Rightarrow> ('s, unit) pgo" where
  "pg_record E calls =
     (if accepts_all (pe_prom E) calls then modify (\<lambda>c. c\<lparr>pg_metrics := pg_metrics c @ calls\<rparr>) else crash InvalidLabel)"

section \<open>Messages of the client\<close>

definition pg_next :: "('s, nat) pgo" where
  "pg_next = andthen (gets pg_tick) (\<lambda>n. next_do (modify (\<lambda>c. c\<lparr>pg_tick := n + 1\<rparr>)) (ret n))"

definition pg_Write :: "'s penv \<Rightarrow> bytes \<Rightarrow> ('s, unit) pgo" where
  "pg_Write E bs = andthen pg_next (\<lambda>n.
     case pe_write_error E n of
       Some e \<Rightarrow> raise (ErrMsg e)
     | None \<Rightarrow> modify (\<lambda>c. c\<lparr>pg_out := pg_out c @ bs\<rparr>))"

text \<open>A message is written in three parts.\<close>

definition writeMessage :: "'s penv \<Rightarrow> byte \<Rightarrow> bytes \<Rightarrow> ('s, unit) pgo" where
  "writeMessage E msgType payload =
     next_do (pg_Write E [msgType])
       (next_do (pg_Write E (be_bytes 4 ((length payload + 4) mod 2 ^ 32))) (pg_Write E payload))"

lemma writeMessage_code [code]: "writeMessage E msgType payload =
     next_do (pg_Write E [msgType]) (next_do (pg_Write E (be_bytes 4 (length payload + 4))) (pg_Write E payload))"
  by (simp only: writeMessage_def wire_simps)

definition pg_read :: "nat \<Rightarrow> ('s, bytes) pgo" where
  "pg_read n = andthen (gets pg_in) (\<lambda>s.
     case read_full n s of
       None \<Rightarrow> next_do (modify (\<lambda>c. c\<lparr>pg_in := []\<rparr>)) (raise (if s = [] then EOF else ErrMsg ''unexpected EOF''))
     | Some (bs, rest) \<Rightarrow> next_do (modify (\<lambda>c. c\<lparr>pg_in := rest\<rparr>)) (ret bs))"

definition readMessage :: "('s, byte \<times> bytes) pgo" where
  "readMessage = andthen (pg_read 1) (\<lambda>typeBuf.
     andthen (pg_read 4) (\<lambda>lengthBuf.
       andthen (pg_read (payload_length lengthBuf)) (\<lambda>payload. ret (hd typeBuf, payload))))"

definition readStartupMessage :: "('s, bytes) pgo" where
  "readStartupMessage = andthen (pg_read 4) (\<lambda>lengthBuf.
     andthen (pg_read (payload_length lengthBuf)) (\<lambda>payload. ret (lengthBuf @ payload)))"

definition sendParameterStatus :: "'s penv \<Rightarrow> string \<Rightarrow> string \<Rightarrow> ('s, unit) pgo" where
  "sendParameterStatus E name value =
     ignore (writeMessage E msgParameterStatus (bytes_of name @ [0] @ bytes_of value @ [0]))"

definition sendErrorWithSeverity :: "'s penv \<Rightarrow> string \<Rightarrow> string \<Rightarrow> string \<Rightarrow> ('s, unit) pgo" where
  "sendErrorWithSeverity E severity code message =
     ignore (writeMessage E msgErrorResponse (error_payload severity code message))"

definition sendError :: "'s penv \<Rightarrow> string \<Rightarrow> string \<Rightarrow> ('s, unit) pgo" where
  "sendError E code message = sendErrorWithSeverity E ''ERROR'' code message"

definition sendFatalError :: "'s penv \<Rightarrow> string \<Rightarrow> string \<Rightarrow> ('s, unit) pgo" where
  "sendFatalError E code message = sendErrorWithSeverity E ''FATAL'' code message"

definition sendReady :: "'s penv \<Rightarrow> ('s, unit) pgo" where
  "sendReady E = ignore (writeMessage E msgReadyForQuery [0x49])"

section \<open>Databases\<close>

text \<open>\<^verbatim>\<open>net.SplitHostPort\<close>: the last colon separates the port; a host with colons stands in brackets.\<close>

definition last_colon :: "string \<Rightarrow> (string \<times> string) option" where
  "last_colon s =
     (if CHR '':'' \<in> set s
      then Some (rev (tl (dropWhile (\<lambda>c. c \<noteq> CHR '':'') (rev s))), rev (takeWhile (\<lambda>c. c \<noteq> CHR '':'') (rev s)))
      else None)"

definition SplitHostPort :: "string \<Rightarrow> (string \<times> string) option" where
  "SplitHostPort s =
     (case last_colon s of
        None \<Rightarrow> None
      | Some (hostPart, port) \<Rightarrow>
          if CHR ''['' \<in> set port \<or> CHR '']'' \<in> set port then None
          else if hd s = CHR ''['' then
            let host = drop 1 (butlast hostPart)
            in if hostPart \<noteq> [] \<and> last hostPart = CHR '']'' \<and> length hostPart \<ge> 2 \<and> CHR ''['' \<notin> set host \<and> CHR '']'' \<notin> set host
               then Some (host, port) else None
          else if CHR '':'' \<in> set hostPart \<or> CHR ''['' \<in> set hostPart \<or> CHR '']'' \<in> set hostPart then None
          else Some (hostPart, port))"

definition pg_dsn :: "string \<Rightarrow> string \<Rightarrow> string \<Rightarrow> string \<Rightarrow> string" where
  "pg_dsn addr user password database =
     (let rest = '' user='' @ user @ '' password='' @ password @ '' dbname='' @ database @ '' sslmode=disable''
      in if length addr > 5 \<and> take 5 addr = ''unix:'' then ''host='' @ drop 5 addr @ rest
         else case SplitHostPort addr of
                Some (h, prt) \<Rightarrow> ''host='' @ h @ '' port='' @ prt @ rest
              | None \<Rightarrow> ''host=127.0.0.1 port=5432'' @ rest)"

definition connectToBackend :: "'s penv \<Rightarrow> string \<Rightarrow> string \<Rightarrow> string \<Rightarrow> string \<Rightarrow> ('s, sql_DB) pgo" where
  "connectToBackend E addr user password database =
     (let dsn = pg_dsn addr user password database
      in andthen pg_next (\<lambda>n.
           case pe_Open E n dsn of
             Some err \<Rightarrow> raise (ErrMsg err)
           | None \<Rightarrow>
               let db = \<lparr>db_num = n, db_dsn = dsn\<rparr>
               in next_do (modify (\<lambda>c. c\<lparr>pg_open := db # pg_open c\<rparr>)) (ret db)))"

definition db_Query :: "'s penv \<Rightarrow> sql_DB \<Rightarrow> string \<Rightarrow> govalue list \<Rightarrow> ('s, sql_Rows) pgo" where
  "db_Query E db query params = andthen pg_next (\<lambda>n.
     next_do (modify (\<lambda>c. c\<lparr>pg_sent := pg_sent c @ [(db, query, params)]\<rparr>))
       (case pe_Query E n db query params of Inl err \<Rightarrow> raise (ErrMsg err) | Inr rows \<Rightarrow> ret rows))"

section \<open>The cache and the pool\<close>

definition pg_cache :: "('s Cache \<Rightarrow> 's Cache \<times> 'a) \<Rightarrow> ('s, 'a) pgo" where
  "pg_cache f = andthen (gets (\<lambda>c. f (pp_cache (pg_proxy c)))) (\<lambda>(ch, res).
     next_do (modify (\<lambda>c. c\<lparr>pg_proxy := (pg_proxy c)\<lparr>pp_cache := ch\<rparr>\<rparr>)) (ret res))"

definition pg_cache_update :: "('s Cache \<Rightarrow> panic + 's Cache) \<Rightarrow> ('s, unit) pgo" where
  "pg_cache_update f = andthen (gets (\<lambda>c. f (pp_cache (pg_proxy c)))) (\<lambda>r.
     andthen (or_panic r) (\<lambda>ch. modify (\<lambda>c. c\<lparr>pg_proxy := (pg_proxy c)\<lparr>pp_cache := ch\<rparr>\<rparr>)))"

definition pg_pool_at :: "nat \<Rightarrow> 's pgConn \<Rightarrow> Pool" where
  "pg_pool_at a c = ph_pool (pp_heap (pg_proxy c)) a"

definition pg_GetReplica :: "('s, string \<times> string) pgo" where
  "pg_GetReplica = andthen (gets st_pool) (\<lambda>a.
     andthen (gets (pg_pool_at a)) (\<lambda>p.
       andthen (or_panic (GetReplica p)) (\<lambda>(p', addr, name).
         next_do (modify (\<lambda>c. c\<lparr>pg_proxy := (pg_proxy c)\<lparr>pp_heap := update_pool (pp_heap (pg_proxy c)) a p'\<rparr>\<rparr>))
           (ret (addr, name)))))"

end
