(* ===== verification/Pg_Handlers.thy ===== *)
theory Pg_Handlers
  imports Pg_Conn
begin

text \<open>
  What the PostgreSQL proxy does for a client, \<^verbatim>\<open>postgres/postgres.go\<close>: simple queries with their caching, batching and
  routing, the messages of the extended query protocol, the loop that reads them, and a connection from the
  startup message to its end. The write batch manager is called through \<open>pe_Enqueue\<close>; the callback that it calls
  after a batch only repeats the assignment of \<open>st_lastBatchSize\<close> and is left out.
\<close>

section \<open>Simple queries\<close>

definition pg_served :: "string \<Rightarrow> bool \<Rightarrow> ('s, unit) pgo" where
  "pg_served name hit = modify (\<lambda>c. c\<lparr>st_lastBackend := name, st_lastCacheHit := hit\<rparr>)"

definition pg_handleShowTQDBStatus :: "'s penv \<Rightarrow> ('s, unit) pgo" where
  "pg_handleShowTQDBStatus E = andthen (gets id) (\<lambda>c.
     let backend = (if st_lastBackend c = [] then ''none'' else st_lastBackend c);
         rows = [[VString ''Shard'', VString (st_shard c)], [VString ''Backend'', VString backend]] @
                (if st_lastBatchSize c > 0 then [[VString ''LastBatchSize'', VString (Itoa (st_lastBatchSize c))]] else [])
     in ignore (pg_Write E
          (buildRowDescription [''variable_name'', ''value''] @ concat (map buildDataRow rows) @
           command_complete (''SELECT '' @ nat_dec (length rows)) @ ready_message)))"

definition track_transaction :: "string \<Rightarrow> ('s, unit) pgo" where
  "track_transaction queryUpper =
     (if queryUpper = ''BEGIN'' \<or> HasPrefix queryUpper ''BEGIN '' \<or> queryUpper = ''START TRANSACTION''
      then modify (\<lambda>c. c\<lparr>st_inTransaction := True\<rparr>)
      else if queryUpper = ''COMMIT'' \<or> queryUpper = ''ROLLBACK'' then modify (\<lambda>c. c\<lparr>st_inTransaction := False\<rparr>)
      else ret ())"

definition cached_value :: "bytes option \<Rightarrow> bytes" where
  "cached_value v = (case v of Some bs \<Rightarrow> bs | None \<Rightarrow> [])"

text \<open>A value that answers at once, by the flags of the cache.\<close>

definition flagged_answer :: "bytes option \<times> int \<times> bool \<Rightarrow> (string \<times> bytes) option" where
  "flagged_answer res = (case res of (cached, flags, ok) \<Rightarrow>
     if ok \<and> flags = FlagFresh then Some (''cache'', cached_value cached)
     else if ok \<and> flags = FlagStale then Some (''cache (stale)'', cached_value cached)
     else None)"

definition pg_cached_answer :: "'s penv \<Rightarrow> ParsedQuery \<Rightarrow> ('s, (string \<times> bytes) option) pgo" where
  "pg_cached_answer E parsed =
     andthen (pg_cache (\<lambda>ch. Get (pe_tq E) ch (pq_Query parsed))) (\<lambda>res.
       case flagged_answer res of
         Some a \<Rightarrow> next_do (pg_record E (hit_calls (pg_labels parsed))) (ret (Some a))
       | None \<Rightarrow> next_do (pg_record E (miss_calls (pg_labels parsed)))
           (andthen (pg_cache (\<lambda>ch. GetOrWait (pe_tq E) (pe_wait E) ch (pq_Query parsed))) (\<lambda>(cached, _, ok, waited).
             if waited \<and> ok
             then next_do (pg_record E (waited_calls (pg_labels parsed))) (ret (Some (''cache'', cached_value cached)))
             else ret None)))"

definition pg_batches :: "ParsedQuery \<Rightarrow> 's pgConn \<Rightarrow> bool" where
  "pg_batches parsed c \<longleftrightarrow> st_writeBatch c \<and> \<not> st_inTransaction c \<and> IsWritable parsed \<and> IsBatchable parsed"

definition note_batch :: "WriteResult \<Rightarrow> ('s, unit) pgo" where
  "note_batch result = next_do (pg_served ''write-batch'' False)
     (modify (\<lambda>c. c\<lparr>st_lastBatchSize := res_BatchSize result\<rparr>))"

definition batch_response :: "WriteResult \<Rightarrow> bytes" where
  "batch_response result =
     (if res_ReturningValues result \<noteq> [] then
        buildRowDescription [''id''] @ buildDataRow (map (\<lambda>v. VString (Itoa v)) (res_ReturningValues result)) @
        command_complete ''INSERT 0 1''
      else command_complete (''INSERT 0 '' @ Itoa (res_AffectedRows result)))"

definition pg_batched_query :: "'s penv \<Rightarrow> ParsedQuery \<Rightarrow> ('s, unit) pgo" where
  "pg_batched_query E parsed = andthen pg_next (\<lambda>n.
     let result = pe_Enqueue E n (GetBatchKey parsed) (pq_Query parsed) [] (pq_BatchMs parsed)
     in next_do (pg_record E (batch_calls (pg_labels parsed)))
       (case res_Error result of
          Some e \<Rightarrow> next_do (sendError E ''42000'' e) (sendReady E)
        | None \<Rightarrow> next_do (note_batch result) (ignore (pg_Write E (batch_response result @ ready_message)))))"

text \<open>The database of a query: a cacheable one goes to a replica. The name is the replica's also when no handle for it
  could be opened and the primary is used.\<close>

definition pg_primary :: "string \<Rightarrow> ('s, sql_DB \<times> string) pgo" where
  "pg_primary name = gets (\<lambda>c. (st_primaryDB c, name))"

definition pg_select_db :: "'s penv \<Rightarrow> ParsedQuery \<Rightarrow> ('s, sql_DB \<times> string) pgo" where
  "pg_select_db E parsed =
     (if IsCacheable parsed then
        andthen pg_GetReplica (\<lambda>(addr, name).
          if name \<noteq> ''primary'' then
            andthen (gets (\<lambda>c. mget (st_replicaDBs c) addr)) (\<lambda>rdb.
              case rdb of
                Some db \<Rightarrow> ret (db, name)
              | None \<Rightarrow>
                  andthen (gets id) (\<lambda>c.
                    andthen (attempt (connectToBackend E addr (st_user c) (st_password c) (st_database c))) (\<lambda>r.
                      case r of
                        Inl err \<Rightarrow> pg_primary name
                      | Inr db \<Rightarrow>
                          next_do (modify (\<lambda>c. c\<lparr>st_replicaDBs := mset_key (st_replicaDBs c) addr db\<rparr>))
                            (ret (db, name)))))
          else pg_primary ''primary'')
      else pg_primary ''primary'')"

definition pg_fetch_rows :: "'s penv \<Rightarrow> ParsedQuery \<Rightarrow> govalue list \<Rightarrow> string option \<Rightarrow> ('s, string \<times> sql_Rows) pgo" where
  "pg_fetch_rows E parsed params cacheKey =
     andthen (pg_select_db E parsed) (\<lambda>(db, name).
       andthen (on_error (db_Query E db (pq_Query parsed) params)
                 (case cacheKey of None \<Rightarrow> ret () | Some key \<Rightarrow> pg_cache_update (\<lambda>ch. CancelInflight ch key))) (\<lambda>rows.
         ret (name, rows)))"

definition pg_store :: "'s penv \<Rightarrow> string option \<Rightarrow> bytes \<Rightarrow> int \<Rightarrow> ('s, unit) pgo" where
  "pg_store E cacheKey response ttl =
     (case cacheKey of
        None \<Rightarrow> ret ()
      | Some key \<Rightarrow> pg_cache_update (\<lambda>ch. SetAndNotify (pe_tq E) ch key response (ttl_duration ttl)))"

definition query_key :: "ParsedQuery \<Rightarrow> string option" where
  "query_key parsed = (if IsCacheable parsed then Some (pq_Query parsed) else None)"

definition pg_fetch :: "'s penv \<Rightarrow> ParsedQuery \<Rightarrow> ('s, unit) pgo" where
  "pg_fetch E parsed =
     andthen (attempt (pg_fetch_rows E parsed [] (query_key parsed))) (\<lambda>r.
       case r of
         Inl err \<Rightarrow> next_do (sendError E ''42000'' (error_text err)) (sendReady E)
       | Inr (name, rows) \<Rightarrow>
           let response = rows_response ''OK'' (rs_Columns rows) (rs_rows rows) @ ready_message
           in next_do (pg_served name False)
                (next_do (pg_record E (database_calls name (pg_labels parsed)))
                  (next_do (pg_store E (query_key parsed) response (pq_TTL parsed)) (ignore (pg_Write E response)))))"

definition pg_uncached :: "'s penv \<Rightarrow> ParsedQuery \<Rightarrow> ('s, unit) pgo" where
  "pg_uncached E parsed = andthen (gets (pg_batches parsed)) (\<lambda>batched.
     if batched then pg_batched_query E parsed else pg_fetch E parsed)"

definition pg_run_query :: "'s penv \<Rightarrow> ParsedQuery \<Rightarrow> ('s, unit) pgo" where
  "pg_run_query E parsed =
     (if IsCacheable parsed then
        andthen (pg_cached_answer E parsed) (\<lambda>answer.
          case answer of
            Some (name, cached) \<Rightarrow> next_do (pg_served name True) (ignore (pg_Write E cached))
          | None \<Rightarrow> pg_uncached E parsed)
      else pg_uncached E parsed)"

definition strip_zero :: "bytes \<Rightarrow> string" where
  "strip_zero payload = string_of (if payload \<noteq> [] \<and> last payload = 0 then butlast payload else payload)"

definition pg_handleQuery :: "'s penv \<Rightarrow> bytes \<Rightarrow> ('s, unit) pgo" where
  "pg_handleQuery E payload =
     (let query = strip_zero payload; queryUpper = ToUpper (TrimSpace query)
      in if Contains queryUpper ''PG_TQDB_STATUS'' then pg_handleShowTQDBStatus E
         else next_do (track_transaction queryUpper) (pg_run_query E (Parse query)))"

section \<open>The extended query protocol\<close>

definition handleParse :: "'s penv \<Rightarrow> bytes \<Rightarrow> ('s, unit) pgo" where
  "handleParse E payload =
     (case parse_Parse payload of
        Inl e \<Rightarrow> raise (ErrMsg e)
      | Inr (stmtName, query) \<Rightarrow>
          next_do (modify (\<lambda>c. c\<lparr>st_preparedStatements := mset_key (st_preparedStatements c) stmtName query\<rparr>))
            (writeMessage E msgParseComplete []))"

text \<open>\<^verbatim>\<open>%c\<close> of a byte: the UTF-8 encoding of the code point.\<close>

definition rune_text :: "byte \<Rightarrow> string" where
  "rune_text b = (if unat b < 128 then [char_of_byte b]
     else [char_of (192 + unat b div 64 :: nat), char_of (128 + unat b mod 64 :: nat)])"

definition handleDescribe :: "'s penv \<Rightarrow> bytes \<Rightarrow> ('s, unit) pgo" where
  "handleDescribe E payload =
     (if length payload < 2 then raise (ErrMsg ''malformed Describe message: too short'')
      else case cut_zero (drop 1 payload) of
        None \<Rightarrow> raise (ErrMsg ''malformed Describe message: no name terminator'')
      | Some (nameBytes, _) \<Rightarrow>
          let descType = hd payload; name = string_of nameBytes
          in if descType = 0x53 then
               andthen (gets (\<lambda>c. mget (st_preparedStatements c) name)) (\<lambda>found.
                 case found of
                   None \<Rightarrow> raise (ErrMsg (''unknown prepared statement: '' @ name))
                 | Some query \<Rightarrow>
                     andthen (or_panic (param_description (countPostgresParams query))) (\<lambda>paramDesc.
                       next_do (writeMessage E msgParameterDescription paramDesc)
                         (case returning_column query of
                            Some colName \<Rightarrow> writeMessage E msgRowDescription (returning_description colName)
                          | None \<Rightarrow> writeMessage E msgNoData [])))
             else if descType = 0x50 then writeMessage E msgNoData []
             else raise (ErrMsg (''unknown describe type: '' @ rune_text descType)))"

definition handleBind :: "'s penv \<Rightarrow> bytes \<Rightarrow> ('s, unit) pgo" where
  "handleBind E payload =
     (case cut_zero payload of
        None \<Rightarrow> raise (ErrMsg ''malformed Bind message: no portal name terminator'')
      | Some (portalBytes, rest) \<Rightarrow>
          (case cut_zero rest of
             None \<Rightarrow> raise (ErrMsg ''malformed Bind message: no statement name terminator'')
           | Some (stmtBytes, rest1) \<Rightarrow>
               let portalName = string_of portalBytes; stmtName = string_of stmtBytes
               in andthen (gets (\<lambda>c. mget (st_preparedStatements c) stmtName)) (\<lambda>found.
                    if found = None then raise (ErrMsg (''unknown prepared statement: '' @ stmtName))
                    else case bind_values rest1 of
                           Inl e \<Rightarrow> raise (ErrMsg e)
                         | Inr params \<Rightarrow>
                             next_do (modify (\<lambda>c. c\<lparr>st_portalStatements := mset_key (st_portalStatements c) portalName stmtName,
                                               st_boundParams := mset_key (st_boundParams c) portalName params\<rparr>))
                               (writeMessage E msgBindComplete []))))"

definition portal_key :: "'s penv \<Rightarrow> string \<Rightarrow> ParsedQuery \<Rightarrow> govalue list \<Rightarrow> string option" where
  "portal_key E database parsed params =
     (if IsCacheable parsed \<and> params \<noteq> []
      then Some (''ps:'' @ pe_sha1_hex E (bytes_of (database @ pq_Query parsed @ concat (map value_text params))))
      else None)"

definition pg_batched_execute :: "'s penv \<Rightarrow> ParsedQuery \<Rightarrow> govalue list \<Rightarrow> ('s, unit) pgo" where
  "pg_batched_execute E parsed params = andthen pg_next (\<lambda>n.
     let result = pe_Enqueue E n (GetBatchKey parsed) (pq_Query parsed) params (pq_BatchMs parsed)
     in next_do (pg_record E (batch_calls (pg_labels parsed)))
       (case res_Error result of
          Some e \<Rightarrow> raise (ErrMsg e)
        | None \<Rightarrow> next_do (note_batch result)
            (pg_Write E (case res_ReturningValues result of
               v # _ \<Rightarrow> returned_int32 v @ command_complete ''INSERT 0 1''
             | [] \<Rightarrow> command_complete (''INSERT 0 '' @ Itoa (res_AffectedRows result))))))"

definition pg_execute_fetch :: "'s penv \<Rightarrow> ParsedQuery \<Rightarrow> govalue list \<Rightarrow> string option \<Rightarrow> ('s, unit) pgo" where
  "pg_execute_fetch E parsed params cacheKey =
     andthen (pg_fetch_rows E parsed params cacheKey) (\<lambda>(name, rows).
       let response = rows_response ''INSERT 0 1'' (rs_Columns rows) (rs_rows rows)
       in next_do (pg_served name False)
            (next_do (pg_record E (database_calls name (pg_labels parsed)))
              (next_do (pg_store E cacheKey response (pq_TTL parsed)) (pg_Write E response))))"

definition pg_execute_uncached :: "'s penv \<Rightarrow> ParsedQuery \<Rightarrow> govalue list \<Rightarrow> string option \<Rightarrow> ('s, unit) pgo" where
  "pg_execute_uncached E parsed params cacheKey = andthen (gets (pg_batches parsed)) (\<lambda>batched.
     if batched then pg_batched_execute E parsed params else pg_execute_fetch E parsed params cacheKey)"

definition execute_portal :: "'s penv \<Rightarrow> ParsedQuery \<Rightarrow> govalue list \<Rightarrow> ('s, unit) pgo" where
  "execute_portal E parsed params = andthen (gets (\<lambda>c. portal_key E (st_database c) parsed params)) (\<lambda>cacheKey.
     case cacheKey of
       None \<Rightarrow> pg_execute_uncached E parsed params None
     | Some key \<Rightarrow> andthen (pg_cache (\<lambda>ch. Get (pe_tq E) ch key)) (\<lambda>res.
         case flagged_answer res of
           Some (name, cached) \<Rightarrow> next_do (pg_record E (hit_calls (pg_labels parsed)))
             (next_do (pg_served name True) (ignore (pg_Write E cached)))
         | None \<Rightarrow> next_do (pg_record E (miss_calls (pg_labels parsed))) (pg_execute_uncached E parsed params (Some key))))"

definition pg_handleExecute :: "'s penv \<Rightarrow> bytes \<Rightarrow> ('s, unit) pgo" where
  "pg_handleExecute E payload =
     (case cut_zero payload of
        None \<Rightarrow> raise (ErrMsg ''malformed Execute message: no portal name terminator'')
      | Some (portalBytes, _) \<Rightarrow>
          let portalName = string_of portalBytes
          in andthen (gets id) (\<lambda>c.
               let params = (case mget (st_boundParams c) portalName of Some ps \<Rightarrow> ps | None \<Rightarrow> []);
                   stmtName = (case mget (st_portalStatements c) portalName of Some n \<Rightarrow> n | None \<Rightarrow> [])
               in case mget (st_preparedStatements c) stmtName of
                    None \<Rightarrow> raise (ErrMsg (''no prepared statement for portal: '' @ portalName @ '' (statement: '' @ stmtName @ '')''))
                  | Some query \<Rightarrow> execute_portal E (Parse query) params))"

definition handleClose :: "'s penv \<Rightarrow> bytes \<Rightarrow> ('s, unit) pgo" where
  "handleClose E payload =
     (if length payload < 2 then ignore (writeMessage E msgCloseComplete [])
      else let closeType = hd payload; name = close_name payload
           in next_do (if closeType = 0x53 then modify (\<lambda>c. c\<lparr>st_preparedStatements := mdelete (st_preparedStatements c) name\<rparr>)
                       else if closeType = 0x50 then modify (\<lambda>c. c\<lparr>st_boundParams := mdelete (st_boundParams c) name\<rparr>)
                       else ret ())
                (ignore (writeMessage E msgCloseComplete [])))"

section \<open>The loop\<close>

text \<open>The error of a handler is sent to the client, for Parse and Bind with a ReadyForQuery message.\<close>

definition report :: "'s penv \<Rightarrow> bool \<Rightarrow> ('s, unit) pgo \<Rightarrow> ('s, unit) pgo" where
  "report E ready m = andthen (attempt m) (\<lambda>r.
     case r of
       Inr _ \<Rightarrow> ret ()
     | Inl err \<Rightarrow> next_do (sendError E ''42000'' (error_text err)) (if ready then sendReady E else ret ()))"

definition pg_dispatch :: "'s penv \<Rightarrow> byte \<Rightarrow> bytes \<Rightarrow> ('s, unit) pgo" where
  "pg_dispatch E msgType payload =
     (if msgType = msgQuery then pg_handleQuery E payload
      else if msgType = msgParse then report E True (handleParse E payload)
      else if msgType = msgBind then report E True (handleBind E payload)
      else if msgType = msgDescribe then report E False (handleDescribe E payload)
      else if msgType = msgExecute then report E False (pg_handleExecute E payload)
      else if msgType = msgClose then handleClose E payload
      else sendReady E)"

end
