(* ===== verification/Pg_Steps.thy ===== *)
theory Pg_Steps
  imports Pg_Handlers
begin

text \<open>
  What the handlers of the PostgreSQL proxy keep, the loop over the messages of a client, and a whole connection. A
  chain of locales lifts a relation from the elementary changes of a connection to all handlers.
\<close>

section \<open>What all handlers respect\<close>

text \<open>Changes of the fields that no invariant depends on: the output, the statements and portals, the transaction flag
  and the data of the status.\<close>

definition pg_quiet :: "'s pgConn \<Rightarrow> 's pgConn \<Rightarrow> bool" where
  "pg_quiet c c' \<longleftrightarrow> pg_in c' = pg_in c \<and> pg_open c' = pg_open c \<and> pg_sent c' = pg_sent c \<and> st_pool c' = st_pool c \<and>
     st_user c' = st_user c \<and> st_password c' = st_password c \<and> st_database c' = st_database c \<and>
     st_primaryDB c' = st_primaryDB c \<and> st_replicaDBs c' = st_replicaDBs c \<and> pg_proxy c' = pg_proxy c"

lemma pg_next_run [simp]: "pg_next c = (Ok (pg_tick c), c\<lparr>pg_tick := pg_tick c + 1\<rparr>)"
  by (simp add: pg_next_def)

text \<open>Answers to the client.\<close>

locale pg_answering = step_relation R
  for R :: "'s pgConn \<Rightarrow> 's pgConn \<Rightarrow> bool" +
  fixes E :: "'s penv"
  assumes quiet_step: "pg_quiet c c' \<Longrightarrow> R c c'"
begin

lemma steps_quiet: "(\<And>c. pg_quiet c (f c)) \<Longrightarrow> steps R (modify f)"
  by (intro steps_modify quiet_step)

lemma steps_next: "steps R pg_next"
  by (rule stepsI) (simp add: quiet_step pg_quiet_def)

lemma steps_Write: "steps R (pg_Write E bs)"
  unfolding pg_Write_def by (intro rules steps_next steps_quiet) (simp add: pg_quiet_def)

lemma steps_writeMessage: "steps R (writeMessage E t p)"
  unfolding writeMessage_def by (intro rules steps_Write)

lemma steps_sends: "steps R (sendError E code m)" "steps R (sendFatalError E code m)" "steps R (sendReady E)"
    "steps R (sendParameterStatus E n v)"
  unfolding sendError_def sendFatalError_def sendErrorWithSeverity_def sendReady_def sendParameterStatus_def
  by (intro rules steps_writeMessage)+

lemma steps_record: "steps R (pg_record E calls)"
  unfolding pg_record_def by (intro rules steps_quiet) (simp add: pg_quiet_def)

lemma steps_served: "steps R (pg_served n h)"
  unfolding pg_served_def by (rule steps_quiet) (simp add: pg_quiet_def)

lemmas answer_steps = steps_next steps_Write steps_writeMessage steps_sends steps_record steps_served

lemma steps_status: "steps R (pg_handleShowTQDBStatus E)"
  unfolding pg_handleShowTQDBStatus_def by (intro rules answer_steps)

lemma steps_track: "steps R (track_transaction u)"
  unfolding track_transaction_def by (intro rules steps_quiet) (simp_all add: pg_quiet_def)

lemma steps_note_batch: "steps R (note_batch res)"
  unfolding note_batch_def by (intro rules answer_steps steps_quiet) (simp add: pg_quiet_def)

lemma steps_batched_query: "steps R (pg_batched_query E q)"
  unfolding pg_batched_query_def by (intro rules answer_steps steps_note_batch)

lemma steps_batched_execute: "steps R (pg_batched_execute E q ps)"
  unfolding pg_batched_execute_def by (intro rules answer_steps steps_note_batch)

lemma steps_handleParse: "steps R (handleParse E p)"
  unfolding handleParse_def by (intro rules answer_steps steps_quiet) (simp add: pg_quiet_def)

lemma steps_handleDescribe: "steps R (handleDescribe E p)"
  unfolding handleDescribe_def by (intro rules answer_steps)

lemma steps_handleBind: "steps R (handleBind E p)"
  unfolding handleBind_def by (intro rules answer_steps steps_quiet) (simp add: pg_quiet_def)

lemma steps_handleClose: "steps R (handleClose E p)"
  unfolding handleClose_def by (intro rules answer_steps steps_quiet) (simp_all add: pg_quiet_def)

lemma steps_report: "steps R m \<Longrightarrow> steps R (report E b m)"
  unfolding report_def by (intro rules answer_steps)

end

text \<open>The use of the cache.\<close>

locale pg_caching = pg_answering R E
  for R :: "'s pgConn \<Rightarrow> 's pgConn \<Rightarrow> bool" and E :: "'s penv" +
  assumes cache_step: "R c (c\<lparr>pg_proxy := (pg_proxy c)\<lparr>pp_cache := ch\<rparr>\<rparr>)"
begin

lemma steps_cache: "steps R (pg_cache f)"
  unfolding pg_cache_def by (intro rules steps_modify cache_step)

lemma steps_cache_update: "steps R (pg_cache_update f)"
  unfolding pg_cache_update_def by (intro rules steps_modify cache_step)

lemma steps_cached_answer: "steps R (pg_cached_answer E q)"
  unfolding pg_cached_answer_def by (intro rules steps_cache steps_record)

lemma steps_store: "steps R (pg_store E k r ttl)"
  unfolding pg_store_def by (intro rules steps_cache_update)

end

text \<open>All handlers, for a relation that the queries of clients respect.\<close>

locale pg_handling = pg_caching R E
  for R :: "'s pgConn \<Rightarrow> 's pgConn \<Rightarrow> bool" and E :: "'s penv" +
  assumes fetch_rows_step: "steps R (pg_fetch_rows E (Parse s) ps k)"
begin

lemma steps_fetch: "steps R (pg_fetch E (Parse s))"
  unfolding pg_fetch_def by (intro rules fetch_rows_step answer_steps steps_store)

lemma steps_run_query: "steps R (pg_run_query E (Parse s))"
  unfolding pg_run_query_def pg_uncached_def
  by (intro rules steps_cached_answer answer_steps steps_batched_query steps_fetch)

lemma steps_handleQuery: "steps R (pg_handleQuery E p)"
  unfolding pg_handleQuery_def by (intro rules steps_status steps_track steps_run_query)

lemma steps_execute_portal: "steps R (execute_portal E (Parse s) ps)"
  unfolding execute_portal_def pg_execute_uncached_def pg_execute_fetch_def
  by (intro rules steps_cache answer_steps steps_batched_execute fetch_rows_step steps_store)

lemma steps_handleExecute: "steps R (pg_handleExecute E p)"
  unfolding pg_handleExecute_def by (intro rules steps_execute_portal)

lemma steps_dispatch: "steps R (pg_dispatch E t p)"
  unfolding pg_dispatch_def
  by (intro rules steps_handleQuery steps_report steps_handleParse steps_handleBind steps_handleDescribe
      steps_handleExecute steps_handleClose answer_steps)

end

text \<open>A query to a database: the pool moves on to its next replica, a handle for a replica is opened and kept, the query is
  sent.\<close>

locale pg_querying = pg_answering R E
  for R :: "'s pgConn \<Rightarrow> 's pgConn \<Rightarrow> bool" and E :: "'s penv" +
  assumes replica_step: "GetReplica (pg_pool_at (st_pool c) c) = Inr (p', res) \<Longrightarrow>
      R c (c\<lparr>pg_proxy := (pg_proxy c)\<lparr>pp_heap := update_pool (pp_heap (pg_proxy c)) (st_pool c) p'\<rparr>\<rparr>)"
    and adopt_step: "mget (st_replicaDBs c) addr = None \<Longrightarrow>
      db_dsn db = pg_dsn addr (st_user c) (st_password c) (st_database c) \<Longrightarrow>
      R c (c\<lparr>pg_tick := n, pg_open := db # pg_open c, st_replicaDBs := mset_key (st_replicaDBs c) addr db\<rparr>)"
    and sent_step: "R c (c\<lparr>pg_tick := n, pg_sent := pg_sent c @ [x]\<rparr>)"
begin

lemma steps_GetReplica: "steps R pg_GetReplica"
proof (rule stepsI)
  fix c
  show "R c (snd (pg_GetReplica c))"
    by (cases "GetReplica (pg_pool_at (st_pool c) c)")
      (auto simp: pg_GetReplica_def R_refl dest: replica_step split: prod.splits)
qed

lemma adopt_replica:
  "steps R (andthen (gets (\<lambda>c. mget (st_replicaDBs c) addr)) (\<lambda>rdb.
     case rdb of
       Some db \<Rightarrow> ret (db, name)
     | None \<Rightarrow>
         andthen (gets id) (\<lambda>c.
           andthen (attempt (connectToBackend E addr (st_user c) (st_password c) (st_database c))) (\<lambda>r.
             case r of
               Inl err \<Rightarrow> pg_primary name
             | Inr db \<Rightarrow>
                 next_do (modify (\<lambda>c. c\<lparr>st_replicaDBs := mset_key (st_replicaDBs c) addr db\<rparr>))
                   (ret (db, name))))))" (is "steps R ?m")
proof (rule stepsI)
  fix c
  have tick: "R c (c\<lparr>pg_tick := Suc (pg_tick c)\<rparr>)"
    by (simp add: quiet_step pg_quiet_def)
  show "R c (snd (?m c))"
    by (cases "mget (st_replicaDBs c) addr";
        cases "pe_Open E (pg_tick c) (pg_dsn addr (st_user c) (st_password c) (st_database c))")
      (simp_all add: connectToBackend_def Let_def pg_primary_def R_refl tick adopt_step)
qed

lemma steps_select_db: "steps R (pg_select_db E q)"
  unfolding pg_select_db_def pg_primary_def
  by (intro rules steps_GetReplica adopt_replica [unfolded pg_primary_def])

lemma steps_db_Query: "steps R (db_Query E db q ps)"
proof (rule stepsI)
  fix c
  show "R c (snd (db_Query E db q ps c))"
    by (cases "pe_Query E (pg_tick c) db q ps") (simp_all add: db_Query_def sent_step)
qed

end

text \<open>A relation that all of these respect is respected by the queries of clients, and so by all handlers.\<close>

locale pg_relation = pg_querying R E + pg_caching R E
  for R :: "'s pgConn \<Rightarrow> 's pgConn \<Rightarrow> bool" and E :: "'s penv"
begin

lemma steps_fetch_rows: "steps R (pg_fetch_rows E q ps k)"
  unfolding pg_fetch_rows_def by (intro rules steps_select_db steps_db_Query steps_cache_update)

end

sublocale pg_relation \<subseteq> pg_handling
  by unfold_locales (rule steps_fetch_rows)

section \<open>The loop\<close>

text \<open>The handlers leave the client's stream alone, and reading a message takes at least five bytes from it.\<close>

interpretation pg_stream: pg_relation "\<lambda>c c'. pg_in c' = pg_in c" E for E
  by unfold_locales (auto simp: pg_quiet_def)

lemma pg_read_Ok: "pg_read n c = (Ok bs, c') \<Longrightarrow> pg_in c = bs @ pg_in c' \<and> length bs = n"
  by (auto simp: pg_read_def elim!: andthen_cases split: option.splits dest!: read_full_Some)

lemma readMessage_Ok: "readMessage c = (Ok m, c') \<Longrightarrow> length (pg_in c) = 5 + length (snd m) + length (pg_in c')"
  by (auto simp: readMessage_def elim!: andthen_cases dest!: pg_read_Ok)

function handleMessages :: "'s penv \<Rightarrow> ('s, unit) pgo" where
  "handleMessages E c = (case readMessage c of
     (Err e, c1) \<Rightarrow> (Ok (), c1)
   | (Panic p, c1) \<Rightarrow> (Panic p, c1)
   | (Ok (msgType, payload), c1) \<Rightarrow>
       if msgType = msgTerminate then (Ok (), c1)
       else andthen (pg_dispatch E msgType payload) (\<lambda>_ c2. handleMessages E c2) c1)"
  by pat_completeness auto
termination
proof (relation "measure (\<lambda>(E, c). length (pg_in c))")
  fix E :: "'s penv" and c c1 c2 :: "'s pgConn" and r m t payload u
  assume "(r, c1) = readMessage c" "r = Ok m" "(t, payload) = m" "pg_dispatch E t payload c1 = (Ok u, c2)"
  then have "length (pg_in c1) < length (pg_in c)" "pg_in c2 = pg_in c1"
    using readMessage_Ok [of c m c1] stepsD [OF pg_stream.steps_dispatch] by (simp, blast)
  then show "((E, c2), E, c) \<in> measure (\<lambda>(E, c). length (pg_in c))" by simp
qed simp

declare handleMessages.simps [simp del]

section \<open>A connection\<close>

text \<open>The state before the startup message is read; the fields of \<^verbatim>\<open>connState\<close> are set after the handshake.\<close>

definition pg_start :: "'s pgProxy \<Rightarrow> bytes \<Rightarrow> 32 word \<Rightarrow> 's pgConn" where
  "pg_start px client connID =
     \<lparr>pg_proxy = px, pg_in = client, pg_out = [], pg_sent = [], pg_tick = 0, pg_open = [], pg_metrics = [], pg_connID = connID,
      st_lastBackend = [], st_shard = [], st_lastCacheHit = False, st_pool = 0, st_user = [], st_password = [], st_database = [],
      st_primaryDB = \<lparr>db_num = 0, db_dsn = []\<rparr>, st_replicaDBs = [], st_preparedStatements = [], st_boundParams = [],
      st_portalStatements = [], st_writeBatch = False, st_inTransaction = False, st_lastBatchSize = 0\<rparr>"

text \<open>The startup message; a request for SSL is denied and followed by another one.\<close>

definition is_ssl_request :: "bytes \<Rightarrow> bool" where
  "is_ssl_request msg = (if length msg = 8 then (of_nat (be_nat (drop 4 msg)) :: 32 word) = 80877103 else False)"

definition pg_startup :: "'s penv \<Rightarrow> ('s, bytes) pgo" where
  "pg_startup E = andthen readStartupMessage (\<lambda>startupMsg.
     if is_ssl_request startupMsg
     then next_do (pg_Write E [0x4E]) readStartupMessage
     else ret startupMsg)"

text \<open>User, password and database of the client; \<open>None\<close> when it did not send a password.\<close>

definition pg_credentials :: "'s penv \<Rightarrow> ('s, (string \<times> string \<times> string) option) pgo" where
  "pg_credentials E = andthen (pg_startup E) (\<lambda>startupMsg.
     let params = parseStartupParams startupMsg;
         user = param params ''user'';
         database = (if param params ''database'' = [] then user else param params ''database'')
     in next_do (ignore (writeMessage E msgAuthentication [0, 0, 0, 3]))
          (andthen readMessage (\<lambda>(msgType, payload).
             if msgType \<noteq> msgPassword then next_do (sendError E ''08P01'' ''expected password message'') (ret None)
             else ret (Some (user, strip_zero payload, database)))))"

definition pg_greeting :: "'s penv \<Rightarrow> ('s, unit) pgo" where
  "pg_greeting E =
     next_do (ignore (writeMessage E msgAuthentication [0, 0, 0, 0]))
       (next_do (sendParameterStatus E ''server_version'' ''16.0'')
         (next_do (sendParameterStatus E ''client_encoding'' ''UTF8'')
           (next_do (sendParameterStatus E ''DateStyle'' ''ISO, MDY'')
             (next_do (sendParameterStatus E ''TimeZone'' ''UTC'')
               (andthen (gets pg_connID) (\<lambda>connID.
                 next_do (ignore (writeMessage E msgBackendKeyData (be_bytes 4 (unat connID) @ be_bytes 4 12345)))
                   (sendReady E)))))))"

definition set_state :: "string \<Rightarrow> nat \<Rightarrow> string \<Rightarrow> string \<Rightarrow> string \<Rightarrow> sql_DB \<Rightarrow> 's pgConn \<Rightarrow> 's pgConn" where
  "set_state backendName pool user password database db c =
     c\<lparr>st_lastBackend := [], st_shard := backendName, st_lastCacheHit := False, st_pool := pool, st_user := user,
       st_password := password, st_database := database, st_primaryDB := db, st_replicaDBs := [], st_preparedStatements := [],
       st_boundParams := [], st_portalStatements := [], st_writeBatch := pp_writeBatch (pg_proxy c), st_inTransaction := False,
       st_lastBatchSize := 0\<rparr>"

text \<open>The deferred calls: the handles of the replicas, and the handle of the primary.\<close>

definition close_replicas :: "'s pgConn \<Rightarrow> 's pgConn" where
  "close_replicas c = c\<lparr>pg_open := filter (\<lambda>d. d \<notin> snd ` set (st_replicaDBs c)) (pg_open c)\<rparr>"

definition close_db :: "sql_DB \<Rightarrow> 's pgConn \<Rightarrow> 's pgConn" where
  "close_db db c = c\<lparr>pg_open := filter (\<lambda>d. d \<noteq> db) (pg_open c)\<rparr>"

definition pg_serve :: "'s penv \<Rightarrow> string \<Rightarrow> nat \<Rightarrow> string \<Rightarrow> string \<Rightarrow> string \<Rightarrow> sql_DB \<Rightarrow> ('s, unit) pgo" where
  "pg_serve E backendName pool user password database db = andthen pg_next (\<lambda>n.
     case pe_Ping E n db of
       Some err \<Rightarrow> sendFatalError E ''28P01'' (if HasPrefix err ''pq: '' then drop 4 err else err)
     | None \<Rightarrow> next_do (pg_greeting E)
         (next_do (modify (set_state backendName pool user password database db))
           (deferring (handleMessages E) close_replicas)))"

definition pg_session :: "'s penv \<Rightarrow> string \<Rightarrow> string \<Rightarrow> string \<Rightarrow> ('s, unit) pgo" where
  "pg_session E user password database =
     andthen (gets (\<lambda>c. shard_name (pp_config (pg_proxy c)) database)) (\<lambda>backendName.
       andthen (gets (\<lambda>c. mget (pp_pools (pg_proxy c)) backendName)) (\<lambda>pool.
         case pool of
           None \<Rightarrow> sendFatalError E ''08006'' ''no backend pool configured''
         | Some a \<Rightarrow> andthen (gets (\<lambda>c. GetPrimary (pg_pool_at a c))) (\<lambda>addr.
             andthen (attempt (connectToBackend E addr user password database)) (\<lambda>r.
               case r of
                 Inl err \<Rightarrow> sendError E ''08006'' (''cannot connect to backend: '' @ error_text err)
               | Inr db \<Rightarrow> deferring (pg_serve E backendName a user password database db) (close_db db)))))"

definition pg_connection :: "'s penv \<Rightarrow> ('s, unit) pgo" where
  "pg_connection E = ignore (andthen (pg_credentials E) (\<lambda>credentials.
     case credentials of
       None \<Rightarrow> ret ()
     | Some (user, password, database) \<Rightarrow> pg_session E user password database))"

definition pg_handleConnection :: "'s penv \<Rightarrow> 's pgProxy \<Rightarrow> bytes \<Rightarrow> 32 word \<Rightarrow> unit outcome \<times> 's pgConn" where
  "pg_handleConnection E px client connID = pg_connection E (pg_start px client connID)"

context pg_handling
begin

lemma steps_handleMessages:
  assumes read_step: "\<And>c bs. R c (c\<lparr>pg_in := bs\<rparr>)"
  shows "steps R (handleMessages E)"
proof -
  have rd: "steps R (pg_read n)" for n
    unfolding pg_read_def by (intro rules steps_modify read_step)
  have rm: "steps R readMessage"
    unfolding readMessage_def by (intro rules rd)
  have "R c (snd (handleMessages E c))" for c
  proof (induction "length (pg_in c)" arbitrary: c rule: less_induct)
    case less
    obtain r c1 where m: "readMessage c = (r, c1)" by (cases "readMessage c")
    have c1: "R c c1" using stepsD [OF rm m] .
    show ?case
    proof (cases "\<exists>t p. r = Ok (t, p) \<and> t \<noteq> msgTerminate")
      case True
      then obtain t p where r: "r = Ok (t, p)" "t \<noteq> msgTerminate" by blast
      obtain r2 u where run: "andthen (pg_dispatch E t p) (\<lambda>_. handleMessages E) c1 = (r2, u)"
        by (cases "andthen (pg_dispatch E t p) (\<lambda>_. handleMessages E) c1")
      then have "R c1 u"
      proof (cases rule: andthen_cases)
        case (Ok x c2)
        have "length (pg_in c2) < length (pg_in c)"
          using readMessage_Ok [of c "(t, p)" c1] m r stepsD [OF pg_stream.steps_dispatch Ok(1)] by simp
        from less [OF this] Ok(2) have "R c2 u" by simp
        with stepsD [OF steps_dispatch Ok(1)] show ?thesis by (rule R_trans)
      qed (auto dest: stepsD [OF steps_dispatch])
      with c1 have "R c u" by (rule R_trans)
      then show ?thesis
        using m r run by (simp add: handleMessages.simps [of E c])
    next
      case False
      then show ?thesis
        using m c1 by (cases r) (auto simp: handleMessages.simps [of E c])
    qed
  qed
  then show ?thesis by (rule stepsI)
qed

end

end
