(* ===== verification/Pg_Session.thy ===== *)
theory Pg_Session
  imports Pg_Steps
begin

text \<open>
  The properties of a PostgreSQL connection from the startup message to its end: its messages are handled in order, its
  queries go where they should, and its database handles are closed; with the example that the witnesses use.
\<close>

section \<open>The stream of a client\<close>

definition wire_of :: "(byte \<times> bytes) list \<Rightarrow> bytes" where
  "wire_of msgs = concat (map (\<lambda>(t, p). encodeMessage t p) msgs)"

lemma wire_of_simps [simp]:
  "wire_of [] = []"
  "wire_of ((t, p) # ms) = encodeMessage t p @ wire_of ms"
  by (simp_all add: wire_of_def)

lemma pg_read_append: "pg_in c = p @ s \<Longrightarrow> n = length p \<Longrightarrow> pg_read n c = (Ok p, c\<lparr>pg_in := s\<rparr>)"
  by (simp add: pg_read_def)

lemma readMessage_encoded:
  assumes "pg_in c = encodeMessage t p @ s" and "length p + 4 < 2 ^ 32"
  shows "readMessage c = (Ok (t, p), c\<lparr>pg_in := s\<rparr>)"
proof -
  let ?l = "be_bytes 4 ((length p + 4) mod 2 ^ 32)"
  have "pg_read 1 c = (Ok [t], c\<lparr>pg_in := ?l @ p @ s\<rparr>)"
    using assms(1) by (intro pg_read_append) (simp_all add: encodeMessage_def)
  moreover have "pg_read 4 (c\<lparr>pg_in := ?l @ p @ s\<rparr>) = (Ok ?l, c\<lparr>pg_in := p @ s\<rparr>)"
    by (subst pg_read_append [where p = ?l and s = "p @ s"]) simp_all
  moreover have "pg_read (payload_length ?l) (c\<lparr>pg_in := p @ s\<rparr>) = (Ok p, c\<lparr>pg_in := s\<rparr>)"
    by (subst pg_read_append [where p = p and s = s]) (simp_all only: payload_length_encoded [OF assms(2)], simp_all)
  ultimately show ?thesis
    by (simp add: readMessage_def)
qed

text \<open>The messages one after the other, each with the rest of the stream still to be read.\<close>

fun run_messages :: "'s penv \<Rightarrow> (byte \<times> bytes) list \<Rightarrow> bytes \<Rightarrow> ('s, unit) pgo" where
  "run_messages E [] rest = modify (\<lambda>c. c\<lparr>pg_in := rest\<rparr>)"
| "run_messages E ((t, p) # ms) rest =
     next_do (modify (\<lambda>c. c\<lparr>pg_in := wire_of ms @ encodeMessage msgTerminate [] @ rest\<rparr>))
       (next_do (pg_dispatch E t p) (run_messages E ms rest))"

text \<open>C16: The loop of a connection handles the messages of its client one by one, in their order, and stops at the Terminate
  message: a stream that consists of the encodings of messages is the run of their handlers. What follows the
  Terminate message is not read.\<close>

theorem messages_handled_in_order:
  assumes "\<forall>(t, p) \<in> set msgs. t \<noteq> msgTerminate \<and> length p + 4 < 2 ^ 32"
    and "pg_in c = wire_of msgs @ encodeMessage msgTerminate [] @ rest"
  shows "handleMessages E c = run_messages E msgs rest c"
  using assms
proof (induction msgs arbitrary: c)
  case Nil
  then have "readMessage c = (Ok (msgTerminate, []), c\<lparr>pg_in := rest\<rparr>)"
    by (intro readMessage_encoded) simp_all
  then show ?case by (simp add: handleMessages.simps [of E c])
next
  case (Cons m msgs)
  obtain t p where m: "m = (t, p)" by (cases m)
  let ?rest = "wire_of msgs @ encodeMessage msgTerminate [] @ rest"
  let ?c = "c\<lparr>pg_in := ?rest\<rparr>"
  have rd: "readMessage c = (Ok (t, p), ?c)"
    using Cons.prems m by (intro readMessage_encoded) simp_all
  have t: "t \<noteq> msgTerminate" using Cons.prems(1) m by simp
  obtain r c1 where d: "pg_dispatch E t p ?c = (r, c1)" by (cases "pg_dispatch E t p ?c")
  show ?case
  proof (cases r)
    case (Ok u)
    have "pg_in c1 = ?rest"
      using stepsD [OF pg_stream.steps_dispatch d] by simp
    then have "handleMessages E c1 = run_messages E msgs rest c1"
      using Cons by simp
    then show ?thesis
      using rd t d Ok m by (simp add: handleMessages.simps [of E c])
  qed (use rd t d m in \<open>simp_all add: handleMessages.simps [of E c]\<close>)
qed

section \<open>Handles\<close>

text \<open>Every open handle is the primary's or that of a replica which the connection keeps.\<close>

definition held :: "'s pgConn \<Rightarrow> bool" where
  "held c \<longleftrightarrow> set (pg_open c) \<subseteq> insert (st_primaryDB c) (snd ` set (st_replicaDBs c))"

lemma set_mset_key_new: "mget m k = None \<Longrightarrow> set (mset_key m k v) = insert (k, v) (set m)"
  by (induction m) (auto simp: mget_def mset_key_def split: if_splits)

interpretation holding: pg_relation "\<lambda>c c'. st_primaryDB c' = st_primaryDB c \<and> (held c \<longrightarrow> held c')" E for E
  by unfold_locales (auto simp: pg_quiet_def held_def set_mset_key_new)

text \<open>The handshake neither opens handles nor sends queries.\<close>

definition untouched :: "'s pgConn \<Rightarrow> 's pgConn \<Rightarrow> bool" where
  "untouched c c' \<longleftrightarrow> pg_open c' = pg_open c \<and> pg_sent c' = pg_sent c \<and> pg_proxy c' = pg_proxy c"

interpretation calm: pg_answering untouched E for E
  by unfold_locales (auto simp: pg_quiet_def untouched_def)

lemma calm_read: "steps untouched (pg_read n)"
  unfolding pg_read_def by (intro calm.rules calm.steps_modify) (simp_all add: untouched_def)

lemma calm_credentials: "steps untouched (pg_credentials E)"
  unfolding pg_credentials_def pg_startup_def readStartupMessage_def readMessage_def
  by (intro calm.rules calm.answer_steps calm_read)

lemma calm_greeting: "steps untouched (pg_greeting E)"
  unfolding pg_greeting_def by (intro calm.rules calm.answer_steps)

text \<open>A session, as its handshake goes: it ends with nothing opened and nothing sent, or a handle for the primary is opened and,
  when the database answers, the messages are handled with it.\<close>

lemma session_cases [consumes 1, case_names Ended Refused Served]:
  assumes "pg_session E user password database c = (r, t)"
  obtains "untouched c t"
  | a db c1 where "mget (pp_pools (pg_proxy c)) (shard_name (pp_config (pg_proxy c)) database) = Some a"
      "db = \<lparr>db_num = pg_tick c, db_dsn = pg_dsn (GetPrimary (pg_pool_at a c)) user password database\<rparr>"
      "untouched (c\<lparr>pg_open := db # pg_open c\<rparr>) c1" "t = close_db db c1"
  | a db c1 c2 where "mget (pp_pools (pg_proxy c)) (shard_name (pp_config (pg_proxy c)) database) = Some a"
      "db = \<lparr>db_num = pg_tick c, db_dsn = pg_dsn (GetPrimary (pg_pool_at a c)) user password database\<rparr>"
      "untouched (c\<lparr>pg_open := db # pg_open c\<rparr>) c1"
      "handleMessages E (set_state (shard_name (pp_config (pg_proxy c)) database) a user password database db c1) = (r, c2)"
      "t = close_db db (close_replicas c2)"
proof (cases "mget (pp_pools (pg_proxy c)) (shard_name (pp_config (pg_proxy c)) database)")
  case None
  then have "sendFatalError E ''08006'' ''no backend pool configured'' c = (r, t)"
    using assms by (simp add: pg_session_def)
  from that(1) [OF stepsD [OF calm.steps_sends(2) this]] show thesis .
next
  case pool: (Some a)
  let ?b = "shard_name (pp_config (pg_proxy c)) database"
  let ?dsn = "pg_dsn (GetPrimary (pg_pool_at a c)) user password database"
  let ?db = "\<lparr>db_num = pg_tick c, db_dsn = ?dsn\<rparr>"
  let ?c = "c\<lparr>pg_tick := Suc (pg_tick c)\<rparr>"
  show thesis
  proof (cases "pe_Open E (pg_tick c) ?dsn")
    case (Some err)
    then have "sendError E ''08006'' (''cannot connect to backend: '' @ err) ?c = (r, t)"
      using assms pool by (simp add: pg_session_def connectToBackend_def Let_def)
    from that(1) stepsD [OF calm.steps_sends(1) this] show thesis by (simp add: untouched_def)
  next
    case None
    let ?d = "?c\<lparr>pg_open := ?db # pg_open c\<rparr>"
    let ?e = "?d\<lparr>pg_tick := Suc (pg_tick ?d)\<rparr>"
    let ?st = "set_state ?b a user password database ?db"
    have run: "deferring (pg_serve E ?b a user password database ?db) (close_db ?db) ?d = (r, t)"
      using assms pool None by (simp add: pg_session_def connectToBackend_def Let_def)
    show thesis
    proof (cases "pe_Ping E (pg_tick ?d) ?db")
      case (Some err)
      obtain r1 c1 where s: "sendFatalError E ''28P01'' (if HasPrefix err ''pq: '' then drop 4 err else err) ?e = (r1, c1)"
        by (cases "sendFatalError E ''28P01'' (if HasPrefix err ''pq: '' then drop 4 err else err) ?e")
      have "untouched (c\<lparr>pg_open := ?db # pg_open c\<rparr>) c1"
        using stepsD [OF calm.steps_sends(2) s] by (simp add: untouched_def)
      moreover have "t = close_db ?db c1"
        using run Some s by (simp add: deferring_def pg_serve_def)
      ultimately show thesis
        using that(2) pool by blast
    next
      case None
      let ?m = "next_do (pg_greeting E) (next_do (modify ?st) (deferring (handleMessages E) close_replicas))"
      obtain r1 c0 where m: "?m ?e = (r1, c0)" by (cases "?m ?e")
      have rt: "r1 = r" "t = close_db ?db c0"
        using run None m by (simp_all add: deferring_def pg_serve_def)
      have un: "untouched (c\<lparr>pg_open := ?db # pg_open c\<rparr>) c1" if "pg_greeting E ?e = (x, c1)" for x c1
        using stepsD [OF calm_greeting that] by (simp add: untouched_def)
      from m show thesis
      proof (cases rule: andthen_cases)
        case (Ok u c1)
        obtain r2 c2 where h: "handleMessages E (?st c1) = (r2, c2)" by (cases "handleMessages E (?st c1)")
        then have "r2 = r" "t = close_db ?db (close_replicas c2)"
          using Ok(2) rt by (simp_all add: deferring_def)
        with that(3) pool un [OF Ok(1)] h show thesis by blast
      qed (use that(2) pool un rt in blast)+
    qed
  qed
qed

lemma session_handles:
  assumes "pg_session E user password database c = (r, t)" and "pg_open c = []"
  shows "pg_open t = []"
  using assms(1)
proof (cases rule: session_cases)
  case Ended
  with assms(2) show ?thesis by (simp add: untouched_def)
next
  case (Refused a db c1)
  with assms(2) show ?thesis by (simp add: untouched_def close_db_def)
next
  case (Served a db c1 c2)
  let ?c1 = "set_state (shard_name (pp_config (pg_proxy c)) database) a user password database db c1"
  have start: "held ?c1" "st_primaryDB ?c1 = db"
    using Served(3) assms(2) by (simp_all add: held_def set_state_def untouched_def)
  have st: "steps (\<lambda>c c'. st_primaryDB c' = st_primaryDB c \<and> (held c \<longrightarrow> held c')) (handleMessages E)"
    by (rule holding.steps_handleMessages) (simp add: held_def)
  have "held c2" "st_primaryDB c2 = db"
    using stepsD [OF st Served(4)] start by simp_all
  then show ?thesis
    unfolding Served(5) by (auto simp: held_def close_db_def close_replicas_def filter_empty_conv)
qed

lemma connection_cases:
  assumes "pg_handleConnection E px client connID = (r, t)"
  obtains "untouched (pg_start px client connID) t"
  | user password database c1 r1 where "untouched (pg_start px client connID) c1"
      "pg_session E user password database c1 = (r1, t)"
      "pg_credentials E (pg_start px client connID) = (Ok (Some (user, password, database)), c1)"
proof -
  let ?m = "andthen (pg_credentials E) (\<lambda>credentials.
     case credentials of
       None \<Rightarrow> ret ()
     | Some (user, password, database) \<Rightarrow> pg_session E user password database)"
  let ?c = "pg_start px client connID"
  obtain r1 t1 where m: "?m ?c = (r1, t1)" by (cases "?m ?c")
  then have t1: "t1 = t"
    using assms by (cases r1) (simp_all add: pg_handleConnection_def pg_connection_def)
  from m show thesis
  proof (cases rule: andthen_cases)
    case (Ok cr c1)
    have u: "untouched ?c c1"
      using stepsD [OF calm_credentials Ok(1)] .
    show thesis
      using Ok u t1 that by (cases cr) auto
  qed (use that(1) t1 stepsD [OF calm_credentials] in blast)+
qed

text \<open>C15: A connection closes every database handle it has opened, the primary's and those of the replicas, on every path:
  after a failed handshake, when the client goes away or terminates, and after a panic of a handler.\<close>

theorem handles_are_closed:
  "pg_open (snd (pg_handleConnection E px client connID)) = []"
proof -
  obtain r t where run: "pg_handleConnection E px client connID = (r, t)"
    by (cases "pg_handleConnection E px client connID")
  then have "pg_open t = []"
    by (cases rule: connection_cases) (auto simp: untouched_def pg_start_def intro: session_handles)
  then show ?thesis by (simp add: run)
qed

section \<open>The handshake\<close>

lemma message_written: "\<exists>c'. ignore (writeMessage E t p) c = (Ok (), c') \<and> pg_in c' = pg_in c"
  by (cases "pe_write_error E (pg_tick c)"; cases "pe_write_error E (Suc (pg_tick c))"; cases "pe_write_error E (Suc (Suc (pg_tick c)))")
    (simp_all add: writeMessage_def pg_Write_def)

lemma startup_read:
  assumes "pg_in c = startup_message pairs @ s" and "length (startup_message pairs) < 2 ^ 32"
  shows "pg_startup E c = (Ok (startup_message pairs), c\<lparr>pg_in := s\<rparr>)"
proof -
  let ?body = "concat (map (\<lambda>(k, v). bytes_of k @ [0] @ bytes_of v @ [0]) pairs) @ [0 :: byte]"
  let ?l = "be_bytes 4 (length ?body + 8)" and ?p = "[0, 3, 0, 0] @ ?body"
  have msg: "startup_message pairs = ?l @ ?p"
    by (simp add: startup_message_def Let_def)
  have n: "payload_length ?l = length ?p"
    using payload_length_encoded [of "length ?p"] assms(2) unfolding msg by simp
  have "pg_read 4 c = (Ok ?l, c\<lparr>pg_in := ?p @ s\<rparr>)"
    using assms(1) unfolding msg by (intro pg_read_append) simp_all
  moreover have "pg_read (payload_length ?l) (c\<lparr>pg_in := ?p @ s\<rparr>) = (Ok ?p, c\<lparr>pg_in := s\<rparr>)"
    unfolding n by (subst pg_read_append [where p = ?p and s = s]) simp_all
  ultimately have "readStartupMessage c = (Ok (startup_message pairs), c\<lparr>pg_in := s\<rparr>)"
    unfolding readStartupMessage_def msg by (simp only: andthen_run)  simp
  moreover have "\<not> is_ssl_request (startup_message pairs)"
    by (simp add: is_ssl_request_def msg)
  ultimately show ?thesis
    by (simp add: pg_startup_def)
qed

text \<open>The credentials that a client sends are the ones the proxy uses.\<close>

lemma credentials_read:
  assumes pairs: "\<forall>(k, v) \<in> set pairs. k \<noteq> [] \<and> c_string k \<and> c_string v" and "length (startup_message pairs) < 2 ^ 32"
    and "length password + 5 < 2 ^ 32" and "map_of (rev pairs) ''user'' = Some user"
    and "map_of (rev pairs) ''database'' = Some database" and "database \<noteq> []"
  shows "\<exists>c1. pg_credentials E (pg_start px (startup_message pairs @ encodeMessage msgPassword (bytes_of password @ [0]) @ rest) connID) =
      (Ok (Some (user, password, database)), c1) \<and> pg_in c1 = rest"
proof -
  let ?s = "encodeMessage msgPassword (bytes_of password @ [0]) @ rest"
  let ?c = "pg_start px (startup_message pairs @ ?s) connID"
  have st: "pg_startup E ?c = (Ok (startup_message pairs), ?c\<lparr>pg_in := ?s\<rparr>)"
    using assms(2) by (intro startup_read) (simp_all add: pg_start_def)
  obtain c' where w: "ignore (writeMessage E msgAuthentication [0, 0, 0, 3]) (?c\<lparr>pg_in := ?s\<rparr>) = (Ok (), c')" "pg_in c' = ?s"
    using message_written [of E msgAuthentication "[0, 0, 0, 3]" "?c\<lparr>pg_in := ?s\<rparr>"] by auto
  have r: "readMessage c' = (Ok (msgPassword, bytes_of password @ [0]), c'\<lparr>pg_in := rest\<rparr>)"
    using assms(3) by (intro readMessage_encoded) (simp_all add: w(2))
  have "drop 8 (startup_message pairs) = concat (map (\<lambda>(k, v). bytes_of k @ [0] @ bytes_of v @ [0]) pairs) @ [0]"
    by (simp add: startup_message_def Let_def)
  then have "parseStartupParams (startup_message pairs) = foldl (\<lambda>m (k, v). mset_key m k v) [] pairs"
    using startup_pairs_encoded [OF pairs, of "[]"] by (simp add: parseStartupParams_def) (simp add: startup_message_def Let_def)
  then have u: "param (parseStartupParams (startup_message pairs)) ''user'' = user"
    "param (parseStartupParams (startup_message pairs)) ''database'' = database"
    using assms(4,5) by (simp_all add: param_def mget_pairs)
  have "strip_zero (bytes_of password @ [0]) = password"
    by (simp add: strip_zero_def)
  with st w r u assms(6) show ?thesis
    by (simp add: pg_credentials_def Let_def)
qed

section \<open>Where queries go\<close>

text \<open>The handle of a replica was opened for its address with the credentials of the client, and the pools are well formed.\<close>

definition pg_ok :: "'s pgConn \<Rightarrow> bool" where
  "pg_ok c \<longleftrightarrow> (\<forall>addr db. mget (st_replicaDBs c) addr = Some db \<longrightarrow>
       db_dsn db = pg_dsn addr (st_user c) (st_password c) (st_database c)) \<and>
     (\<forall>a. pool_ok (pg_pool_at a c))"

text \<open>What may be sent to another database than the primary: a cacheable query, to a replica that is up.\<close>

definition replica_query :: "'s pgConn \<Rightarrow> sql_DB \<Rightarrow> string \<Rightarrow> bool" where
  "replica_query c db query \<longleftrightarrow> (\<exists>s addr. query = pq_Query (Parse s) \<and> IsCacheable (Parse s) \<and>
     IsHealthy (pg_pool_at (st_pool c) c) addr \<and> db_dsn db = pg_dsn addr (st_user c) (st_password c) (st_database c))"

definition same_target :: "'s pgConn \<Rightarrow> 's pgConn \<Rightarrow> bool" where
  "same_target c c' \<longleftrightarrow> st_primaryDB c' = st_primaryDB c \<and> st_pool c' = st_pool c \<and> st_user c' = st_user c \<and>
     st_password c' = st_password c \<and> st_database c' = st_database c \<and>
     (pg_ok c \<longrightarrow> pg_ok c' \<and> IsHealthy (pg_pool_at (st_pool c) c') = IsHealthy (pg_pool_at (st_pool c) c))"

definition pg_routed :: "'s pgConn \<Rightarrow> 's pgConn \<Rightarrow> bool" where
  "pg_routed c c' \<longleftrightarrow> same_target c c' \<and> (pg_ok c \<longrightarrow> (\<exists>new. pg_sent c' = pg_sent c @ new \<and>
     (\<forall>(db, query, params) \<in> set new. db = st_primaryDB c \<or> replica_query c db query)))"

lemma replica_query_same: "same_target c c' \<Longrightarrow> pg_ok c \<Longrightarrow> replica_query c' db query = replica_query c db query"
  by (simp add: same_target_def replica_query_def)

lemma pg_routed_refl: "pg_routed c c"
  by (simp add: pg_routed_def same_target_def)

lemma pg_routed_trans:
  assumes "pg_routed c c'" and "pg_routed c' c''"
  shows "pg_routed c c''"
proof -
  have "same_target c c''"
    using assms by (auto simp: pg_routed_def same_target_def)
  moreover have "\<exists>new. pg_sent c'' = pg_sent c @ new \<and>
      (\<forall>(db, query, params) \<in> set new. db = st_primaryDB c \<or> replica_query c db query)" if ok: "pg_ok c"
  proof -
    have s: "same_target c c'" "pg_ok c'" using assms(1) ok by (auto simp: pg_routed_def same_target_def)
    obtain n1 n2 where n: "pg_sent c' = pg_sent c @ n1" "pg_sent c'' = pg_sent c' @ n2"
      "\<forall>(db, query, params) \<in> set n1. db = st_primaryDB c \<or> replica_query c db query"
      "\<forall>(db, query, params) \<in> set n2. db = st_primaryDB c' \<or> replica_query c' db query"
      using assms ok s(2) unfolding pg_routed_def by blast
    have "st_primaryDB c' = st_primaryDB c" using s(1) by (simp add: same_target_def)
    then have "\<forall>(db, query, params) \<in> set (n1 @ n2). db = st_primaryDB c \<or> replica_query c db query"
      using n(3,4) replica_query_same [OF s(1) ok] by auto
    with n(1,2) show ?thesis by (intro exI [of _ "n1 @ n2"]) simp
  qed
  ultimately show ?thesis by (simp add: pg_routed_def)
qed

lemma pg_routed_still:
  "same_target c c' \<Longrightarrow> pg_sent c' = pg_sent c \<Longrightarrow> pg_routed c c'"
  by (simp add: pg_routed_def)

interpretation routing: pg_caching pg_routed E for E
proof (unfold_locales, goal_cases)
  case (1 s)
  show ?case by (rule pg_routed_refl)
next
  case (2 s t u)
  then show ?case by (rule pg_routed_trans)
next
  case (3 c c')
  then show ?case
    by (intro pg_routed_still) (simp_all add: pg_quiet_def same_target_def pg_ok_def pg_pool_at_def)
next
  case (4 c ch)
  then show ?case
    by (intro pg_routed_still) (simp_all add: same_target_def pg_ok_def pg_pool_at_def)
qed

lemma pg_pool_update: "pg_pool_at b (c\<lparr>pg_proxy := (pg_proxy c)\<lparr>pp_heap := update_pool (pp_heap (pg_proxy c)) a p\<rparr>\<rparr>)
    = (if b = a then p else pg_pool_at b c)"
  by (simp add: pg_pool_at_def update_pool_def)

lemma GetReplica_target:
  assumes "pg_GetReplica c = (r, t)"
  shows "same_target c t" and "pg_sent t = pg_sent c" and "st_replicaDBs t = st_replicaDBs c"
    and "pg_ok c \<Longrightarrow> \<exists>addr name. r = Ok (addr, name) \<and> (name \<noteq> ''primary'' \<longrightarrow> IsHealthy (pg_pool_at (st_pool c) c) addr)"
proof -
  let ?p = "pg_pool_at (st_pool c) c"
  have "same_target c t \<and> pg_sent t = pg_sent c \<and> st_replicaDBs t = st_replicaDBs c \<and>
    (pg_ok c \<longrightarrow> (\<exists>addr name. r = Ok (addr, name) \<and> (name \<noteq> ''primary'' \<longrightarrow> IsHealthy ?p addr)))"
  proof (cases "GetReplica ?p")
    case (Inl e)
    then have "\<not> pg_ok c"
      using pool.pick_total [of ?p] by (auto simp: pg_ok_def)
    then show ?thesis
      using assms Inl by (auto simp: pg_GetReplica_def same_target_def)
  next
    case (Inr res)
    obtain p' addr name where res: "res = (p', addr, name)" by (cases res) auto
    let ?t = "c\<lparr>pg_proxy := (pg_proxy c)\<lparr>pp_heap := update_pool (pp_heap (pg_proxy c)) (st_pool c) p'\<rparr>\<rparr>"
    have t: "t = ?t" "r = Ok (addr, name)"
      using assms Inr res by (simp_all add: pg_GetReplica_def)
    have "pool_ok p'" "IsHealthy p' = IsHealthy ?p" "name \<noteq> ''primary'' \<Longrightarrow> IsHealthy ?p addr" if "pg_ok c"
      using that Inr res pool.pick_inv pool.pick_frame pool.pick_up by (fastforce simp: pg_ok_def)+
    then show ?thesis
      unfolding t by (auto simp: same_target_def pg_ok_def pg_pool_update)
  qed
  then show "same_target c t" and "pg_sent t = pg_sent c" and "st_replicaDBs t = st_replicaDBs c"
    and "pg_ok c \<Longrightarrow> \<exists>addr name. r = Ok (addr, name) \<and> (name \<noteq> ''primary'' \<longrightarrow> IsHealthy ?p addr)"
    by blast+
qed

text \<open>The handle that a query gets.\<close>

definition target_ok :: "'s pgConn \<Rightarrow> ParsedQuery \<Rightarrow> sql_DB \<Rightarrow> bool" where
  "target_ok c q db \<longleftrightarrow> db = st_primaryDB c \<or> IsCacheable q \<and> (\<exists>addr. IsHealthy (pg_pool_at (st_pool c) c) addr \<and>
     db_dsn db = pg_dsn addr (st_user c) (st_password c) (st_database c))"

lemma adopt_target:
  assumes "mget (st_replicaDBs c) addr = None"
    and "db_dsn db = pg_dsn addr (st_user c) (st_password c) (st_database c)"
  shows "same_target c (c\<lparr>pg_tick := n, pg_open := l, st_replicaDBs := mset_key (st_replicaDBs c) addr db\<rparr>)"
  using assms by (auto simp: same_target_def pg_ok_def pg_pool_at_def)

lemma tick_target: "same_target c (c\<lparr>pg_tick := n\<rparr>)"
  by (simp add: same_target_def pg_ok_def pg_pool_at_def)

lemma same_target_trans: "same_target c c' \<Longrightarrow> same_target c' c'' \<Longrightarrow> same_target c c''"
  by (auto simp: same_target_def)

lemma target_ok_same: "same_target c c' \<Longrightarrow> pg_ok c \<Longrightarrow> target_ok c' q db = target_ok c q db"
  by (simp add: same_target_def target_ok_def)

lemma select_db_target:
  assumes "pg_select_db E q c = (r, t)"
  shows "same_target c t" and "pg_sent t = pg_sent c" and "pg_ok c \<Longrightarrow> r = Ok (db, name) \<Longrightarrow> target_ok c q db"
proof -
  have "same_target c t \<and> pg_sent t = pg_sent c \<and> (pg_ok c \<longrightarrow> (\<forall>db name. r = Ok (db, name) \<longrightarrow> target_ok c q db))"
  proof (cases "IsCacheable q")
    case False
    then show ?thesis
      using assms by (auto simp: pg_select_db_def pg_primary_def same_target_def target_ok_def)
  next
    case True
    obtain r1 c1 where g: "pg_GetReplica c = (r1, c1)" by (cases "pg_GetReplica c")
    note s = GetReplica_target(1-3) [OF g]
    show ?thesis
    proof (cases r1)
      case (Ok an)
      obtain addr name where an: "an = (addr, name)" by (cases an)
      have up: "name \<noteq> ''primary'' \<longrightarrow> IsHealthy (pg_pool_at (st_pool c) c) addr" if "pg_ok c"
        using GetReplica_target(4) [OF g that] Ok an by auto
      have prim: "st_primaryDB c1 = st_primaryDB c" using s(1) by (simp add: same_target_def)
      consider "name = ''primary''" | db where "name \<noteq> ''primary''" "mget (st_replicaDBs c1) addr = Some db"
        | "name \<noteq> ''primary''" "mget (st_replicaDBs c1) addr = None" by (cases "mget (st_replicaDBs c1) addr") auto
      then show ?thesis
      proof cases
        case 1
        then show ?thesis
          using assms True g Ok an s prim by (auto simp: pg_select_db_def pg_primary_def target_ok_def)
      next
        case (2 db)
        then have "r = Ok (db, name)" "t = c1"
          using assms True g Ok an by (simp_all add: pg_select_db_def)
        moreover have "db_dsn db = pg_dsn addr (st_user c) (st_password c) (st_database c)" if "pg_ok c"
          using that 2 s(1) by (auto simp: same_target_def pg_ok_def)
        ultimately show ?thesis
          using s True up 2 by (auto simp: target_ok_def)
      next
        case 3
        let ?dsn = "pg_dsn addr (st_user c1) (st_password c1) (st_database c1)"
        let ?db = "\<lparr>db_num = pg_tick c1, db_dsn = ?dsn\<rparr>"
        show ?thesis
        proof (cases "pe_Open E (pg_tick c1) ?dsn")
          case (Some err)
          then have "r = Ok (st_primaryDB c1, name)" "t = c1\<lparr>pg_tick := Suc (pg_tick c1)\<rparr>"
            using assms True g Ok an 3 by (simp_all add: pg_select_db_def connectToBackend_def Let_def pg_primary_def)
          then show ?thesis
            using s prim same_target_trans [OF s(1) tick_target] by (auto simp: target_ok_def)
        next
          case None
          then have "r = Ok (?db, name)"
            and t: "t = c1\<lparr>pg_tick := Suc (pg_tick c1), pg_open := ?db # pg_open c1, st_replicaDBs := mset_key (st_replicaDBs c1) addr ?db\<rparr>"
            using assms True g Ok an 3 by (simp_all add: pg_select_db_def connectToBackend_def Let_def)
          moreover have "same_target c t"
            unfolding t using same_target_trans [OF s(1) adopt_target] 3 by simp
          moreover have "?dsn = pg_dsn addr (st_user c) (st_password c) (st_database c)"
            using s(1) by (simp add: same_target_def)
          ultimately show ?thesis
            using s True up 3 by (auto simp: target_ok_def)
        qed
      qed
    qed (use assms True g s in \<open>auto simp: pg_select_db_def\<close>)
  qed
  then show "same_target c t" and "pg_sent t = pg_sent c" and "pg_ok c \<Longrightarrow> r = Ok (db, name) \<Longrightarrow> target_ok c q db"
    by blast+
qed

lemma fetch_rows_routed: "steps pg_routed (pg_fetch_rows E (Parse s) ps k)"
proof (rule stepsI)
  fix c
  let ?q = "Parse s"
  let ?cancel = "case k of None \<Rightarrow> ret () | Some key \<Rightarrow> pg_cache_update (\<lambda>ch. CancelInflight ch key)"
  let ?rest = "\<lambda>db name. andthen (on_error (db_Query E db (pq_Query ?q) ps) ?cancel) (\<lambda>rows. ret (name, rows))"
  obtain r t where run: "pg_fetch_rows E ?q ps k c = (r, t)" by (cases "pg_fetch_rows E ?q ps k c")
  then have "pg_routed c t"
    unfolding pg_fetch_rows_def
  proof (cases rule: andthen_cases)
    case (Ok dn c1)
    obtain db name where dn: "dn = (db, name)" by (cases dn)
    note sel = select_db_target(1,2) [OF Ok(1)]
    let ?c2 = "c1\<lparr>pg_tick := Suc (pg_tick c1), pg_sent := pg_sent c1 @ [(db, pq_Query ?q, ps)]\<rparr>"
    have "same_target c1 ?c2"
      by (simp add: same_target_def pg_ok_def pg_pool_at_def)
    then have st: "same_target c ?c2"
      by (rule same_target_trans [OF sel(1)])
    have "db = st_primaryDB c \<or> replica_query c db (pq_Query ?q)" if "pg_ok c"
      using select_db_target(3) [OF Ok(1) that] dn unfolding target_ok_def replica_query_def by blast
    then have "pg_routed c ?c2"
      using st sel(2) by (simp add: pg_routed_def)
    moreover have "pg_routed ?c2 t"
    proof (cases "pe_Query E (pg_tick c1) db (pq_Query ?q) ps")
      case (Inl err)
      have "steps pg_routed (next_do ?cancel (raise (ErrMsg err)) :: ('a, string \<times> sql_Rows) pgo)"
        by (intro routing.rules routing.steps_cache_update)
      moreover have "next_do ?cancel (raise (ErrMsg err)) ?c2 = (r, t)"
        using Ok(2) dn Inl by (auto simp: db_Query_def on_error_def andthen_assoc split: option.splits)
      ultimately show ?thesis by (rule stepsD)
    next
      case (Inr rows)
      then show ?thesis
        using Ok(2) dn by (simp add: db_Query_def on_error_def pg_routed_refl)
    qed
    ultimately show ?thesis by (rule pg_routed_trans)
  qed (blast intro: pg_routed_still dest: select_db_target(1) select_db_target(2))+
  then show "pg_routed c (snd (pg_fetch_rows E ?q ps k c))"
    by (simp add: run)
qed

interpretation routes: pg_handling pg_routed E for E
  by unfold_locales (rule fetch_rows_routed)

lemma connection_routed:
  assumes run: "pg_handleConnection E px client connID = (r, t)" and pools: "\<forall>a. pool_ok (ph_pool (pp_heap px) a)"
  shows "\<forall>(db, query, params) \<in> set (pg_sent t). \<exists>user password database c1 a.
      pg_credentials E (pg_start px client connID) = (Ok (Some (user, password, database)), c1) \<and>
      mget (pp_pools px) (shard_name (pp_config px) database) = Some a \<and>
      (db_dsn db = pg_dsn (GetPrimary (ph_pool (pp_heap px) a)) user password database \<or>
       (\<exists>s addr. query = pq_Query (Parse s) \<and> IsCacheable (Parse s) \<and> IsHealthy (ph_pool (pp_heap px) a) addr \<and>
          db_dsn db = pg_dsn addr user password database))"
  using run
proof (cases rule: connection_cases)
  case 1
  then show ?thesis by (simp add: untouched_def pg_start_def)
next
  case (2 user password database c1 r1)
  have c1: "pg_sent c1 = []" "pg_proxy c1 = px"
    using 2(1) by (simp_all add: untouched_def pg_start_def)
  from 2(2) show ?thesis
  proof (cases rule: session_cases)
    case (Served a db c2 c3)
    let ?c2 = "set_state (shard_name (pp_config (pg_proxy c1)) database) a user password database db c2"
    have s: "pg_sent ?c2 = []" "pg_ok ?c2" "st_primaryDB ?c2 = db" "pg_pool_at (st_pool ?c2) ?c2 = ph_pool (pp_heap px) a"
      "st_user ?c2 = user" "st_password ?c2 = password" "st_database ?c2 = database"
      using Served(3) c1 pools by (simp_all add: set_state_def untouched_def pg_ok_def pg_pool_at_def)
    have "steps pg_routed (handleMessages E)"
      by (rule routes.steps_handleMessages)
        (simp add: pg_routed_def same_target_def pg_ok_def pg_pool_at_def)
    from stepsD [OF this Served(4)]
    have new: "\<forall>(d, query, params) \<in> set (pg_sent c3). d = db \<or> replica_query ?c2 d query"
      using s(1,2,3) by (auto simp: pg_routed_def)
    have sent: "pg_sent t = pg_sent c3"
      using Served(5) by (simp add: close_db_def close_replicas_def)
    have db: "db_dsn db = pg_dsn (GetPrimary (ph_pool (pp_heap px) a)) user password database"
      using Served(2) c1 by (simp add: pg_pool_at_def)
    have a: "mget (pp_pools px) (shard_name (pp_config px) database) = Some a"
      using Served(1) c1 by simp
    show ?thesis
    proof
      fix x assume x: "x \<in> set (pg_sent t)"
      obtain d query params where xs: "x = (d, query, params)" by (cases x)
      from new x xs sent have "d = db \<or> replica_query ?c2 d query" by auto
      then show "case x of (db, query, params) \<Rightarrow> \<exists>user password database c1 a.
        pg_credentials E (pg_start px client connID) = (Ok (Some (user, password, database)), c1) \<and>
        mget (pp_pools px) (shard_name (pp_config px) database) = Some a \<and>
        (db_dsn db = pg_dsn (GetPrimary (ph_pool (pp_heap px) a)) user password database \<or>
         (\<exists>s addr. query = pq_Query (Parse s) \<and> IsCacheable (Parse s) \<and> IsHealthy (ph_pool (pp_heap px) a) addr \<and>
            db_dsn db = pg_dsn addr user password database))"
        unfolding xs replica_query_def s using a db 2(3) by auto
    qed
  qed (use c1 in \<open>simp_all add: untouched_def close_db_def\<close>)
qed


section \<open>Examples\<close>

text \<open>A database that answers every query with one row, and a pool with a primary and one replica.\<close>

definition pg_demo_env :: "(string \<times> bytes) list penv" where
  "pg_demo_env = \<lparr>pe_tq = demo_store, pe_wait = (\<lambda>ch f. (ch, SafetyTimeout)), pe_Open = (\<lambda>n dsn. None), pe_Ping = (\<lambda>n db. None),
     pe_Query = (\<lambda>n db query params. Inr \<lparr>rs_Columns = [''x''], rs_rows = [[VInt 1]], rs_Err = None\<rparr>),
     pe_Enqueue = (\<lambda>n key query params ms. ok_result 1 0 1), pe_write_error = (\<lambda>n. None), pe_sha1_hex = string_of, pe_prom = documented\<rparr>"

definition pg_demo_proxy :: "(string \<times> bytes) list pgProxy" where
  "pg_demo_proxy = pg_New
     \<lparr>pc_Listen = [], pc_Socket = [], pc_Default = ''main'', pc_Backends = [(''main'', \<lparr>be_Primary = ''p:1'', be_Replicas = [''r:1'']\<rparr>)],
      pc_DBMap = [], pc_WriteBatch = \<lparr>wbc_MaxBatchSize = 1000, wbc_UseCopy = False\<rparr>\<rparr>
     [(''main'', 0)] \<lparr>ph_pool = (\<lambda>_. NewPool ''p:1'' [''r:1'']), ph_next = 1\<rparr> (New_cache [])"

text \<open>A connection after its handshake.\<close>

definition pg_demo_conn :: "(string \<times> bytes) list pgConn" where
  "pg_demo_conn = set_state ''main'' 0 ''u'' ''w'' ''d'' \<lparr>db_num = 0, db_dsn = pg_dsn ''p:1'' ''u'' ''w'' ''d''\<rparr> (pg_start pg_demo_proxy [] 1)"

definition query_message :: "string \<Rightarrow> bytes" where
  "query_message q = encodeMessage msgQuery (bytes_of q @ [0])"

text \<open>The bytes of a client: startup, password, a cacheable query, a write, and the end.\<close>

definition demo_client :: bytes where
  "demo_client = startup_message [(''user'', ''u''), (''database'', ''d'')] @ encodeMessage msgPassword [0x77, 0] @
     query_message ''/* ttl:9 */ SELECT 1'' @ query_message ''DELETE FROM t'' @ encodeMessage msgTerminate []"

lemma demo_pools: "pool_ok (ph_pool (pp_heap pg_demo_proxy) a)"
  by (simp add: pg_demo_proxy_def pg_New_def NewPool_ok)


theorem messages_handled_in_order_witness:
  "handleMessages pg_demo_env (pg_demo_conn\<lparr>pg_in := wire_of [(msgQuery, bytes_of ''DELETE FROM t'' @ [0]), (msgSync, [])] @
       encodeMessage msgTerminate [] @ [1, 2]\<rparr>) =
     run_messages pg_demo_env [(msgQuery, bytes_of ''DELETE FROM t'' @ [0]), (msgSync, [])] [1, 2]
       (pg_demo_conn\<lparr>pg_in := wire_of [(msgQuery, bytes_of ''DELETE FROM t'' @ [0]), (msgSync, [])] @ encodeMessage msgTerminate [] @ [1, 2]\<rparr>)"
  by (rule messages_handled_in_order) (simp_all add: msg_defs)

end
