(* ===== verification/Pg_Answers.thy ===== *)
theory Pg_Answers
  imports Pg_Session
begin

text \<open>
  The answers of the PostgreSQL proxy: a query leaves no flight in the cache, a simple query is answered with one complete
  response, and a portal runs its statement with the bound parameters; with examples of sessions that show where
  the code departs from the protocol.
\<close>

section \<open>Flights\<close>

text \<open>Everything but the operations of the cache leaves it alone.\<close>

definition pg_kept :: "'s pgConn \<Rightarrow> 's pgConn \<Rightarrow> bool" where
  "pg_kept c c' \<longleftrightarrow> pp_cache (pg_proxy c') = pp_cache (pg_proxy c)"

interpretation pg_kept: pg_querying pg_kept E for E
  by unfold_locales (auto simp: pg_kept_def pg_quiet_def)

abbreviation pg_flights :: "'s pgConn \<Rightarrow> string set" where
  "pg_flights c \<equiv> flights_of (pp_cache (pg_proxy c))"

lemma kept_flights: "steps pg_kept m \<Longrightarrow> m c = (r, t) \<Longrightarrow> pg_flights t = pg_flights c"
  by (drule (1) stepsD) (simp add: pg_kept_def)

text \<open>Giving up a flight, and storing a response.\<close>

abbreviation pg_cancel :: "string option \<Rightarrow> ('s, unit) pgo" where
  "pg_cancel k \<equiv> (case k of None \<Rightarrow> ret () | Some key \<Rightarrow> pg_cache_update (\<lambda>ch. CancelInflight ch key))"

lemma cache_update_cases [consumes 1, case_names Ok Panic]:
  assumes "pg_cache_update f c = (r, t)"
  obtains ch where "f (pp_cache (pg_proxy c)) = Inr ch" "r = Ok ()" "t = c\<lparr>pg_proxy := (pg_proxy c)\<lparr>pp_cache := ch\<rparr>\<rparr>"
  | p where "r = Panic p"
  using assms by (cases "f (pp_cache (pg_proxy c))") (auto simp: pg_cache_update_def)

lemma cancel_flights:
  assumes "pg_cancel k c = (r, t)"
  shows "r = Ok () \<and> pg_flights t = pg_flights c - set_option k \<or> (\<exists>p. r = Panic p)"
proof (cases k)
  case (Some key)
  then have "pg_cache_update (\<lambda>ch. CancelInflight ch key) c = (r, t)"
    using assms by simp
  then show ?thesis
    by (cases rule: cache_update_cases) (simp_all add: Some CancelInflight_flights)
qed (use assms in simp)

lemma store_flights:
  assumes "pg_store E k response ttl c = (r, t)"
  shows "r = Ok () \<and> pg_flights t = pg_flights c - set_option k \<or> (\<exists>p. r = Panic p)"
proof (cases k)
  case (Some key)
  then have "pg_cache_update (\<lambda>ch. SetAndNotify (pe_tq E) ch key response (ttl_duration ttl)) c = (r, t)"
    using assms by (simp add: pg_store_def)
  then show ?thesis
    by (cases rule: cache_update_cases) (simp_all add: Some SetAndNotify_flights)
qed (use assms in \<open>simp add: pg_store_def\<close>)

lemma select_db_no_error: "pg_select_db E q c \<noteq> (Err e, t)"
  by (auto simp: pg_select_db_def pg_GetReplica_def pg_primary_def or_panic_def attempt_no_error
      elim!: andthen_cases split: if_splits option.splits sum.splits)

lemma fetch_rows_flights:
  assumes "pg_fetch_rows E q ps k c = (r, t)"
  shows "(\<exists>x. r = Ok x) \<and> pg_flights t = pg_flights c \<or> (\<exists>e. r = Err e) \<and> pg_flights t = pg_flights c - set_option k \<or>
    (\<exists>p. r = Panic p)"
  using assms unfolding pg_fetch_rows_def
proof (cases rule: andthen_cases)
  case (Ok dn c1)
  obtain db name where dn: "dn = (db, name)" by (cases dn)
  have c1: "pg_flights c1 = pg_flights c"
    using kept_flights [OF pg_kept.steps_select_db Ok(1)] .
  from Ok(2) have "andthen (on_error (db_Query E db (pq_Query q) ps) (pg_cancel k)) (\<lambda>rows. ret (name, rows)) c1 = (r, t)"
    by (simp add: dn)
  then show ?thesis
  proof (cases rule: andthen_cases)
    case (Ok rows c2)
    from Ok(1) show ?thesis
    proof (cases rule: on_error_cases)
      case (Ok x)
      then show ?thesis
        using kept_flights [OF pg_kept.steps_db_Query Ok(1)] c1 \<open>ret (name, rows) c2 = (r, t)\<close> by auto
    qed (auto elim!: andthen_cases)
  next
    case (Err e)
    from Err(1) show ?thesis
    proof (cases rule: on_error_cases)
      case (Err e' c2)
      have c2: "pg_flights c2 = pg_flights c"
        using kept_flights [OF pg_kept.steps_db_Query Err(1)] c1 by simp
      from Err(2) show ?thesis
      proof (cases rule: andthen_cases)
        case (Ok u c3)
        then show ?thesis
          using cancel_flights [OF Ok(1)] c2 \<open>r = Err e\<close> by auto
      qed (auto dest: cancel_flights)
    qed auto
  qed auto
qed (auto simp: select_db_no_error)

lemma pg_fetch_flights:
  assumes "pg_fetch E q c = (r, t)" and "\<And>p. r \<noteq> Panic p"
  shows "pg_flights t = pg_flights c - set_option (query_key q)"
  using assms(1) unfolding pg_fetch_def
proof (cases rule: andthen_cases)
  case (Ok x c1)
  then obtain r0 where fr: "pg_fetch_rows E q [] (query_key q) c = (r0, c1)"
    and r0: "r0 = (case x of Inl e \<Rightarrow> Err e | Inr y \<Rightarrow> Ok y)"
    by (auto simp: attempt_def split: prod.splits outcome.splits)
  show ?thesis
  proof (cases x)
    case (Inl err)
    have "steps pg_kept (next_do (sendError E ''42000'' (error_text err)) (sendReady E))"
      by (intro pg_kept.rules pg_kept.answer_steps)
    from kept_flights [OF this] Ok(2) Inl fetch_rows_flights [OF fr] r0 show ?thesis by auto
  next
    case (Inr nr)
    obtain name rows where nr: "nr = (name, rows)" by (cases nr)
    let ?response = "rows_response ''OK'' (rs_Columns rows) (rs_rows rows) @ ready_message"
    let ?c1 = "c1\<lparr>st_lastBackend := name, st_lastCacheHit := False,
        pg_metrics := pg_metrics c1 @ database_calls name (pg_labels q)\<rparr>"
    have "next_do (pg_store E (query_key q) ?response (pq_TTL q)) (ignore (pg_Write E ?response)) ?c1 = (r, t)"
      using Ok(2) Inr nr assms(2) by (auto simp: pg_served_def pg_record_def Let_def split: if_splits)
    then show ?thesis
    proof (cases rule: andthen_cases)
      case (Ok u c2)
      have "steps pg_kept (ignore (pg_Write E ?response))"
        by (intro pg_kept.rules pg_kept.answer_steps)
      from kept_flights [OF this Ok(2)] store_flights [OF Ok(1)] fetch_rows_flights [OF fr] r0 Inr show ?thesis by auto
    qed (use assms(2) in \<open>auto dest: store_flights\<close>)
  qed
qed (use assms(2) in \<open>simp_all add: attempt_no_error\<close>)

text \<open>What looking up an answer does: the cache is asked once or twice, and labels that are refused panic.\<close>

abbreviation flagged :: "int \<Rightarrow> bool \<Rightarrow> bool" where
  "flagged f ok \<equiv> ok \<and> (f = FlagFresh \<or> f = FlagStale)"

lemma cached_answer_run:
  assumes "pg_cached_answer E q c = (r, t)"
    and g: "Get (pe_tq E) (pp_cache (pg_proxy c)) (pq_Query q) = (ch1, v1, f1, ok1)"
      "GetOrWait (pe_tq E) (pe_wait E) ch1 (pq_Query q) = (ch2, v2, f2, ok2, waited)"
  shows "pg_out t = pg_out c \<and> pp_cache (pg_proxy t) \<in> {ch1, ch2} \<and>
    ((\<exists>p. r = Panic p) \<or>
     flagged f1 ok1 \<and> pp_cache (pg_proxy t) = ch1 \<and> (\<exists>name. r = Ok (Some (name, cached_value v1))) \<or>
     \<not> flagged f1 ok1 \<and> pp_cache (pg_proxy t) = ch2 \<and> r = Ok (if waited \<and> ok2 then Some (''cache'', cached_value v2) else None))"
  using assms(1) unfolding pg_cached_answer_def
  by (simp add: pg_cache_def pg_record_def flagged_answer_def g split: if_splits) auto

lemma pg_cached_answer_flights:
  assumes "pg_cached_answer E q c = (r, t)" and "\<And>ch f. flights_of (fst (pe_wait E ch f)) \<subseteq> flights_of ch"
  shows "(\<exists>p. r = Panic p) \<or>
    (\<exists>answer. r = Ok answer \<and> pg_flights t \<subseteq> (if answer = None then insert (pq_Query q) (pg_flights c) else pg_flights c))"
proof -
  obtain ch1 v1 f1 ok1 where g1: "Get (pe_tq E) (pp_cache (pg_proxy c)) (pq_Query q) = (ch1, v1, f1, ok1)"
    by (metis prod_cases4)
  obtain ch2 v2 f2 ok2 w2 where g2: "GetOrWait (pe_tq E) (pe_wait E) ch1 (pq_Query q) = (ch2, v2, f2, ok2, w2)"
    by (metis prod_cases5)
  have f2: "flights_of ch2 \<subseteq> (if ok2 then flights_of ch1 else insert (pq_Query q) (flights_of ch1))"
    using g2 assms(2) by (rule GetOrWait_flights)
  have f1: "flights_of ch1 = pg_flights c"
    using Get_flights [OF g1] .
  from cached_answer_run [OF assms(1) g1 g2] consider p where "r = Panic p"
    | name where "pp_cache (pg_proxy t) = ch1" "r = Ok (Some (name, cached_value v1))"
    | "pp_cache (pg_proxy t) = ch2" "r = Ok (if w2 \<and> ok2 then Some (''cache'', cached_value v2) else None)"
    by blast
  then show ?thesis
  proof cases
    case 2
    with f1 show ?thesis by simp
  next
    case 3
    with f1 f2 show ?thesis by (cases "w2 \<and> ok2") (auto split: if_splits)
  qed simp
qed

lemma uncached_flights:
  assumes "pg_uncached E q c = (r, t)" and "\<And>p. r \<noteq> Panic p"
  shows "pg_flights t = pg_flights c - set_option (query_key q)"
proof (cases "pg_batches q c")
  case True
  then have "pg_batched_query E q c = (r, t)" "query_key q = None"
    using assms(1) by (auto simp: pg_uncached_def pg_batches_def query_key_def IsCacheable_def IsWritable_def)
  then show ?thesis
    using kept_flights [OF pg_kept.steps_batched_query, of E q c r t] by simp
next
  case False
  then show ?thesis
    using assms by (intro pg_fetch_flights [of E q c r t]) (simp_all add: pg_uncached_def)
qed

lemma run_query_flights:
  assumes "pg_run_query E q c = (r, t)" and "\<And>p. r \<noteq> Panic p"
    and "\<And>ch f. flights_of (fst (pe_wait E ch f)) \<subseteq> flights_of ch"
  shows "pg_flights t \<subseteq> pg_flights c"
proof (cases "IsCacheable q")
  case True
  let ?use = "\<lambda>answer. case answer of
            Some (name, cached) \<Rightarrow> next_do (pg_served name True) (ignore (pg_Write E cached))
          | None \<Rightarrow> pg_uncached E q"
  have "andthen (pg_cached_answer E q) ?use c = (r, t)"
    using assms(1) True by (simp add: pg_run_query_def)
  then show ?thesis
  proof (cases rule: andthen_cases)
    case (Ok answer c1)
    have f: "pg_flights c1 \<subseteq> (if answer = None then insert (pq_Query q) (pg_flights c) else pg_flights c)"
      using pg_cached_answer_flights [OF Ok(1) assms(3)] by auto
    show ?thesis
    proof (cases answer)
      case None
      then have "pg_uncached E q c1 = (r, t)" using Ok(2) by simp
      from uncached_flights [OF this assms(2)] f None True show ?thesis by (auto simp: query_key_def)
    next
      case (Some nc)
      have "steps pg_kept (?use (Some nc))"
        by (auto intro!: pg_kept.rules pg_kept.answer_steps simp: split_def simp del: go_run)
      from kept_flights [OF this] Ok(2) Some f show ?thesis by auto
    qed
  qed (use pg_cached_answer_flights [OF _ assms(3)] assms(2) in auto)
next
  case False
  then show ?thesis
    using uncached_flights [of E q c r t] assms(1,2) by (auto simp: pg_run_query_def)
qed

text \<open>C14: A simple query leaves no flight behind: when it returns, also with an error, no key is in flight that was not in
  flight before, so that no other request waits for a fetch that nobody does. The other requests are assumed not to
  add flights while this one waits.\<close>

theorem pg_query_leaves_no_flight:
  assumes "pg_handleQuery E payload c = (r, t)" and "\<forall>p. r \<noteq> Panic p"
    and "\<forall>ch f. flights_of (fst (pe_wait E ch f)) \<subseteq> flights_of ch"
  shows "flights_of (pp_cache (pg_proxy t)) \<subseteq> flights_of (pp_cache (pg_proxy c))"
proof -
  let ?query = "strip_zero payload"
  let ?u = "ToUpper (TrimSpace ?query)"
  show ?thesis
  proof (cases "Contains ?u ''PG_TQDB_STATUS''")
    case True
    then have "pg_handleShowTQDBStatus E c = (r, t)"
      using assms(1) by (simp add: pg_handleQuery_def Let_def)
    from kept_flights [OF pg_kept.steps_status this] show ?thesis by simp
  next
    case False
    then have "next_do (track_transaction ?u) (pg_run_query E (Parse ?query)) c = (r, t)"
      using assms(1) by (simp add: pg_handleQuery_def Let_def)
    then show ?thesis
    proof (cases rule: andthen_cases)
      case (Ok u c1)
      have "pg_flights t \<subseteq> pg_flights c1"
        using run_query_flights [OF Ok(2)] assms(2,3) by blast
      with kept_flights [OF pg_kept.steps_track Ok(1)] show ?thesis by simp
    qed (auto dest!: kept_flights [OF pg_kept.steps_track])
  qed
qed

section \<open>Complete responses\<close>

text \<open>A sequence of messages without ReadyForQuery, and an answer: such a sequence with one ReadyForQuery at its end.\<close>

definition unready :: "bytes \<Rightarrow> bool" where
  "unready bs \<longleftrightarrow> (\<exists>msgs. bs = wire_of msgs \<and> (\<forall>(t, p) \<in> set msgs. t \<noteq> msgReadyForQuery))"

definition is_answer :: "bytes \<Rightarrow> bool" where
  "is_answer bs \<longleftrightarrow> (\<exists>body. bs = body @ ready_message \<and> unready body)"

lemma unready_message: "t \<noteq> msgReadyForQuery \<Longrightarrow> unready (encodeMessage t p)"
  unfolding unready_def by (rule exI [of _ "[(t, p)]"]) simp

lemma wire_of_append: "wire_of (ms @ ns) = wire_of ms @ wire_of ns"
  by (simp add: wire_of_def)

lemma unready_append: "unready a \<Longrightarrow> unready b \<Longrightarrow> unready (a @ b)"
proof -
  assume "unready a" "unready b"
  then obtain ms ns where "a = wire_of ms" "\<forall>(t, p) \<in> set ms. t \<noteq> msgReadyForQuery"
    and "b = wire_of ns" "\<forall>(t, p) \<in> set ns. t \<noteq> msgReadyForQuery"
    unfolding unready_def by blast
  then show ?thesis
    unfolding unready_def by (intro exI [of _ "ms @ ns"]) (auto simp: wire_of_append)
qed

lemma unready_concat: "(\<And>x. x \<in> set xs \<Longrightarrow> unready (f x)) \<Longrightarrow> unready (concat (map f xs))"
proof (induction xs)
  case Nil
  show ?case unfolding unready_def by (rule exI [of _ "[]"]) simp
next
  case (Cons x xs)
  then show ?case by (simp add: unready_append)
qed

lemma unready_parts: "unready (buildRowDescription cols)" "unready (buildDataRow vs)" "unready (command_complete tag)"
    "unready (encodeMessage msgErrorResponse p)"
  by (simp_all add: buildRowDescription_def buildDataRow_def command_complete_def unready_message msg_defs)

lemma unready_if: "(b \<Longrightarrow> unready x) \<Longrightarrow> (\<not> b \<Longrightarrow> unready y) \<Longrightarrow> unready (if b then x else y)"
  by simp

lemma unready_responses: "unready (rows_response tag cols rows)" "unready (batch_response res)"
  unfolding rows_response_def batch_response_def
  by (intro unready_if unready_append unready_parts unready_concat)+

lemma is_answerI: "unready body \<Longrightarrow> is_answer (body @ ready_message)"
  unfolding is_answer_def by blast

text \<open>Writing without errors.\<close>

lemma write_run:
  assumes "\<forall>n. pe_write_error E n = None"
  shows "pg_Write E bs c = (Ok (), c\<lparr>pg_tick := pg_tick c + 1, pg_out := pg_out c @ bs\<rparr>)"
    and "writeMessage E t p c = (Ok (), c\<lparr>pg_tick := pg_tick c + 3, pg_out := pg_out c @ encodeMessage t p\<rparr>)"
    and "sendError E code m c = (Ok (), c\<lparr>pg_tick := pg_tick c + 3,
      pg_out := pg_out c @ encodeMessage msgErrorResponse (error_payload ''ERROR'' code m)\<rparr>)"
    and "sendReady E c = (Ok (), c\<lparr>pg_tick := pg_tick c + 3, pg_out := pg_out c @ ready_message\<rparr>)"
  using assms
  by (simp_all add: pg_Write_def writeMessage_def sendError_def sendErrorWithSeverity_def sendReady_def encodeMessage_def ready_message_def numeral_3_eq_3)

text \<open>Values of the cache for a key are answers: an invariant \<open>J\<close> of the store, which a Get and the store of an answer keep, and
  so do the other requests while one waits.\<close>

definition store_inv :: "'s penv \<Rightarrow> string \<Rightarrow> ('s \<Rightarrow> bool) \<Rightarrow> bool" where
  "store_inv E key J \<longleftrightarrow>
     (\<forall>s s' res. J s \<longrightarrow> tq_Get (pe_tq E) s key = (s', res) \<longrightarrow> J s' \<and> (\<forall>v flags. res = Inr (Some v, flags) \<longrightarrow> is_answer v)) \<and>
     (\<forall>s v ttl. J s \<longrightarrow> is_answer v \<longrightarrow> J (tq_Set (pe_tq E) s key v ttl)) \<and>
     (\<forall>ch f. J (cache_store ch) \<longrightarrow> J (cache_store (fst (pe_wait E ch f))))"

lemma Get_answer:
  assumes "store_inv E key J" and "J (cache_store ch)" and "Get (pe_tq E) ch key = (ch', v, flags, ok)"
  shows "J (cache_store ch')" and "ok \<Longrightarrow> is_answer (cached_value v)"
proof -
  obtain s' res where g: "tq_Get (pe_tq E) (cache_store ch) key = (s', res)"
    by (cases "tq_Get (pe_tq E) (cache_store ch) key")
  then have "J s'" "\<And>v flags. res = Inr (Some v, flags) \<Longrightarrow> is_answer v"
    using assms(1,2) unfolding store_inv_def by blast+
  with g assms(3) show "J (cache_store ch')" and "ok \<Longrightarrow> is_answer (cached_value v)"
    by (auto simp: Get_def cached_value_def split: sum.splits option.splits prod.splits)
qed

lemma GetOrWait_answer:
  assumes "store_inv E key J" and "J (cache_store ch)"
    and "GetOrWait (pe_tq E) (pe_wait E) ch key = (ch', v, flags, ok, waited)"
  shows "J (cache_store ch')" and "ok \<Longrightarrow> is_answer (cached_value v)"
proof -
  obtain ch1 v1 f1 ok1 where g: "Get (pe_tq E) ch key = (ch1, v1, f1, ok1)" by (metis prod_cases4)
  obtain ch2 f loaded where l: "LoadOrStore ch1 key = (ch2, f, loaded)" by (metis prod_cases3)
  obtain ch3 w where wt: "pe_wait E ch2 f = (ch3, w)" by (cases "pe_wait E ch2 f")
  obtain ch4 v4 f4 ok4 where g4: "Get (pe_tq E) ch3 key = (ch4, v4, f4, ok4)" by (metis prod_cases4)
  have s2: "cache_store ch2 = cache_store ch1"
    using l by (auto simp: LoadOrStore_def Let_def split: option.splits)
  have j1: "J (cache_store ch1)" "ok1 \<Longrightarrow> is_answer (cached_value v1)"
    using Get_answer [OF assms(1,2) g] by blast+
  have "J (cache_store (fst (pe_wait E ch2 f)))"
    using assms(1) j1(1) s2 unfolding store_inv_def by metis
  then have j3: "J (cache_store ch3)" by (simp add: wt)
  note j4 = Get_answer [OF assms(1) j3 g4]
  show "J (cache_store ch')" and "ok \<Longrightarrow> is_answer (cached_value v)"
    using assms(3) j1 j3 j4 s2 g l wt g4
    by (cases ok1; cases loaded; cases w; cases ok4; simp add: GetOrWait_def)+
qed

abbreviation pg_stored :: "'s pgConn \<Rightarrow> 's" where
  "pg_stored c \<equiv> cache_store (pp_cache (pg_proxy c))"

lemma CancelInflight_store: "CancelInflight ch key = Inr ch' \<Longrightarrow> cache_store ch' = cache_store ch"
  by (cases "LoadAndDelete ch key"; cases "snd (LoadAndDelete ch key)")
    (auto simp: CancelInflight_def dest!: LoadAndDelete_store close_done_store)

lemma SetAndNotify_not_stored:
  assumes "SetAndNotify ops ch key v ttl = Inr ch'" and "\<not> ttl > 0"
  shows "cache_store ch' = cache_store ch"
  using assms by (intro CancelInflight_store [of ch key]) (simp add: SetAndNotify_def CancelInflight_def)

text \<open>Fetching rows writes nothing to the client and stores nothing.\<close>

definition still :: "'s pgConn \<Rightarrow> 's pgConn \<Rightarrow> bool" where
  "still c c' \<longleftrightarrow> pg_out c' = pg_out c \<and> pg_stored c' = pg_stored c"

interpretation still: step_relation still
  by unfold_locales (auto simp: still_def)

lemma still_cancel: "steps still (pg_cancel k)"
proof (rule stepsI)
  fix c
  obtain r t where run: "pg_cancel k c = (r, t)" by (cases "pg_cancel k c")
  from CancelInflight_store run have "still c t"
    by (cases k; cases "CancelInflight (pp_cache (pg_proxy c)) (the k)") (auto simp: still_def pg_cache_update_def)
  then show "still c (snd (pg_cancel k c))" by (simp add: run)
qed

lemma still_select: "steps still (pg_select_db E q)"
  unfolding pg_select_db_def pg_GetReplica_def connectToBackend_def pg_next_def pg_primary_def
  by (intro still.rules still.steps_modify) (simp_all add: still_def)

lemma still_fetch_rows: "steps still (pg_fetch_rows E q ps k)"
  unfolding pg_fetch_rows_def db_Query_def pg_next_def
  by (intro still.rules still.steps_modify still_select still_cancel) (simp_all add: still_def)

definition answered :: "('s \<Rightarrow> bool) \<Rightarrow> 's pgConn \<Rightarrow> 's pgConn \<Rightarrow> bool" where
  "answered J c t \<longleftrightarrow> J (pg_stored t) \<and> (\<exists>bs. pg_out t = pg_out c @ bs \<and> is_answer bs)"

lemma answeredI:
  assumes "pg_out t = pg_out c @ body @ ready_message" and "pg_stored t = pg_stored c" and "J (pg_stored c)" and "unready body"
  shows "answered J c t"
  using assms is_answerI [of body] unfolding answered_def by auto

lemma batched_query_answered:
  assumes "pg_batched_query E q c = (Ok (), t)" and w: "\<forall>n. pe_write_error E n = None" and "J (pg_stored c)"
  shows "answered J c t"
proof -
  let ?res = "pe_Enqueue E (pg_tick c) (GetBatchKey q) (pq_Query q) [] (pq_BatchMs q)"
  show ?thesis
  proof (cases "res_Error ?res")
    case (Some e)
    then have "pg_out t = pg_out c @ encodeMessage msgErrorResponse (error_payload ''ERROR'' ''42000'' e) @ ready_message"
      "pg_stored t = pg_stored c"
      using assms(1) by (auto simp: pg_batched_query_def pg_record_def Let_def write_run [OF w] split: if_splits)
    then show ?thesis
      using assms(3) by (rule answeredI) (rule unready_parts)
  next
    case None
    then have "pg_out t = pg_out c @ batch_response ?res @ ready_message" "pg_stored t = pg_stored c"
      using assms(1)
      by (auto simp: pg_batched_query_def pg_record_def Let_def write_run [OF w] note_batch_def pg_served_def split: if_splits)
    then show ?thesis
      using assms(3) by (rule answeredI) (rule unready_responses)
  qed
qed

lemma fetch_answered:
  assumes "pg_fetch E q c = (Ok (), t)" and w: "\<forall>n. pe_write_error E n = None" and "J (pg_stored c)"
    and "IsCacheable q \<Longrightarrow> store_inv E (pq_Query q) J"
  shows "answered J c t"
  using assms(1) unfolding pg_fetch_def
proof (cases rule: andthen_cases)
  case (Ok x c1)
  have c1: "pg_out c1 = pg_out c" "pg_stored c1 = pg_stored c"
    using stepsD [OF still.steps_attempt [OF still_fetch_rows] Ok(1)] by (simp_all add: still_def)
  show ?thesis
  proof (cases x)
    case (Inl err)
    then have "pg_out t = pg_out c @ encodeMessage msgErrorResponse (error_payload ''ERROR'' ''42000'' (error_text err)) @ ready_message"
      "pg_stored t = pg_stored c"
      using Ok(2) c1 by (auto simp: write_run [OF w])
    then show ?thesis
      using assms(3) by (rule answeredI) (rule unready_parts)
  next
    case (Inr nr)
    obtain name rows where nr: "nr = (name, rows)" by (cases nr)
    let ?body = "rows_response ''OK'' (rs_Columns rows) (rs_rows rows)"
    let ?c1 = "c1\<lparr>st_lastBackend := name, st_lastCacheHit := False,
        pg_metrics := pg_metrics c1 @ database_calls name (pg_labels q)\<rparr>"
    have ans: "is_answer (?body @ ready_message)"
      by (intro is_answerI unready_responses)
    have "next_do (pg_store E (query_key q) (?body @ ready_message) (pq_TTL q)) (ignore (pg_Write E (?body @ ready_message))) ?c1 = (Ok (), t)"
      using Ok(2) Inr nr by (auto simp: pg_served_def pg_record_def Let_def split: if_splits)
    then obtain c2 where st: "pg_store E (query_key q) (?body @ ready_message) (pq_TTL q) ?c1 = (Ok (), c2)"
      and t: "t = c2\<lparr>pg_tick := pg_tick c2 + 1, pg_out := pg_out c2 @ ?body @ ready_message\<rparr>"
      by (cases rule: andthen_cases) (auto simp: write_run [OF w])
    have "J (pg_stored c2) \<and> pg_out c2 = pg_out c"
    proof (cases "query_key q")
      case None
      then show ?thesis using st c1 assms(3) by (auto simp: pg_store_def)
    next
      case (Some key)
      then have key: "IsCacheable q" "key = pq_Query q" by (auto simp: query_key_def split: if_splits)
      let ?ttl = "ttl_duration (pq_TTL q)"
      obtain ch where ch: "SetAndNotify (pe_tq E) (pp_cache (pg_proxy c1)) key (?body @ ready_message) ?ttl = Inr ch"
        and c2: "pg_stored c2 = cache_store ch" "pg_out c2 = pg_out c1"
        using st Some by (cases "SetAndNotify (pe_tq E) (pp_cache (pg_proxy c1)) key (?body @ ready_message) ?ttl")
          (auto simp: pg_store_def pg_cache_update_def)
      have "J (cache_store ch)"
      proof (cases "?ttl > 0")
        case True
        then show ?thesis
          using SetAndNotify_store [OF ch] assms(3,4) key c1 ans by (auto simp: store_inv_def)
      next
        case False
        then show ?thesis using SetAndNotify_not_stored [OF ch] c1 assms(3) by simp
      qed
      then show ?thesis using c1 c2 by simp
    qed
    then show ?thesis
      unfolding t answered_def using ans by (auto intro!: exI [of _ "?body @ ready_message"])
  qed
qed simp_all

lemma uncached_answered:
  assumes "pg_uncached E q c = (Ok (), t)" and "\<forall>n. pe_write_error E n = None" and "J (pg_stored c)"
    and "IsCacheable q \<Longrightarrow> store_inv E (pq_Query q) J"
  shows "answered J c t"
proof (cases "pg_batches q c")
  case True
  then show ?thesis
    using assms by (intro batched_query_answered [of E q c t J]) (simp_all add: pg_uncached_def)
next
  case False
  then show ?thesis
    using assms by (intro fetch_answered [of E q c t J]) (simp_all add: pg_uncached_def)
qed

lemma cached_answer_answer:
  assumes "pg_cached_answer E q c = (r, t)" and inv: "store_inv E (pq_Query q) J" and "J (pg_stored c)"
  shows "J (pg_stored t)" and "pg_out t = pg_out c" and "r = Ok (Some (name, bs)) \<Longrightarrow> is_answer bs"
proof -
  obtain ch1 v1 f1 ok1 where g1: "Get (pe_tq E) (pp_cache (pg_proxy c)) (pq_Query q) = (ch1, v1, f1, ok1)"
    by (metis prod_cases4)
  obtain ch2 v2 f2 ok2 w2 where g2: "GetOrWait (pe_tq E) (pe_wait E) ch1 (pq_Query q) = (ch2, v2, f2, ok2, w2)"
    by (metis prod_cases5)
  note j1 = Get_answer [where J = J, OF inv assms(3) g1]
  note j2 = GetOrWait_answer [where J = J, OF inv j1(1) g2]
  note run = cached_answer_run [OF assms(1) g1 g2]
  from run show out: "pg_out t = pg_out c" by blast
  from run j1(1) j2(1) show "J (pg_stored t)" by auto
  assume "r = Ok (Some (name, bs))"
  with run have "ok1 \<and> bs = cached_value v1 \<or> ok2 \<and> bs = cached_value v2"
    by (cases "w2 \<and> ok2") (auto split: if_splits)
  with j1(2) j2(2) show "is_answer bs" by blast
qed

lemma answered_after: "answered J c1 t \<Longrightarrow> pg_out c1 = pg_out c \<Longrightarrow> answered J c t"
  by (simp add: answered_def)

lemma run_query_answered:
  assumes "pg_run_query E q c = (Ok (), t)" and w: "\<forall>n. pe_write_error E n = None" and "J (pg_stored c)"
    and inv: "store_inv E (pq_Query q) J"
  shows "answered J c t"
proof (cases "IsCacheable q")
  case True
  let ?use = "\<lambda>answer. case answer of
            Some (name, cached) \<Rightarrow> next_do (pg_served name True) (ignore (pg_Write E cached))
          | None \<Rightarrow> pg_uncached E q"
  have "andthen (pg_cached_answer E q) ?use c = (Ok (), t)"
    using assms(1) True by (simp add: pg_run_query_def)
  then show ?thesis
  proof (cases rule: andthen_cases)
    case (Ok answer c1)
    note ca = cached_answer_answer [OF Ok(1) inv assms(3)]
    show ?thesis
    proof (cases answer)
      case None
      then have "pg_uncached E q c1 = (Ok (), t)" using Ok(2) by simp
      from uncached_answered [OF this w, of J] ca(1,2) inv show ?thesis by (auto intro: answered_after)
    next
      case (Some nc)
      obtain name bs where nc: "nc = (name, bs)" by (cases nc)
      have "t = c1\<lparr>st_lastBackend := name, st_lastCacheHit := True, pg_tick := pg_tick c1 + 1, pg_out := pg_out c1 @ bs\<rparr>"
        using Ok(2) Some nc by (simp add: pg_served_def write_run [OF w])
      then show ?thesis
        using ca Some nc by (auto simp: answered_def)
    qed
  qed simp_all
next
  case False
  then show ?thesis
    using assms by (intro uncached_answered [of E q c t J]) (simp_all add: pg_run_query_def)
qed


section \<open>Prepared statements\<close>

text \<open>The messages of a client that prepares, binds and executes a statement.\<close>

definition parse_message :: "string \<Rightarrow> string \<Rightarrow> bytes" where
  "parse_message stmt query = bytes_of stmt @ [0] @ bytes_of query @ [0] @ be_bytes 2 0"

definition bind_message :: "string \<Rightarrow> string \<Rightarrow> nat list \<Rightarrow> bytes option list \<Rightarrow> bytes \<Rightarrow> bytes" where
  "bind_message portal stmt formats params tail = bytes_of portal @ [0] @ bytes_of stmt @ [0] @ bind_body formats params tail"

definition execute_message :: "string \<Rightarrow> bytes" where
  "execute_message portal = bytes_of portal @ [0] @ be_bytes 4 0"

lemma handleParse_run:
  assumes "\<forall>n. pe_write_error E n = None" and "c_string stmt" and "c_string query"
  shows "pg_dispatch E msgParse (parse_message stmt query) c =
    (Ok (), c\<lparr>st_preparedStatements := mset_key (st_preparedStatements c) stmt query, pg_tick := pg_tick c + 3,
       pg_out := pg_out c @ encodeMessage msgParseComplete []\<rparr>)"
proof -
  have "parse_Parse (parse_message stmt query) = Inr (stmt, query)"
    using assms(2,3) by (simp add: parse_Parse_def parse_message_def c_string_def)
  then show ?thesis
    by (simp add: pg_dispatch_def msg_defs report_def handleParse_def write_run [OF assms(1)])
qed

lemma handleBind_run:
  assumes "\<forall>n. pe_write_error E n = None" and "c_string portal" and "c_string stmt"
    and "mget (st_preparedStatements c) stmt = Some query" and "bind_values (bind_body formats params tail) = Inr vs"
  shows "pg_dispatch E msgBind (bind_message portal stmt formats params tail) c =
    (Ok (), c\<lparr>st_portalStatements := mset_key (st_portalStatements c) portal stmt,
       st_boundParams := mset_key (st_boundParams c) portal vs, pg_tick := pg_tick c + 3,
       pg_out := pg_out c @ encodeMessage msgBindComplete []\<rparr>)"
  using assms(2-)
  by (simp add: pg_dispatch_def msg_defs report_def handleBind_def bind_message_def c_string_def write_run [OF assms(1)])

lemma handleExecute_run:
  assumes "c_string portal" and "mget (st_boundParams c) portal = Some ps" and "mget (st_portalStatements c) portal = Some stmt"
    and "mget (st_preparedStatements c) stmt = Some query"
  shows "pg_dispatch E msgExecute (execute_message portal) c = report E False (execute_portal E (Parse query) ps) c"
  using assms
  by (simp add: pg_dispatch_def msg_defs report_def attempt_def andthen_def pg_handleExecute_def execute_message_def c_string_def)

lemma fetch_rows_primary:
  assumes "\<not> IsCacheable q" and "pe_Query E (pg_tick c) (st_primaryDB c) (pq_Query q) ps = Inr rows"
  shows "pg_fetch_rows E q ps None c =
    (Ok (''primary'', rows), c\<lparr>pg_tick := pg_tick c + 1, pg_sent := pg_sent c @ [(st_primaryDB c, pq_Query q, ps)]\<rparr>)"
  using assms by (simp add: pg_fetch_rows_def pg_select_db_def pg_primary_def db_Query_def on_error_def)

lemma execute_on_primary:
  assumes "\<forall>n. pe_write_error E n = None" and "\<not> IsCacheable q" and "\<not> pg_batches q c"
    and "pe_Query E (pg_tick c) (st_primaryDB c) (pq_Query q) ps = Inr rows"
    and "checks_labels (pe_prom E)" and "valid_utf8 (pq_File q)"
  shows "report E False (execute_portal E q ps) c =
    (Ok (), c\<lparr>pg_tick := pg_tick c + 2, pg_sent := pg_sent c @ [(st_primaryDB c, pq_Query q, ps)],
       st_lastBackend := ''primary'', st_lastCacheHit := False,
       pg_metrics := pg_metrics c @ database_calls ''primary'' (pg_labels q),
       pg_out := pg_out c @ rows_response ''INSERT 0 1'' (rs_Columns rows) (rs_rows rows)\<rparr>)"
proof -
  have "accepts_all (pe_prom E) (database_calls ''primary'' (pg_labels q))"
    using assms(6) by (simp add: calls_accepted [OF assms(5)])
  moreover
  have "execute_portal E q ps c = pg_execute_fetch E q ps None c"
    using assms(2,3) by (simp add: execute_portal_def portal_key_def pg_execute_uncached_def)
  ultimately show ?thesis
    by (simp add: report_def pg_execute_fetch_def fetch_rows_primary [OF assms(2,4)] pg_served_def pg_record_def pg_store_def Let_def
        write_run [OF assms(1)])
qed


section \<open>Examples\<close>

lemma demo_writes: "\<forall>n. pe_write_error pg_demo_env n = None"
  by (simp add: pg_demo_env_def)

lemma demo_wait: "\<forall>ch f. flights_of (fst (pe_wait pg_demo_env ch f)) \<subseteq> flights_of ch"
  by (simp add: pg_demo_env_def)

theorem pg_query_leaves_no_flight_witness:
  "flights_of (pp_cache (pg_proxy (snd (pg_handleQuery pg_demo_env (bytes_of ''/* ttl:9 */ SELECT 1'') pg_demo_conn)))) \<subseteq> {} \<and>
   fst (pg_handleQuery pg_demo_env (bytes_of ''/* ttl:9 */ SELECT 1'') pg_demo_conn) = Ok ()"
proof
  let ?q = "bytes_of ''/* ttl:9 */ SELECT 1''"
  show ok: "fst (pg_handleQuery pg_demo_env ?q pg_demo_conn) = Ok ()"
    by code_simp
  obtain r t where run: "pg_handleQuery pg_demo_env ?q pg_demo_conn = (r, t)"
    by (cases "pg_handleQuery pg_demo_env ?q pg_demo_conn")
  moreover have "flights_of (pp_cache (pg_proxy pg_demo_conn)) = {}"
    by (simp add: pg_demo_conn_def set_state_def pg_start_def pg_demo_proxy_def pg_New_def New_cache_def flights_of_def mkeys_def)
  ultimately show "flights_of (pp_cache (pg_proxy (snd (pg_handleQuery pg_demo_env ?q pg_demo_conn)))) \<subseteq> {}"
    using pg_query_leaves_no_flight [OF run _ demo_wait] ok by simp
qed

lemma demo_store_inv: "store_inv pg_demo_env key (\<lambda>s. \<forall>(k, v) \<in> set s. is_answer v)"
  by (auto simp: store_inv_def pg_demo_env_def demo_store_def split: option.splits dest: map_of_SomeD)



text \<open>Where the code departs from the protocol or from what its users expect. Closing a portal only forgets its parameters:
  executing it afterwards runs the statement without them.\<close>

lemma closed_portal_runs:
  "map snd (pg_sent (snd (run_messages pg_demo_env [(msgParse, parse_message ''s'' ''DELETE FROM t''),
      (msgBind, bind_message ''p'' ''s'' [] [Some [0x37]] []), (msgClose, [0x50, 0x70, 0]), (msgExecute, execute_message ''p'')] [] pg_demo_conn))) =
   [(''DELETE FROM t'', [])]"
  by code_simp

text \<open>After an error in Parse the client is told that the proxy is ready, and again for its Sync message.\<close>

lemma parse_error_ready_twice:
  "pg_out (snd (run_messages pg_demo_env [(msgParse, [1]), (msgSync, [])] [] pg_demo_conn)) =
   encodeMessage msgErrorResponse (error_payload ''ERROR'' ''42000'' ''malformed Parse message: no statement name terminator'') @
   ready_message @ ready_message"
proof -
  have "parse_Parse [1] = Inl ''malformed Parse message: no statement name terminator''" "pg_out pg_demo_conn = []"
    by code_simp+
  then show ?thesis
    by (simp add: pg_dispatch_def msg_defs report_def handleParse_def write_run [OF demo_writes, unfolded msg_defs])
qed

text \<open>A read with a TTL inside a transaction goes to a replica.\<close>

lemma transaction_reads_replica:
  "map (\<lambda>(db, query, params). (db_dsn db, query)) (pg_sent (snd (run_messages pg_demo_env
      [(msgQuery, bytes_of ''BEGIN''), (msgQuery, bytes_of ''/* ttl:9 */ SELECT 1'')] [] pg_demo_conn))) =
   [(''host=p port=1 user=u password=w dbname=d sslmode=disable'', ''BEGIN''),
    (''host=r port=1 user=u password=w dbname=d sslmode=disable'', ''SELECT 1'')]"
  by code_simp

text \<open>A transaction that is begun with a semicolon is not noticed, so that its hinted writes are batched outside of it.\<close>

lemma begin_with_semicolon:
  "st_inTransaction (snd (pg_handleQuery pg_demo_env (bytes_of ''BEGIN;'') pg_demo_conn)) = False"
  "st_inTransaction (snd (pg_handleQuery pg_demo_env (bytes_of ''BEGIN'') pg_demo_conn)) = True"
  by code_simp+

text \<open>Different parameters have the same cache key, since nothing separates them.\<close>

lemma portal_keys_collide:
  "portal_key E database q [VString ''1'', VString ''23''] = portal_key E database q [VString ''12'', VString ''3'']"
  by (simp add: portal_key_def)

text \<open>Describing a statement with a large parameter number ends the proxy.\<close>

lemma describe_panics:
  "fst (pg_dispatch pg_demo_env msgDescribe [0x53, 0x73, 0]
     (pg_demo_conn\<lparr>st_preparedStatements := [(''s'', ''SELECT $9223372036854775807'')]\<rparr>)) = Panic MakeSliceLen"
proof -
  have "cut_zero [0x73, 0 :: byte] = Some ([0x73], [])" "string_of [0x73] = ''s''"
    by code_simp+
  then show ?thesis
    by (simp add: pg_dispatch_def msg_defs report_def handleDescribe_def mget_def Let_def param_count_panics)
qed

text \<open>Rows that end with an error are sent and cached as a complete result.\<close>

lemma truncated_result_cached:
  "let E = pg_demo_env\<lparr>pe_Query := (\<lambda>n db query params. Inr \<lparr>rs_Columns = [''x''], rs_rows = [[VInt 1]], rs_Err = Some ''lost''\<rparr>)\<rparr>
   in pg_out (snd (pg_handleQuery E (bytes_of ''/* ttl:9 */ SELECT 1'') pg_demo_conn)) =
        rows_response ''OK'' [''x''] [[VInt 1]] @ ready_message \<and>
      map fst (cache_store (pp_cache (pg_proxy (snd (pg_handleQuery E (bytes_of ''/* ttl:9 */ SELECT 1'') pg_demo_conn))))) = [''SELECT 1'']"
  by code_simp

text \<open>When no handle for the replica can be opened the primary is asked, but the status names the replica.\<close>

lemma primary_reported_as_replica:
  "let E = pg_demo_env\<lparr>pe_Open := (\<lambda>n dsn. Some ''refused'')\<rparr>;
       t = snd (pg_handleQuery E (bytes_of ''/* ttl:9 */ SELECT 1'') pg_demo_conn)
   in map fst (pg_sent t) = [st_primaryDB pg_demo_conn] \<and> st_lastBackend t = ''replicas[0]''"
  by code_simp

text \<open>The value of a RETURNING clause is cut to 32 bits.\<close>

lemma returned_value_cut: "returned_int32 4294967301 = returned_int32 5"
  by (simp add: returned_int32_def)

text \<open>The data source name is put together without quoting: what a client sends as a name or a password can set other
  parameters of the connection, and different credentials can give the same name.\<close>

lemma dsn_not_quoted:
  "pg_dsn addr (u @ '' password='' @ v) w d = pg_dsn addr u (v @ '' password='' @ w) d"
  by (simp add: pg_dsn_def Let_def split: option.splits)

end
