(* ===== verification/Startup.thy ===== *)
theory Startup
  imports Maria_Conn Pg_Conn WB_Manager
begin

text \<open>
  The process, \<^verbatim>\<open>cmd/tqdbproxy/main.go\<close>, with the start of the two proxies: the pools and the cache, the listeners, the
  write batch managers with their databases, and the signals. The drivers and the network are the record \<open>start_env\<close>,
  the INI library and the environment variables parameters as in \<open>Load\<close>. The HTTP server for the metrics
  and the logging are left out. The lemmas show what a running process serves, at every
  moment between its start and its end.
\<close>

section \<open>Starting a proxy\<close>

datatype start_error = NoDefaultPool string | OpenFailed string | ListenFailed string | SocketFailed string

text \<open>The errors of \<^verbatim>\<open>sql.Open\<close> and \<^verbatim>\<open>net.Listen\<close>; Prometheus, and the metrics that are registered before \<^verbatim>\<open>main\<close> runs.\<close>

record start_env =
  sv_Open :: "string \<Rightarrow> string \<Rightarrow> string option"
  sv_Listen :: "string \<Rightarrow> string \<Rightarrow> string option"
  sv_prom :: prometheus
  sv_registered :: "metric list"

text \<open>What a proxy has after its start: the database of the write batch manager, by its data source name, the
  manager with its configuration, the addresses it accepts connections on, and the files it tried to remove; an error of a removal
  is only logged.\<close>

record server =
  sv_db :: "string option"
  sv_writeBatch :: "(Manager \<times> Config) option"
  sv_listeners :: "(string \<times> string) list"
  sv_removed :: "string list"

definition no_server :: server where
  "no_server = \<lparr>sv_db = None, sv_writeBatch = None, sv_listeners = [], sv_removed = []\<rparr>"

text \<open>The listeners: TCP, and a socket if there is one in the configuration, whose old file is removed first.\<close>

definition start_listeners :: "start_env \<Rightarrow> ProxyConfig \<Rightarrow> server \<Rightarrow> start_error option \<times> server" where
  "start_listeners E pcfg sv =
     (case sv_Listen E ''tcp'' (pc_Listen pcfg) of
        Some err \<Rightarrow> (Some (ListenFailed err), sv)
      | None \<Rightarrow>
          let sv1 = sv\<lparr>sv_listeners := sv_listeners sv @ [(''tcp'', pc_Listen pcfg)]\<rparr>
          in if pc_Socket pcfg \<noteq> [] then
               let sv2 = sv1\<lparr>sv_removed := sv_removed sv1 @ [pc_Socket pcfg]\<rparr>
               in case sv_Listen E ''unix'' (pc_Socket pcfg) of
                    Some err \<Rightarrow> (Some (SocketFailed err), sv2)
                  | None \<Rightarrow> (None, sv2\<lparr>sv_listeners := sv_listeners sv2 @ [(''unix'', pc_Socket pcfg)]\<rparr>)
             else (None, sv1))"

definition maria_start_dsn :: "string \<Rightarrow> string" where
  "maria_start_dsn addr =
     (if length addr > 5 \<and> take 5 addr = ''unix:'' then ''tqdbproxy:tqdbproxy@unix('' @ drop 5 addr @ '')/tqdbproxy''
      else ''tqdbproxy:tqdbproxy@tcp('' @ addr @ '')/tqdbproxy'')"

definition maria_Start :: "start_env \<Rightarrow> 's Proxy \<Rightarrow> server \<Rightarrow> start_error option \<times> 's Proxy \<times> server" where
  "maria_Start E p sv =
     (case mget (px_pools p) (pc_Default (px_config p)) of
        None \<Rightarrow> (Some (NoDefaultPool (pc_Default (px_config p))), p, sv)
      | Some a \<Rightarrow>
          let dsn = maria_start_dsn (GetPrimary (ph_pool (px_heap p) a))
          in case sv_Open E ''mysql'' dsn of
               Some err \<Rightarrow> (Some (OpenFailed err), p, sv)
             | None \<Rightarrow>
                 let wbCfg = \<lparr>cfg_MaxBatchSize = wbc_MaxBatchSize (pc_WriteBatch (px_config p)),
                              cfg_UseCopy = wbc_UseCopy (pc_WriteBatch (px_config p))\<rparr>;
                     (err, sv1) = start_listeners E (px_config p)
                       (sv\<lparr>sv_db := Some dsn, sv_writeBatch := Some (New_manager, wbCfg)\<rparr>)
                 in (err, p\<lparr>px_writeBatch := True\<rparr>, sv1))"

text \<open>The PostgreSQL proxy cuts the address at its last colon, and its manager has the default for \<^verbatim>\<open>UseCopy\<close>.\<close>

definition pg_start_dsn :: "string \<Rightarrow> string" where
  "pg_start_dsn addr =
     (let (host, port) = (case last_colon addr of Some hp \<Rightarrow> hp | None \<Rightarrow> (addr, ''5432''));
          rest = '' user=tqdbproxy password=tqdbproxy dbname=tqdbproxy sslmode=disable''
      in if length addr > 5 \<and> take 5 addr = ''unix:'' then ''host='' @ drop 5 addr @ rest
         else ''host='' @ host @ '' port='' @ port @ rest)"

definition pg_Start :: "start_env \<Rightarrow> 's pgProxy \<Rightarrow> server \<Rightarrow> start_error option \<times> 's pgProxy \<times> server" where
  "pg_Start E p sv =
     (case mget (pp_pools p) (pc_Default (pp_config p)) of
        None \<Rightarrow> (Some (NoDefaultPool (pc_Default (pp_config p))), p, sv)
      | Some a \<Rightarrow>
          let dsn = pg_start_dsn (GetPrimary (ph_pool (pp_heap p) a))
          in case sv_Open E ''postgres'' dsn of
               Some err \<Rightarrow> (Some (OpenFailed err), p, sv)
             | None \<Rightarrow>
                 let wbCfg = \<lparr>cfg_MaxBatchSize = wbc_MaxBatchSize (pc_WriteBatch (pp_config p)), cfg_UseCopy = False\<rparr>;
                     (err, sv1) = start_listeners E (pp_config p)
                       (sv\<lparr>sv_db := Some dsn, sv_writeBatch := Some (New_manager, wbCfg)\<rparr>)
                 in (err, p\<lparr>pp_writeBatch := True\<rparr>, sv1))"

text \<open>\<^verbatim>\<open>Stop\<close> of the MariaDB proxy; \<open>closing\<close> gives the errors of closing the listeners and the database. The error
  texts are collected. The manager stays in the proxy, closed.\<close>

definition maria_Stop :: "(string \<times> string \<Rightarrow> string option) \<Rightarrow> (string \<Rightarrow> string option) \<Rightarrow> server \<Rightarrow> string list \<times> server" where
  "maria_Stop close_listener close_database sv =
     (List.map_filter close_listener (sv_listeners sv) @
        (case sv_db sv of None \<Rightarrow> [] | Some dsn \<Rightarrow> (case close_database dsn of None \<Rightarrow> [] | Some e \<Rightarrow> [e])),
      sv\<lparr>sv_writeBatch := map_option (\<lambda>(m, cfg). (Close_manager m, cfg)) (sv_writeBatch sv),
         sv_listeners := [], sv_db := None\<rparr>)"

section \<open>Accepting connections\<close>

text \<open>The results of \<^verbatim>\<open>Accept\<close>: a connection, the error of a closed listener, or another error. A loop hands out connection
  numbers from a 32-bit counter; it returns the numbers of the connections that it starts and the counter.\<close>

datatype accepted = Accepted | AcceptClosed | AcceptError string

fun maria_acceptLoop :: "32 word \<Rightarrow> accepted list \<Rightarrow> 32 word list \<times> 32 word" where
  "maria_acceptLoop connID [] = ([], connID)"
| "maria_acceptLoop connID (AcceptClosed # _) = ([], connID)"
| "maria_acceptLoop connID (AcceptError _ # rs) = maria_acceptLoop connID rs"
| "maria_acceptLoop connID (Accepted # rs) =
     (case maria_acceptLoop (connID + 1) rs of (ids, n) \<Rightarrow> ((connID + 1) # ids, n))"

fun pg_acceptLoop :: "32 word \<Rightarrow> accepted list \<Rightarrow> 32 word list \<times> 32 word" where
  "pg_acceptLoop connID [] = ([], connID)"
| "pg_acceptLoop connID (Accepted # rs) =
     (case pg_acceptLoop (connID + 1) rs of (ids, n) \<Rightarrow> ((connID + 1) # ids, n))"
| "pg_acceptLoop connID (_ # rs) = pg_acceptLoop connID rs"

section \<open>The process\<close>

datatype fatal = ConfigFailed string | MetricsPanicked panic | CacheFailed string | MariaFailed start_error | PgFailed start_error

datatype signal = SIGHUP | SIGINT | SIGTERM

text \<open>The variables of \<^verbatim>\<open>main\<close>.\<close>

record 's process =
  mariadbPools :: "(string, nat) gomap"
  mariadbProxy :: "'s Proxy"
  mariadbServer :: server
  pgPools :: "(string, nat) gomap"
  pgProxy :: "'s pgProxy"
  pgServer :: server

definition empty_heap :: PoolHeap where
  "empty_heap = \<lparr>ph_pool = (\<lambda>_. NewPool [] []), ph_next = 0\<rparr>"

text \<open>The configuration and the metrics come first.\<close>

definition init_process :: "start_env \<Rightarrow> string + AppConfig \<Rightarrow> fatal + AppConfig" where
  "init_process E loaded =
     (case loaded of
        Inl err \<Rightarrow> Inl (ConfigFailed err)
      | Inr cfg \<Rightarrow>
          (case metrics_Init (sv_prom E) \<lparr>ms_once = False, ms_registered = sv_registered E\<rparr> of
             Inl p \<Rightarrow> Inl (MetricsPanicked p)
           | Inr _ \<Rightarrow> Inr cfg))"

definition main_start ::
    "start_env \<Rightarrow> (int \<Rightarrow> int \<Rightarrow> int \<Rightarrow> string + 's) \<Rightarrow> string + AppConfig \<Rightarrow> fatal + 's process" where
  "main_start E sharded loaded =
     (case init_process E loaded of
        Inl f \<Rightarrow> Inl f
      | Inr cfg \<Rightarrow>
          (case cache_New sharded DefaultCacheConfig of
             Inl err \<Rightarrow> Inl (CacheFailed err)
           | Inr queryCache \<Rightarrow>
               let (mh, mpools) = initPools empty_heap (pc_Backends (app_MariaDB cfg));
                   (merr, mproxy, msv) = maria_Start E (New_proxy (app_MariaDB cfg) mpools mh queryCache) no_server
               in case merr of
                    Some err \<Rightarrow> Inl (MariaFailed err)
                  | None \<Rightarrow>
                      let (ph, ppools) = initPools empty_heap (pc_Backends (app_Postgres cfg));
                          (perr, pproxy, psv) = pg_Start E (pg_New (app_Postgres cfg) ppools ph queryCache) no_server
                      in case perr of
                           Some err \<Rightarrow> Inl (PgFailed err)
                         | None \<Rightarrow> Inr \<lparr>mariadbPools = mpools, mariadbProxy = mproxy, mariadbServer = msv,
                                       pgPools = ppools, pgProxy = pproxy, pgServer = psv\<rparr>))"

definition reload :: "AppConfig \<Rightarrow> 's process \<Rightarrow> 's process" where
  "reload newCfg p =
     (let (mh, mpools) = updatePools (px_heap (mariadbProxy p)) (mariadbPools p) (pc_Backends (app_MariaDB newCfg));
          (ph, ppools) = updatePools (pp_heap (pgProxy p)) (pgPools p) (pc_Backends (app_Postgres newCfg))
      in p\<lparr>mariadbPools := mpools,
           mariadbProxy := UpdateConfig (app_MariaDB newCfg) mpools ((mariadbProxy p)\<lparr>px_heap := mh\<rparr>),
           pgPools := ppools,
           pgProxy := pg_UpdateConfig (app_Postgres newCfg) ppools ((pgProxy p)\<lparr>pp_heap := ph\<rparr>)\<rparr>)"

text \<open>One round of the loop over the signals: no state is left when \<^verbatim>\<open>main\<close> returns.\<close>

fun on_signal :: "string + AppConfig \<Rightarrow> signal \<Rightarrow> 's process \<Rightarrow> 's process option" where
  "on_signal loaded SIGHUP p = (case loaded of Inl err \<Rightarrow> Some p | Inr newCfg \<Rightarrow> Some (reload newCfg p))"
| "on_signal loaded SIGINT p = None"
| "on_signal loaded SIGTERM p = None"

section \<open>Running\<close>

text \<open>What happens to the pools while the process runs: a connection or a health check changes one of them.\<close>

inductive pool_use :: "Pool \<Rightarrow> Pool \<Rightarrow> bool" where
  choice: "GetReplica p = Inr (p', res) \<Longrightarrow> pool_use p p'"
| probe: "pool_use p (checkReplica dial p addr)"

text \<open>
  The states of a process: after the start, after a signal, after the use of a pool, and with another content of the
  cache. \<open>lib n\<close> is the INI library at the time of one load, as the file may have been edited in between.
\<close>

inductive running ::
  "start_env \<Rightarrow> (nat \<Rightarrow> ('f, 'x) ini_lib) \<Rightarrow> (string \<Rightarrow> string) \<Rightarrow> string \<Rightarrow> 's process \<Rightarrow> bool"
  for E lib env path where
  start: "main_start E sharded (Configuration.Load (lib n) env path) = Inr p \<Longrightarrow> running E lib env path p"
| signal: "running E lib env path p \<Longrightarrow> on_signal (Configuration.Load (lib n) env path) sig p = Some p' \<Longrightarrow> running E lib env path p'"
| maria_use: "running E lib env path p \<Longrightarrow> pool_use (ph_pool (px_heap (mariadbProxy p)) a) q \<Longrightarrow>
    running E lib env path (p\<lparr>mariadbProxy := (mariadbProxy p)\<lparr>px_heap := update_pool (px_heap (mariadbProxy p)) a q\<rparr>\<rparr>)"
| pg_use: "running E lib env path p \<Longrightarrow> pool_use (ph_pool (pp_heap (pgProxy p)) a) q \<Longrightarrow>
    running E lib env path (p\<lparr>pgProxy := (pgProxy p)\<lparr>pp_heap := update_pool (pp_heap (pgProxy p)) a q\<rparr>\<rparr>)"
| cache_use: "running E lib env path p \<Longrightarrow>
    running E lib env path (p\<lparr>mariadbProxy := (mariadbProxy p)\<lparr>px_cache := ch\<rparr>, pgProxy := (pgProxy p)\<lparr>pp_cache := ch\<rparr>\<rparr>)"

section \<open>What a proxy serves\<close>

text \<open>The backends of a configuration have their pools, with the addresses of the configuration, and there are no other pools.\<close>

definition serves :: "ProxyConfig \<Rightarrow> PoolHeap \<Rightarrow> (string, nat) gomap \<Rightarrow> bool" where
  "serves pcfg h pools \<longleftrightarrow> config_ok pcfg \<and> pools_ok h pools \<and> (\<forall>a. pool_ok (ph_pool h a)) \<and>
     (\<forall>name be. mget (pc_Backends pcfg) name = Some be \<longrightarrow>
        (\<exists>a. mget pools name = Some a \<and> pool_primary (ph_pool h a) = be_Primary be \<and>
             pool_replicas (ph_pool h a) = be_Replicas be)) \<and>
     (\<forall>name. mget (pc_Backends pcfg) name = None \<longrightarrow> mget pools name = None)"

lemma pool_use_frame:
  assumes "pool_use p q" and "pool_ok p"
  shows "pool_ok q \<and> pool_primary q = pool_primary p \<and> pool_replicas q = pool_replicas p"
  using assms
proof cases
  case (choice res)
  then show ?thesis
    using assms(2) GetReplica_spec [OF assms(2)] find_candidates_Some [OF assms(2)]
    by (auto split: option.splits intro!: pool_ok_current assms(2) mod_less_divisor)
next
  case (probe dial addr)
  then show ?thesis
    using assms(2) by (simp add: checkReplica_set_health)
qed

lemma serves_use:
  assumes "serves pcfg h pools" and "pool_use (ph_pool h a) q"
  shows "serves pcfg (update_pool h a q) pools"
proof -
  have "pool_ok (ph_pool h a)"
    using assms(1) by (simp add: serves_def)
  note q = pool_use_frame [OF assms(2) this]
  show ?thesis
    using assms(1) q unfolding serves_def pools_ok_def update_pool_def by (auto 0 4)
qed

lemma mget_pools: "updatePools h current backends = (h', pools) \<Longrightarrow> mget pools name = None \<longleftrightarrow> mget backends name = None"
  by (induction backends arbitrary: h pools) (auto simp: mget_Cons split: prod.splits)

lemma updatePools_pool_ok:
  "updatePools h current backends = (h', pools) \<Longrightarrow> (\<forall>a. pool_ok (ph_pool h a)) \<Longrightarrow> pool_ok (ph_pool h' a)"
proof (induction h current backends arbitrary: h' pools a rule: updatePools.induct)
  case (2 h current name backend backends)
  then show ?case
    by (auto simp: update_pool_def alloc_pool_def UpdateReplicas_ok NewPool_ok split: prod.splits option.splits)
qed simp

text \<open>After a reload the pools are again different ones: pools that stay are different, and new ones are fresh.\<close>

lemma updatePools_pools_ok:
  assumes "updatePools h current backends = (h', pools)" and "pools_ok h current" and "map_ok backends"
  shows "pools_ok h' pools"
  using assms
proof (induction backends arbitrary: h pools)
  case (Cons x backends)
  obtain n b where x: "x = (n, b)" by (cases x)
  obtain h1 a1 pools1 where u: "updatePools h1 current backends = (h', pools1)" and pools: "pools = (n, a1) # pools1"
    and h1: "ph_next h \<le> ph_next h1" "a1 < ph_next h1" "case mget current n of Some a0 \<Rightarrow> a1 = a0 | None \<Rightarrow> a1 = ph_next h"
    using Cons.prems(1,2)
    by (auto simp: x pools_ok_def update_pool_def alloc_pool_def split: prod.splits option.splits)
  have ok1: "pools_ok h1 current"
    using Cons.prems(2) h1(1) unfolding pools_ok_def by (meson less_le_trans)
  have m: "map_ok backends" "mget backends n = None"
    using Cons.prems(3) by (auto simp: x map_ok_def mkeys_def mget_def map_of_eq_None_iff)
  have rest: "a < ph_next h' \<and> (case mget current name of Some a0 \<Rightarrow> a = a0 | None \<Rightarrow> ph_next h1 \<le> a)"
    if got: "mget pools1 name = Some a" for name a
  proof -
    obtain be where "mget backends name = Some be"
      using got mget_pools [OF u, of name] by (cases "mget backends name") auto
    from updatePools_spec [OF u ok1 m(1) this] got show ?thesis by auto
  qed
  have fresh: "mget pools1 name \<noteq> Some a1" for name
  proof
    assume s: "mget pools1 name = Some a1"
    then have "name \<noteq> n"
      using mget_pools [OF u, of n] m(2) by auto
    with rest [OF s] h1 Cons.prems(2) show False
      unfolding pools_ok_def by (cases "mget current name"; cases "mget current n") auto
  qed
  have "a1 < ph_next h'"
    using updatePools_frame [OF u ok1] h1(2) by simp
  with Cons.IH [OF u ok1 m(1)] fresh show ?case
    unfolding pools_ok_def pools by (auto simp: mget_Cons)
qed (auto simp: pools_ok_def)

lemma serves_reload:
  assumes "pools_ok h current" and "\<forall>a. pool_ok (ph_pool h a)" and "config_ok pcfg"
    and u: "updatePools h current (pc_Backends pcfg) = (h', pools)"
  shows "serves pcfg h' pools"
proof -
  have m: "map_ok (pc_Backends pcfg)"
    using assms(3) by (simp add: config_ok_def)
  have "\<exists>a. mget pools name = Some a \<and> pool_primary (ph_pool h' a) = be_Primary be \<and> pool_replicas (ph_pool h' a) = be_Replicas be"
    if "mget (pc_Backends pcfg) name = Some be" for name be
    using updatePools_spec [OF u assms(1) m that]
    by (auto simp: reloaded_def UpdateReplicas_def NewPool_def split: option.splits)
  then show ?thesis
    unfolding serves_def using updatePools_pools_ok [OF u assms(1) m] updatePools_pool_ok [OF u assms(2)] assms(3)
    mget_pools [OF u] by simp
qed

lemma serves_init: "config_ok pcfg \<Longrightarrow> initPools empty_heap (pc_Backends pcfg) = (h, pools) \<Longrightarrow> serves pcfg h pools"
  by (rule serves_reload [of empty_heap "[]"]) (simp_all add: pools_ok_def empty_heap_def NewPool_ok initPools_eq)

lemma serves_database:
  assumes "serves pcfg h pools" and "mget (pc_DBMap pcfg) db = Some name"
  shows "shard_name pcfg db = name \<and>
    (\<exists>be a. mget (pc_Backends pcfg) name = Some be \<and> be_Primary be \<noteq> [] \<and> mget pools name = Some a \<and>
       pool_ok (ph_pool h a) \<and> GetPrimary (ph_pool h a) = be_Primary be \<and> pool_replicas (ph_pool h a) = be_Replicas be)"
proof -
  have ok: "config_ok pcfg"
    using assms(1) by (simp add: serves_def)
  obtain be where "mget (pc_Backends pcfg) name = Some be" "be_Primary be \<noteq> []"
    using ok assms(2) unfolding config_ok_def by (metis option.exhaust)
  with shard_name_mapped [OF ok assms(2)] assms(1) show ?thesis
    unfolding serves_def GetPrimary_def by metis
qed

lemma config_ok_listen [simp]: "config_ok (pcfg\<lparr>pc_Listen := l\<rparr>) = config_ok pcfg"
  by (simp add: config_ok_def)

lemma Load_ok: "Configuration.Load lib env path = Inr cfg \<Longrightarrow> config_ok (app_MariaDB cfg) \<and> config_ok (app_Postgres cfg)"
  by (auto simp: Configuration.Load_def Let_def loadProxyConfig_ok split: sum.splits)

section \<open>Running processes\<close>

lemma start_listeners_frame:
  "start_listeners E pcfg sv = (err, sv') \<Longrightarrow> sv_db sv' = sv_db sv \<and> sv_writeBatch sv' = sv_writeBatch sv"
  by (auto simp: start_listeners_def Let_def split: option.splits if_splits)

lemma maria_Start_frame:
  assumes "maria_Start E p sv = (err, p', sv')"
  shows "px_config p' = px_config p" "px_pools p' = px_pools p" "px_heap p' = px_heap p" "px_cache p' = px_cache p"
  using assms by (auto simp: maria_Start_def Let_def split: option.splits prod.splits)

lemma pg_Start_frame:
  assumes "pg_Start E p sv = (err, p', sv')"
  shows "pp_config p' = pp_config p" "pp_pools p' = pp_pools p" "pp_heap p' = pp_heap p" "pp_cache p' = pp_cache p"
  using assms by (auto simp: pg_Start_def Let_def split: option.splits prod.splits)

lemma main_started:
  assumes "main_start E sharded (Inr cfg) = Inr p"
  obtains mh mpools msv mproxy ph ppools psv pproxy c where
    "cache_New sharded DefaultCacheConfig = Inr c"
    "initPools empty_heap (pc_Backends (app_MariaDB cfg)) = (mh, mpools)"
    "maria_Start E (New_proxy (app_MariaDB cfg) mpools mh c) no_server = (None, mproxy, msv)"
    "initPools empty_heap (pc_Backends (app_Postgres cfg)) = (ph, ppools)"
    "pg_Start E (pg_New (app_Postgres cfg) ppools ph c) no_server = (None, pproxy, psv)"
    "p = \<lparr>mariadbPools = mpools, mariadbProxy = mproxy, mariadbServer = msv, pgPools = ppools, pgProxy = pproxy, pgServer = psv\<rparr>"
  using assms by (auto simp: main_start_def init_process_def Let_def split: sum.splits prod.splits option.splits)

text \<open>The start does not fail for the metrics, unless something else has registered one of their names.\<close>

lemma start_registers_metrics:
  assumes "registers_new (sv_prom E)" and "mt_Name ` set (sv_registered E) \<inter> mt_Name ` set init_metrics = {}"
  shows "main_start E sharded loaded \<noteq> Inl (MetricsPanicked p)"
  using Init_registers_once [OF assms]
  by (auto simp: main_start_def init_process_def Let_def split: sum.splits prod.splits option.splits)

text \<open>The invariant of the process: the variables of \<^verbatim>\<open>main\<close> are the pools of the proxies, and these serve their configuration.\<close>

definition process_ok :: "'s process \<Rightarrow> bool" where
  "process_ok p \<longleftrightarrow> px_pools (mariadbProxy p) = mariadbPools p \<and> pp_pools (pgProxy p) = pgPools p \<and>
     px_cache (mariadbProxy p) = pp_cache (pgProxy p) \<and>
     serves (px_config (mariadbProxy p)) (px_heap (mariadbProxy p)) (mariadbPools p) \<and>
     serves (pp_config (pgProxy p)) (pp_heap (pgProxy p)) (pgPools p)"

lemma process_ok_start:
  assumes "main_start E sharded (Inr cfg) = Inr p" and "config_ok (app_MariaDB cfg)" "config_ok (app_Postgres cfg)"
  shows "process_ok p"
proof -
  obtain mh mpools msv mproxy ph ppools psv pproxy c where
    s: "initPools empty_heap (pc_Backends (app_MariaDB cfg)) = (mh, mpools)"
    "maria_Start E (New_proxy (app_MariaDB cfg) mpools mh c) no_server = (None, mproxy, msv)"
    "initPools empty_heap (pc_Backends (app_Postgres cfg)) = (ph, ppools)"
    "pg_Start E (pg_New (app_Postgres cfg) ppools ph c) no_server = (None, pproxy, psv)"
    "p = \<lparr>mariadbPools = mpools, mariadbProxy = mproxy, mariadbServer = msv, pgPools = ppools, pgProxy = pproxy, pgServer = psv\<rparr>"
    using main_started [OF assms(1)] by metis
  show ?thesis
    using serves_init [OF assms(2) s(1)] serves_init [OF assms(3) s(3)]
    by (simp add: process_ok_def s(5) maria_Start_frame [OF s(2)] pg_Start_frame [OF s(4)] New_proxy_def pg_New_def)
qed

lemma process_ok_reload:
  assumes "process_ok p" and "config_ok (app_MariaDB cfg)" "config_ok (app_Postgres cfg)"
  shows "process_ok (reload cfg p)"
proof -
  have m: "pools_ok (px_heap (mariadbProxy p)) (mariadbPools p)" "\<forall>a. pool_ok (ph_pool (px_heap (mariadbProxy p)) a)"
    and g: "pools_ok (pp_heap (pgProxy p)) (pgPools p)" "\<forall>a. pool_ok (ph_pool (pp_heap (pgProxy p)) a)"
    using assms(1) by (simp_all add: process_ok_def serves_def)
  show ?thesis
    using serves_reload [OF m assms(2)] serves_reload [OF g assms(3)] assms(1)
    by (simp add: process_ok_def reload_def UpdateConfig_def pg_UpdateConfig_def split: prod.splits)
qed

lemma running_ok: "running E lib env path p \<Longrightarrow> process_ok p"
proof (induction rule: running.induct)
  case (start sharded n p)
  then obtain cfg where "Configuration.Load (lib n) env path = Inr cfg"
    by (cases "Configuration.Load (lib n) env path") (simp_all add: main_start_def init_process_def)
  with start show ?case
    using process_ok_start Load_ok by metis
next
  case (signal p n sig p')
  then show ?case
    by (cases sig) (auto split: sum.splits dest!: Load_ok intro: process_ok_reload)
qed (simp_all add: process_ok_def serves_use)

section \<open>Properties\<close>


text \<open>An instance: a file with one backend for each protocol, an edited file with another primary, and one in which the
  backend has another name.\<close>

definition sample_file :: "string \<Rightarrow> string \<Rightarrow> section_list" where
  "sample_file name primary = [(''mariadb.'' @ name, [(''primary'', primary), (''databases'', ''app,shop'')]),
     (''postgres.main'', [(''primary'', ''p:1''), (''replicas'', ''q:1''), (''databases'', ''app'')])]"

definition sample_lib :: "nat \<Rightarrow> (section_list, string \<times> (string \<times> string) list) ini_lib" where
  "sample_lib n = sample_ini\<lparr>ini_Load := (\<lambda>_. Inr (if n = 0 then sample_file ''main'' ''a:1'' else if n = 1 then sample_file ''main'' ''b:1'' else sample_file ''other'' ''c:1''))\<rparr>"

definition sample_start :: start_env where
  "sample_start = \<lparr>sv_Open = (\<lambda>_ _. None), sv_Listen = (\<lambda>_ _. None), sv_prom = documented, sv_registered = []\<rparr>"

definition sample_config :: "nat \<Rightarrow> AppConfig" where
  "sample_config n = (case Configuration.Load (sample_lib n) (\<lambda>_. []) ''config.ini'' of Inr cfg \<Rightarrow> cfg)"

definition sample_process :: "(string \<times> bytes) list process" where
  "sample_process = (case main_start sample_start (\<lambda>_ _ _. Inr []) (Inr (sample_config 0)) of Inr p \<Rightarrow> p)"

lemma sample_loaded: "Configuration.Load (sample_lib n) (\<lambda>_. []) ''config.ini'' = Inr (sample_config n)"
  by (simp add: sample_config_def sample_lib_def Configuration.Load_def Let_def)

lemma sample_running: "running sample_start sample_lib (\<lambda>_. []) ''config.ini'' sample_process"
proof -
  have "case main_start sample_start (\<lambda>_ _ _. Inr ([] :: (string \<times> bytes) list)) (Inr (sample_config 0)) of Inl _ \<Rightarrow> False | Inr _ \<Rightarrow> True"
    by code_simp
  then have "main_start sample_start (\<lambda>_ _ _. Inr []) (Inr (sample_config 0)) = Inr sample_process"
    by (simp add: sample_process_def split: sum.splits)
  then show ?thesis
    by (intro running.start [of _ "\<lambda>_ _ _. Inr []" _ 0]) (simp add: sample_loaded)
qed

lemma sample_reloaded: "running sample_start sample_lib (\<lambda>_. []) ''config.ini'' (reload (sample_config n) sample_process)"
  by (rule running.signal [OF sample_running, where n = n and sig = SIGHUP]) (simp add: sample_loaded)


section \<open>The start\<close>

text \<open>A start succeeds exactly when the default backend is there and nothing outside fails; the write batch manager is
  started and connections are accepted on the addresses of the configuration.\<close>

lemma maria_Start_succeeds:
  "fst (maria_Start E p no_server) = None \<longleftrightarrow>
     (\<exists>a. mget (px_pools p) (pc_Default (px_config p)) = Some a \<and>
        sv_Open E ''mysql'' (maria_start_dsn (GetPrimary (ph_pool (px_heap p) a))) = None) \<and>
     sv_Listen E ''tcp'' (pc_Listen (px_config p)) = None \<and>
     (pc_Socket (px_config p) \<noteq> [] \<longrightarrow> sv_Listen E ''unix'' (pc_Socket (px_config p)) = None)"
  by (auto simp: maria_Start_def start_listeners_def Let_def split: option.splits prod.splits)

lemma maria_Start_listens:
  assumes "maria_Start E p no_server = (None, p', sv)"
  shows "px_writeBatch p' \<and> sv_writeBatch sv \<noteq> None \<and>
     sv_listeners sv = (''tcp'', pc_Listen (px_config p)) #
       (if pc_Socket (px_config p) = [] then [] else [(''unix'', pc_Socket (px_config p))])"
  using assms
  by (auto simp: maria_Start_def start_listeners_def no_server_def Let_def split: option.splits prod.splits if_splits)

text \<open>Only the start looks at the default backend: \<open>running\<close> does not keep it, as a reload may take it away.\<close>

lemma reload_drops_default:
  "\<exists>p. running sample_start sample_lib (\<lambda>_. []) ''config.ini'' (p :: (string \<times> bytes) list process) \<and>
     mget (px_pools (mariadbProxy p)) (pc_Default (px_config (mariadbProxy p))) = None"
proof (intro exI conjI)
  show "running sample_start sample_lib (\<lambda>_. []) ''config.ini'' (reload (sample_config 2) sample_process)"
    by (rule sample_reloaded)
  show "mget (px_pools (mariadbProxy (reload (sample_config 2) sample_process)))
     (pc_Default (px_config (mariadbProxy (reload (sample_config 2) sample_process)))) = None"
    by code_simp
qed

lemma signals_keep_servers:
  "on_signal loaded sig p = Some p' \<Longrightarrow> mariadbServer p' = mariadbServer p \<and> pgServer p' = pgServer p"
  by (cases sig) (auto simp: reload_def split: sum.splits prod.splits)

lemma maria_Start_database:
  "maria_Start E p sv = (None, p', sv') \<Longrightarrow> \<exists>addr. sv_db sv' = Some (maria_start_dsn addr)"
  by (auto simp: maria_Start_def Let_def split: option.splits prod.splits dest!: start_listeners_frame)

lemma pg_Start_database:
  "pg_Start E p sv = (None, p', sv') \<Longrightarrow> \<exists>addr. sv_db sv' = Some (pg_start_dsn addr)"
  by (auto simp: pg_Start_def Let_def split: option.splits prod.splits dest!: start_listeners_frame)

text \<open>
  The writes of all clients that are batched are executed on one database: with the user and in the schema
  \<open>tqdbproxy\<close>, on the primary that the default backend had at the start, whatever the database and the
  credentials of the client are, and also after a reload.
\<close>

lemma write_database_fixed:
  assumes "running E lib env path p"
  shows "(\<exists>addr. sv_db (mariadbServer p) = Some (maria_start_dsn addr)) \<and>
     (\<exists>addr. sv_db (pgServer p) = Some (pg_start_dsn addr))"
  using assms
proof (induction rule: running.induct)
  case (start sharded n p)
  then obtain cfg where "main_start E sharded (Inr cfg) = Inr p"
    by (cases "Configuration.Load (lib n) env path") (simp_all add: main_start_def init_process_def)
  then show ?case
    by (elim main_started) (auto dest: maria_Start_database pg_Start_database)
next
  case (signal p n sig p')
  then show ?case
    using signals_keep_servers by metis
qed simp_all

text \<open>An IPv6 address: the database of the write batch manager has the brackets in its name, the connections for clients do not.\<close>

lemma ipv6_start_dsn:
  "take 10 (pg_start_dsn ''[::1]:5432'') = ''host=[::1]''" "take 9 (pg_dsn ''[::1]:5432'' u w d) = ''host=::1 ''"
  by code_simp (simp add: pg_dsn_def SplitHostPort_def last_colon_def Let_def)

section \<open>Connection numbers\<close>

text \<open>The connections of a listener get consecutive numbers, which are different as long as the counter does not come round.\<close>

lemma maria_acceptLoop_ids:
  "fst (maria_acceptLoop n rs) =
     map (\<lambda>i. n + 1 + of_nat i) [0..<length (filter ((=) Accepted) (takeWhile ((\<noteq>) AcceptClosed) rs))]"
  by (induction n rs rule: maria_acceptLoop.induct)
    (simp_all add: map_upt_Suc case_prod_beta del: upt_Suc)

lemma pg_acceptLoop_ids:
  "fst (pg_acceptLoop n rs) = map (\<lambda>i. n + 1 + of_nat i) [0..<length (filter ((=) Accepted) rs)]"
  by (induction n rs rule: pg_acceptLoop.induct) (simp_all add: map_upt_Suc case_prod_beta del: upt_Suc)

lemma numbers_distinct:
  assumes "k \<le> 2 ^ 32"
  shows "distinct (map (\<lambda>i. n + 1 + of_nat i :: 32 word) [0..<k])"
proof -
  have "i = j" if "i < 2 ^ 32" "j < 2 ^ 32" "(of_nat i :: 32 word) = of_nat j" for i j
    using that by (simp add: word_unat_eq_iff unat_of_nat)
  with assms show ?thesis
    by (auto simp: distinct_map inj_on_def)
qed

lemma connection_numbers_distinct:
  "length (fst (maria_acceptLoop n rs)) \<le> 2 ^ 32 \<Longrightarrow> distinct (fst (maria_acceptLoop n rs))"
  "length (fst (pg_acceptLoop n rs)) \<le> 2 ^ 32 \<Longrightarrow> distinct (fst (pg_acceptLoop n rs))"
  unfolding maria_acceptLoop_ids pg_acceptLoop_ids length_map by (simp_all only: numbers_distinct length_upt diff_zero)

section \<open>Stopping\<close>

text \<open>After \<^verbatim>\<open>Stop\<close> nothing is accepted any more, the manager refuses requests, and the errors are those of the parts
  that could not be closed.\<close>

lemma maria_Stop_closes:
  assumes "maria_Stop cl cd sv = (errs, sv')"
  shows "sv_listeners sv' = []" "sv_db sv' = None" "sv_writeBatch sv' = Some (m, cfg) \<Longrightarrow> mgr_closed m"
    "set errs = {e. (\<exists>l \<in> set (sv_listeners sv). cl l = Some e) \<or> (\<exists>dsn. sv_db sv = Some dsn \<and> cd dsn = Some e)}"
  using assms
  by (simp_all add: maria_Stop_def Close_manager_def map_filter_def split: option.splits) (auto simp: image_iff, force+)

end
