(* ===== verification/Clients.thy ===== *)
theory Clients
  imports Parser
begin

text \<open>
  The Go client libraries, \<^verbatim>\<open>clients/go/mariadb/client.go\<close> and \<^verbatim>\<open>clients/go/postgres/client.go\<close>: a query is sent with a
  comment that tells the proxy how long to cache its result and where in the program the call is. The handle of
  \<^verbatim>\<open>database/sql\<close> is the record \<open>sql_handle\<close>, a parameter; \<^verbatim>\<open>runtime.Caller\<close> gives the file and the line of the call, or nothing.
  The property shows that the parser of the proxy reads back what the clients write.
\<close>

section \<open>The libraries\<close>

record ('a, 'r, 'w) sql_handle =
  sh_QueryContext :: "string \<Rightarrow> 'a list \<Rightarrow> 'r"
  sh_QueryRowContext :: "string \<Rightarrow> 'a list \<Rightarrow> 'w"

record 'd client_DB =
  client_db :: 'd

definition Wrap :: "'d \<Rightarrow> 'd client_DB" where
  "Wrap db = \<lparr>client_db = db\<rparr>"

definition Open_client :: "(string \<Rightarrow> string \<Rightarrow> 'e + 'd) \<Rightarrow> string \<Rightarrow> string \<Rightarrow> 'e + 'd client_DB" where
  "Open_client sql_Open driverName dataSourceName =
     (case sql_Open driverName dataSourceName of
        Inl err \<Rightarrow> Inl err
      | Inr db \<Rightarrow> Inr \<lparr>client_db = db\<rparr>)"

text \<open>\<^verbatim>\<open>filepath.Base\<close>: the last element of a path.\<close>

definition Base :: "string \<Rightarrow> string" where
  "Base path =
     (if path = [] then ''.''
      else let trimmed = rev (dropWhile (\<lambda>c. c = CHR ''/'') (rev path));
               last_part = rev (takeWhile (\<lambda>c. c \<noteq> CHR ''/'') (rev trimmed))
           in if last_part = [] then ''/'' else last_part)"

type_synonym caller = "(string \<times> int) option"

definition call_site :: "caller \<Rightarrow> string \<times> int" where
  "call_site caller = (case caller of None \<Rightarrow> (''unknown'', 0) | Some (file_path, line) \<Rightarrow> (Base file_path, line))"

definition hinted_query :: "caller \<Rightarrow> int \<Rightarrow> string \<Rightarrow> string" where
  "hinted_query caller ttl query =
     (let (file_name, line) = call_site caller;
          hint = ''/* ttl:'' @ Itoa ttl @ '' file:'' @ file_name @ '' line:'' @ Itoa line @ '' */''
      in hint @ '' '' @ query)"

definition QueryWithTTL :: "('a, 'r, 'w) sql_handle client_DB \<Rightarrow> caller \<Rightarrow> int \<Rightarrow> string \<Rightarrow> 'a list \<Rightarrow> 'r" where
  "QueryWithTTL db caller ttl query args = sh_QueryContext (client_db db) (hinted_query caller ttl query) args"

definition QueryRowWithTTL :: "('a, 'r, 'w) sql_handle client_DB \<Rightarrow> caller \<Rightarrow> int \<Rightarrow> string \<Rightarrow> 'a list \<Rightarrow> 'w" where
  "QueryRowWithTTL db caller ttl query args = sh_QueryRowContext (client_db db) (hinted_query caller ttl query) args"

text \<open>The library for PostgreSQL, with its own type and the same text.\<close>

record 'd pg_client_DB =
  pg_client_db :: 'd

definition pg_Wrap :: "'d \<Rightarrow> 'd pg_client_DB" where
  "pg_Wrap db = \<lparr>pg_client_db = db\<rparr>"

definition pg_Open_client :: "(string \<Rightarrow> string \<Rightarrow> 'e + 'd) \<Rightarrow> string \<Rightarrow> string \<Rightarrow> 'e + 'd pg_client_DB" where
  "pg_Open_client sql_Open driverName dataSourceName =
     (case sql_Open driverName dataSourceName of
        Inl err \<Rightarrow> Inl err
      | Inr db \<Rightarrow> Inr \<lparr>pg_client_db = db\<rparr>)"

definition pg_QueryWithTTL :: "('a, 'r, 'w) sql_handle pg_client_DB \<Rightarrow> caller \<Rightarrow> int \<Rightarrow> string \<Rightarrow> 'a list \<Rightarrow> 'r" where
  "pg_QueryWithTTL db caller ttl query args = sh_QueryContext (pg_client_db db) (hinted_query caller ttl query) args"

definition pg_QueryRowWithTTL :: "('a, 'r, 'w) sql_handle pg_client_DB \<Rightarrow> caller \<Rightarrow> int \<Rightarrow> string \<Rightarrow> 'a list \<Rightarrow> 'w" where
  "pg_QueryRowWithTTL db caller ttl query args = sh_QueryRowContext (pg_client_db db) (hinted_query caller ttl query) args"

section \<open>The hint\<close>

lemma Itoa_nonneg: "0 \<le> i \<Longrightarrow> Itoa i = nat_dec (nat i)"
  by (simp add: Itoa_def)

lemma hinted_query_comment:
  assumes "0 \<le> ttl" and "call_site caller = (f, line)" and "0 \<le> line"
  shows "hinted_query caller ttl query = hint_comment (Some (nat ttl)) (Some f) (Some (nat line)) None ('' '' @ query)"
  using assms by (simp add: hinted_query_def hint_comment_def opt_field_def Itoa_nonneg)

lemma num_field_simps: "0 \<le> i \<Longrightarrow> i \<le> max_int64 \<Longrightarrow> num_field (Some (nat i)) = i" "num_field None = 0"
  by (simp_all add: num_field_def)

lemma Contains_space: "Contains (CHR '' '' # s) ''/*'' = Contains s ''/*''"
  by (simp add: Contains_def)

text \<open>A handle that leads to the proxy: what the proxy reads of the statement that is sent to it.\<close>

definition proxy_end :: "('a, ParsedQuery \<times> 'a list, ParsedQuery \<times> 'a list) sql_handle" where
  "proxy_end = \<lparr>sh_QueryContext = (\<lambda>q args. (Parse q, args)), sh_QueryRowContext = (\<lambda>q args. (Parse q, args))\<rparr>"

section \<open>Properties\<close>

text \<open>C40: What both client libraries write in front of a query, the parser of the proxy reads back: the name of the file without its
  directories, the line, the TTL for a statement that is not a write, and the query as the program wrote it, without the
  comment, so that calls from different places share the cached result. The name of the file must not have spaces.\<close>

theorem client_hint_roundtrip:
  assumes "0 \<le> ttl" "ttl \<le> max_int64" and "call_site caller = (f, line)" and "file_ok f" and "0 \<le> line" "line \<le> max_int64"
    and "\<not> Contains query ''/*''"
  shows "\<exists>p. QueryWithTTL (Wrap proxy_end) caller ttl query args = (p, args) \<and>
      QueryRowWithTTL (Wrap proxy_end) caller ttl query args = (p, args) \<and>
      pg_QueryWithTTL (pg_Wrap proxy_end) caller ttl query args = (p, args) \<and>
      pg_QueryRowWithTTL (pg_Wrap proxy_end) caller ttl query args = (p, args) \<and>
      pq_File p = f \<and> pq_Line p = line \<and> pq_BatchMs p = 0 \<and> pq_TTL p = (if IsWritable p then 0 else ttl) \<and>
      pq_Query p = TrimSpace query"
proof -
  let ?p = "Parse (hint_comment (Some (nat ttl)) (Some f) (Some (nat line)) None ('' '' @ query))"
  have "QueryWithTTL (Wrap proxy_end) caller ttl query args = (?p, args)"
    "QueryRowWithTTL (Wrap proxy_end) caller ttl query args = (?p, args)"
    "pg_QueryWithTTL (pg_Wrap proxy_end) caller ttl query args = (?p, args)"
    "pg_QueryRowWithTTL (pg_Wrap proxy_end) caller ttl query args = (?p, args)"
    using assms(1,3,5)
    by (simp_all add: QueryWithTTL_def QueryRowWithTTL_def Wrap_def pg_QueryWithTTL_def pg_QueryRowWithTTL_def pg_Wrap_def
        proxy_end_def hinted_query_comment)
  moreover have "pq_File ?p = f" "pq_Line ?p = line" "pq_BatchMs ?p = 0" "pq_TTL ?p = (if IsWritable ?p then 0 else ttl)"
    "pq_Query ?p = TrimSpace query"
    using Parse_hint_fields [of "Some f" ?p "Some (nat ttl)" "Some (nat line)" None "'' '' @ query"] assms
    by (simp_all add: num_field_simps strip_hints_plain Contains_space is_space_def)
  ultimately show ?thesis
    by blast
qed

theorem client_hint_roundtrip_witness:
  "\<exists>p. QueryWithTTL (Wrap proxy_end) (Some (''/srv/app/main.go'', 42)) 60 ''SELECT 1'' [True] = (p, [True]) \<and>
     pq_File p = ''main.go'' \<and> pq_Line p = 42 \<and> pq_Query p = ''SELECT 1''"
proof -
  have "call_site (Some (''/srv/app/main.go'', 42)) = (''main.go'', 42)" and "file_ok ''main.go''"
    and "\<not> Contains ''SELECT 1'' ''/*''" and "TrimSpace ''SELECT 1'' = ''SELECT 1''"
    by code_simp+
  then show ?thesis
    using client_hint_roundtrip [of 60 "Some (''/srv/app/main.go'', 42)" "''main.go''" 42 "''SELECT 1''" "[True]"]
    by (auto simp: max_int64_def)
qed

text \<open>With a space in the name of the file the proxy does not take the comment for a hint: the result is not cached and the comment
  stays in the query. The same happens with a negative TTL.\<close>

lemma hint_with_space_lost:
  "\<not> IsCacheable (Parse (hinted_query (Some (''/srv/app/my main.go'', 42)) 60 ''SELECT 1''))"
  "pq_Query (Parse (hinted_query (Some (''/srv/app/my main.go'', 42)) 60 ''SELECT 1'')) =
     ''/* ttl:60 file:my main.go line:42 */ SELECT 1''"
  "pq_File (Parse (hinted_query (Some (''/srv/app/main.go'', 42)) (-1) ''SELECT 1'')) = []"
  by code_simp+

end
