(* ===== verification/Spec2Isabelle.thy ===== *)
theory Spec2Isabelle
  imports WB_Refinement Maria_Routing Maria_Helpers Pg_Answers Startup Clients
begin

text \<open>
  TQDBProxy is a proxy in front of MariaDB and PostgreSQL servers. A comment in front of a query (the hint) tells it to cache the
  result or to batch a write; the rest is forwarded. This development models the Go code of the proxy and proves what makes it
  correct; where the code does something else than it is meant to, a lemma shows it on an example or in general.

  \<^bold>\<open>The program.\<close> The process (\<^verbatim>\<open>cmd/tqdbproxy/main.go\<close>) loads the configuration (\<^verbatim>\<open>config\<close>), builds one pool of servers per
  backend (\<^verbatim>\<open>replica\<close>), one query cache (\<^verbatim>\<open>cache\<close>) and the two proxies (\<^verbatim>\<open>mariadb\<close>, \<^verbatim>\<open>postgres\<close>), and reloads the
  configuration on a signal. A proxy serves every client in a goroutine of its own: it parses each query (\<^verbatim>\<open>parser\<close>), looks it up in
  the cache, hands hinted writes to the write batch manager (\<^verbatim>\<open>writebatch\<close>), which executes equal statements of many clients
  together, or sends the query to the primary or a replica of the pool of the client's database. The goroutines share the cache,
  the pools and the manager, and record what they do for Prometheus (\<^verbatim>\<open>metrics\<close>).

  \<^bold>\<open>The theories\<close>, in the order of the imports:

  \<^item> \<open>Prelude\<close>: strings, maps, integers and runes of Go. \<open>Byte_Codec\<close>: integers and strings on the wire. \<open>Go_Monad\<close>: stateful
    code with errors and panics; \<open>steps R m\<close> says that \<open>m\<close> changes the state only as \<open>R\<close> allows, and the locale \<open>step_relation\<close> has
    the rules to prove it.
  \<^item> \<open>Regex\<close> and \<open>Parser\<close> (\<^verbatim>\<open>parser/parser.go\<close>): a matcher with the priorities of Go's \<^verbatim>\<open>regexp\<close>, the three patterns, \<open>Parse\<close>, and the
    predicates on a parsed query. A hint in the documented layout is read back.
  \<^item> \<open>Metrics\<close> (\<^verbatim>\<open>metrics/metrics.go\<close>): the metrics, their registration, and the labels and values that are recorded for a query.
    Labels that are refused panic, in the proxies and in the batches.
  \<^item> \<open>Replica\<close> (\<^verbatim>\<open>replica/pool.go\<close>): the pool and its methods, rounds of health checks, each in any order. The locale \<open>read_router\<close> is what the
    proxies rely on. \<open>GetReplica\<close> returns the first healthy replica from the index on and never panics.
  \<^item> \<open>Caching\<close> (\<^verbatim>\<open>cache/cache.go\<close>): the operations of the cache, and requests as a step relation at the grain of its atomic accesses.
    The locale \<open>single_flight\<close> is the table of flights. No flight is closed twice and a waiting request can be woken.
  \<^item> \<open>Configuration\<close> (\<^verbatim>\<open>config/config.go\<close>, \<^verbatim>\<open>initPools\<close> and \<^verbatim>\<open>updatePools\<close> of \<^verbatim>\<open>main.go\<close>): loading, and pools in a heap, as a
    reload changes the pools that connections use.
  \<^item> \<open>WB_Types\<close>, \<open>WB_SQL\<close>, \<open>WB_Executor\<close> (\<^verbatim>\<open>writebatch/types.go\<close>, \<^verbatim>\<open>errors.go\<close>, \<^verbatim>\<open>executor.go\<close>): the tests and
    rewritings of statements and all strategies for a batch. The locale \<open>batch_executor\<close> is the promise to the manager: every
    request is answered exactly once.
  \<^item> \<open>WB_Manager\<close>, \<open>WB_Delivery\<close>, \<open>WB_Origin\<close>, \<open>WB_Refinement\<close> (\<^verbatim>\<open>writebatch/manager.go\<close>, \<^verbatim>\<open>executeBatch\<close>): callers, timers and executors as steps over a
    heap of groups. In every interleaving no request is lost or answered twice, each can still be answered, and a result comes
    from a batch that contained the request and only requests with the same key. The locale \<open>forward_simulation\<close> carries the
    refinement: every run is one of an abstract batcher that holds calls and runs batches of them in the order of their submission.
  \<^item> \<open>Maria_Wire\<close>, \<open>Maria_Conn\<close>, \<open>Maria_Handlers\<close>, \<open>Maria_Steps\<close>, \<open>Maria_Session\<close> (\<^verbatim>\<open>mariadb/mariadb.go\<close>): packets and statement
    parameters, the state of a connection and its two streams, all commands, the loop, and the properties of whole sessions:
    routing, the invariant, flights, caching, termination. \<open>Maria_Routing\<close>: a session writes only to addresses of the pools.
    \<open>Maria_Helpers\<close>: methods that nothing calls.
  \<^item> \<open>Pg_Wire\<close>, \<open>Pg_Conn\<close>, \<open>Pg_Handlers\<close>, \<open>Pg_Steps\<close>, \<open>Pg_Session\<close>, \<open>Pg_Answers\<close> (\<^verbatim>\<open>postgres/postgres.go\<close>): the same for the
    PostgreSQL proxy: messages, simple and extended queries, the handshake, routing, database handles, complete answers.
  \<^item> \<open>Startup\<close> (\<^verbatim>\<open>main\<close>, \<^verbatim>\<open>Start\<close>, \<^verbatim>\<open>Stop\<close>, \<^verbatim>\<open>acceptLoop\<close>): the process and its states between the signals.
  \<^item> \<open>Clients\<close> (\<^verbatim>\<open>clients/go\<close>): the client libraries, whose hints the parser reads back.
  \<^item> This theory: properties of several components together: the cache that both protocols share, the way from the configuration file
    to the databases, the labels that a client chooses, and the way of a batched write.

  \<^bold>\<open>How the code is modelled.\<close> A struct is a record, with a prefix for its fields; a method is a function of the same name (with \<open>pg_\<close>,
  \<open>maria_\<close> or the name of the type where two would clash). A handler is a function in \<open>Go_Monad\<close> on the state of a
  connection; early returns, errors and panics are outcomes. The invariants of the connections are proved once for all
  handlers: the locales of \<open>Maria_Steps\<close> and \<open>Pg_Steps\<close> lift a relation from the elementary changes of the state to every
  handler and to the loop, and each property interprets them with its own relation. Concurrency is modelled where goroutines
  share data: atomic accesses and critical sections are single steps, in any order (\<open>Caching\<close>, \<open>WB_Manager\<close>, \<open>Replica\<close>,
  \<open>Startup\<close>). There is no fuel: the loops are structural, or have a measure, the bytes that are left.

  \<^bold>\<open>What is not in the repository\<close> is a parameter, a record of functions: the TQMemory store (\<open>tqmemory\<close>), the fork of the MySQL
  driver (\<open>mysql_lib\<close>, and \<open>menv\<close> for connections), \<^verbatim>\<open>database/sql\<close> with its drivers (\<open>sqldb\<close>, \<open>penv\<close>, \<open>sql_handle\<close>), the INI library
  (\<open>ini_lib\<close>), Prometheus (\<open>prometheus\<close>), SHA-1, the network (\<open>start_env\<close>, the error of a write). The calls of \<open>menv\<close> and \<open>penv\<close> are numbered, so that equal calls
  may differ. Hypotheses on them are documented behaviour: a store returns what was stored, the flag of a transaction is not zero,
  Prometheus accepts labels in valid UTF-8, one for every label of the metric. The
  proxies call the manager through \<open>me_Enqueue\<close> and \<open>pe_Enqueue\<close>, which stand for any result that it may give; \<open>batched_write_answered\<close>
  below puts the two together.

  \<^bold>\<open>Simplifications.\<close> Letters and spaces are those of ASCII. Contexts are never cancelled, as the proxies pass the background
  context. Durations are left out: a pending timer may fire at any time. A stream is the finite list of the bytes that the other side
  sends. The callback of a batch, which repeats an assignment, is left out in the proxies. \<^verbatim>\<open>make\<close> panics for a negative size and
  for one above \<open>2 ^ 48\<close>.

  \<^bold>\<open>Not modelled\<close>: logging; the HTTP server for the metrics, which only calls the library; the flags of the command, of which the path of
  the file is a parameter; the values of the metrics, which are durations and counts, and those that are recorded after a batch,
  whose labels are constants or were accepted before; the client libraries in other languages, the benchmarks and the tests.
\<close>

section \<open>One cache for two protocols\<close>

text \<open>C39: The proxies share one cache, and the key of a simple query is its text alone: after a MariaDB client was answered from its
  backend, a PostgreSQL client that sends the same query is sent the packets of the MariaDB response, unchanged, and no
  database is asked. The hypothesis on the store is that it returns what was stored as fresh; the labels of the query for the metrics are accepted.\<close>

theorem cached_across_protocols:
  assumes "fetch E lb q m c = (Ok (), t)" and "fetch_response E q c = (Ok (name, response), c1)" and "\<not> is_infile_request response"
    and "IsCacheable q" and "ttl_duration (pq_TTL q) > 0"
    and store: "\<forall>s key v ttl. ttl > 0 \<longrightarrow>
        (\<exists>s'. tq_Get (pe_tq F) (tq_Set (pe_tq F) s key v ttl) key = (s', Inr (Some v, FlagFresh)))"
    and shared: "me_tq E = pe_tq F" "pp_cache (pg_proxy d) = px_cache (cc_proxy t)" and "pe_write_error F (pg_tick d) = None"
    and "accepts_all (pe_prom F) (hit_calls (pg_labels q))"
  shows "\<exists>d'. pg_run_query F q d = (Ok (), d') \<and> pg_out d' = pg_out d @ response \<and> pg_sent d' = pg_sent d"
proof -
  obtain s where s: "cache_store (pp_cache (pg_proxy d)) = tq_Set (pe_tq F) s (pq_Query q) response (ttl_duration (pq_TTL q))"
    unfolding shared(2) shared(1) [symmetric] using fetch_stores [OF assms(1-5)] by blast
  obtain s' where "tq_Get (pe_tq F) (cache_store (pp_cache (pg_proxy d))) (pq_Query q) = (s', Inr (Some response, FlagFresh))"
    unfolding s using store [rule_format, OF assms(5), of s "pq_Query q" response] by blast
  then have "\<exists>ch. Get (pe_tq F) (pp_cache (pg_proxy d)) (pq_Query q) = (ch, Some response, FlagFresh, True)"
    by (simp add: Get_def)
  then obtain ch where g: "Get (pe_tq F) (pp_cache (pg_proxy d)) (pq_Query q) = (ch, Some response, FlagFresh, True)" ..
  show ?thesis
    using assms(4,9,10)
    by (simp add: pg_run_query_def pg_cached_answer_def pg_record_def pg_cache_def g flagged_answer_def cached_value_def pg_served_def pg_Write_def)
qed

theorem cached_across_protocols_witness:
  "\<exists>d'. pg_run_query pg_demo_env (Parse ''/* ttl:9 */ SELECT 1'')
       (pg_demo_conn\<lparr>pg_proxy := (pg_proxy pg_demo_conn)\<lparr>pp_cache :=
         px_cache (cc_proxy (snd (fetch demo_env demo_labels (Parse ''/* ttl:9 */ SELECT 1'') False demo_conn)))\<rparr>\<rparr>) = (Ok (), d') \<and>
     pg_out d' = ok_reply \<and> pg_sent d' = []"
proof -
  let ?q = "Parse ''/* ttl:9 */ SELECT 1''"
  let ?t = "snd (fetch demo_env demo_labels ?q False demo_conn)"
  let ?d = "pg_demo_conn\<lparr>pg_proxy := (pg_proxy pg_demo_conn)\<lparr>pp_cache := px_cache (cc_proxy ?t)\<rparr>\<rparr>"
  have run: "fst (fetch demo_env demo_labels ?q False demo_conn) = Ok ()"
    by code_simp
  have resp: "fst (fetch_response demo_env ?q demo_conn) = Ok (''replicas[0]'', ok_reply)"
    by code_simp
  have facts: "\<not> is_infile_request ok_reply" "IsCacheable ?q" "ttl_duration (pq_TTL ?q) > 0"
    by code_simp+
  have store: "\<forall>s key v ttl. ttl > 0 \<longrightarrow>
      (\<exists>s'. tq_Get (pe_tq pg_demo_env) (tq_Set (pe_tq pg_demo_env) s key v ttl) key = (s', Inr (Some v, FlagFresh)))"
    by (simp add: pg_demo_env_def demo_store_def)
  have start: "pg_out ?d = []" "pg_sent ?d = []"
    by (simp_all add: pg_demo_conn_def set_state_def pg_start_def)
  have f: "fetch demo_env demo_labels ?q False demo_conn = (Ok (), ?t)"
    using run by (simp add: prod_eq_iff)
  have r: "fetch_response demo_env ?q demo_conn = (Ok (''replicas[0]'', ok_reply), snd (fetch_response demo_env ?q demo_conn))"
    using resp by (simp add: prod_eq_iff)
  have l: "accepts_all (pe_prom pg_demo_env) (hit_calls (pg_labels ?q))"
    by code_simp
  have "\<exists>d'. pg_run_query pg_demo_env ?q ?d = (Ok (), d') \<and> pg_out d' = pg_out ?d @ ok_reply \<and> pg_sent d' = pg_sent ?d"
    by (rule cached_across_protocols [OF f r facts store _ _ _ l]) (simp_all add: demo_env_def pg_demo_env_def)
  then show ?thesis by (simp add: start)
qed

section \<open>From the file to the database\<close>

lemma healthy_replica: "pool_ok p \<Longrightarrow> IsHealthy p addr \<Longrightarrow> addr \<in> set (pool_replicas p)"
  by (auto simp: pool_ok_def IsHealthy_def dom_def split: option.splits)


definition app_client :: bytes where
  "app_client = startup_message [(''user'', ''u''), (''database'', ''app'')] @ encodeMessage msgPassword [0x77, 0] @
     query_message ''/* ttl:9 */ SELECT 1'' @ query_message ''DELETE FROM t'' @ encodeMessage msgTerminate []"




section \<open>Labels of clients\<close>

text \<open>C25: A query that is cacheable and whose hint names a file that is not valid UTF-8 ends the process: in both proxies the lookup in
  the cache is recorded with the file as a label, which Prometheus refuses by a panic that nothing recovers, before any byte is
  sent to the client or to a database. The file is what the client wrote in the hint.\<close>

theorem invalid_file_ends_process:
  assumes "IsCacheable q" and "\<not> valid_utf8 (pq_File q)" and "checks_labels (me_prom E)" and "checks_labels (pe_prom F)"
  shows "(\<exists>t. run_query E (query_labels original q) q moreResults c = (Panic InvalidLabel, t) \<and> cc_out t = cc_out c \<and> cc_sent t = cc_sent c) \<and>
    (\<exists>t. pg_run_query F q d = (Panic InvalidLabel, t) \<and> pg_out t = pg_out d \<and> pg_sent t = pg_sent d)"
proof
  have nb: "\<not> batches q c"
    using assms(1) by (auto simp: batches_def IsCacheable_def IsWritable_def)
  have refused: "\<not> accepts_all P (hit_calls lb)" "\<not> accepts_all P (miss_calls lb)"
    if "checks_labels P" "lb = query_labels original q \<or> lb = pg_labels q" for P lb
    using that lookup_accepted [OF that(1), of lb] assms(2) by auto
  obtain ch v f ok where g: "Get (me_tq E) (px_cache (cc_proxy c)) (pq_Query q) = (ch, v, f, ok)"
    by (metis prod_cases4)
  have "cached_answer E (query_labels original q) (pq_Query q) c = (Panic InvalidLabel, c\<lparr>cc_proxy := (cc_proxy c)\<lparr>px_cache := ch\<rparr>\<rparr>)"
    using refused [OF assms(3), of "query_labels original q"]
    by (cases "ok \<and> f = FlagFresh"; cases "ok \<and> f = FlagStale")
      (auto simp: cached_answer_def cache_Get_def set_cache_def record_calls_def g)
  then show "\<exists>t. run_query E (query_labels original q) q moreResults c = (Panic InvalidLabel, t) \<and> cc_out t = cc_out c \<and> cc_sent t = cc_sent c"
    using assms(1) nb by (simp add: run_query_def)
  obtain ch v f ok where g: "Get (pe_tq F) (pp_cache (pg_proxy d)) (pq_Query q) = (ch, v, f, ok)"
    by (metis prod_cases4)
  have "pg_cached_answer F q d = (Panic InvalidLabel, d\<lparr>pg_proxy := (pg_proxy d)\<lparr>pp_cache := ch\<rparr>\<rparr>)"
    using refused [OF assms(4), of "pg_labels q"]
    by (cases "flagged_answer (v, f, ok)") (simp_all add: pg_cached_answer_def pg_cache_def pg_record_def g)
  then show "\<exists>t. pg_run_query F q d = (Panic InvalidLabel, t) \<and> pg_out t = pg_out d \<and> pg_sent t = pg_sent d"
    using assms(1) by (simp add: pg_run_query_def)
qed

theorem invalid_file_ends_process_witness:
  "\<exists>t. pg_run_query pg_demo_env (Parse bad_file_query) pg_demo_conn = (Panic InvalidLabel, t) \<and> pg_out t = pg_out pg_demo_conn"
proof -
  have q: "IsCacheable (Parse bad_file_query)" "\<not> valid_utf8 (pq_File (Parse bad_file_query))"
    by code_simp+
  have p: "checks_labels (me_prom demo_env)" "checks_labels (pe_prom pg_demo_env)"
    by (simp_all add: demo_env_def pg_demo_env_def documented_rules)
  show ?thesis
    using invalid_file_ends_process [OF q p, of "Parse bad_file_query" False demo_conn pg_demo_conn] by blast
qed

section \<open>A batched write, from the client to the batch and back\<close>

text \<open>The call of \<open>Enqueue\<close> that the PostgreSQL proxy makes for a simple query.\<close>

definition pg_job :: "nat \<Rightarrow> ParsedQuery \<Rightarrow> job" where
  "pg_job i q = \<lparr>job_key = GetBatchKey q, job_batchMs = pq_BatchMs q, job_req =
     \<lparr>req_id = i, req_Query = pq_Query q, req_Params = [], req_callback = True, req_HasReturning = hasReturningClause (pq_Query q)\<rparr>\<rparr>"

definition pg_batch_answer :: "WriteResult \<Rightarrow> bytes" where
  "pg_batch_answer res =
     (case res_Error res of
        Some e \<Rightarrow> encodeMessage msgErrorResponse (error_payload ''ERROR'' ''42000'' e)
      | None \<Rightarrow> batch_response res) @ ready_message"

lemma batched_query_run:
  assumes "pg_batches q d" and "\<forall>n. pe_write_error F n = None"
    and "pe_Enqueue F (pg_tick d) (GetBatchKey q) (pq_Query q) [] (pq_BatchMs q) = res"
    and "accepts_all (pe_prom F) (batch_calls (pg_labels q))"
  shows "\<exists>d'. pg_run_query F q d = (Ok (), d') \<and> pg_out d' = pg_out d @ pg_batch_answer res \<and> pg_sent d' = pg_sent d"
proof -
  have "\<not> IsCacheable q"
    using assms(1) by (auto simp: pg_batches_def IsCacheable_def IsWritable_def)
  then show ?thesis
    using assms by (cases "res_Error res")
      (simp_all add: pg_run_query_def pg_uncached_def pg_batched_query_def pg_record_def Let_def write_run [OF assms(2)]
        pg_batch_answer_def note_batch_def pg_served_def)
qed

text \<open>C10: A write that is batched, through all components: the proxy parses the query, enqueues it, and answers the client with the result of
  the call. When the manager, in any interleaving with the calls of other clients, returns a result for this call, then the client is
  sent exactly this result as one complete answer, no database is asked directly, and the result comes from one batch that
  contained the query of the client and otherwise only the same query of other calls.\<close>

theorem batched_write_answered:
  assumes "mreach ops st cfg jobs m" and "jobs_ok st jobs" and "0 \<le> cfg_MaxBatchSize cfg"
    and keys: "\<forall>j. job_key (jobs j) = req_Query (job_req (jobs j))"
    and call: "jobs i = pg_job i q" "mgr_pc m i = RDone res"
    and "pg_batches q d" and "\<forall>n. pe_write_error F n = None"
    and "pe_Enqueue F (pg_tick d) (GetBatchKey q) (pq_Query q) [] (pq_BatchMs q) = res"
    and "accepts_all (pe_prom F) (batch_calls (pg_labels q))"
  shows "(\<exists>d'. pg_run_query F q d = (Ok (), d') \<and> pg_out d' = pg_out d @ pg_batch_answer res \<and> pg_sent d' = pg_sent d) \<and>
    (\<exists>x rs x' evs. run_batch ops st x rs = Inr (x', evs) \<and> (i, res) \<in> set (sent evs) \<and> job_req (pg_job i q) \<in> set rs \<and>
       (\<forall>r \<in> set rs. r = job_req (jobs (req_id r)) \<and> req_Query r = pq_Query q))"
proof -
  have "job_batchMs (jobs i) \<noteq> 0"
    using assms(7) call(1) by (auto simp: pg_batches_def IsBatchable_def pg_job_def)
  then have "from_batch ops st jobs i res"
    using reach_origin [OF assms(1-3)] call(2) by (simp add: origin_ok_def)
  then obtain x rs x' evs where b: "run_batch ops st x rs = Inr (x', evs)" "(i, res) \<in> set (sent evs)" "job_req (jobs i) \<in> set rs"
    "\<forall>r \<in> set rs. r = job_req (jobs (req_id r)) \<and> job_key (jobs (req_id r)) = job_key (jobs i)"
    by (rule from_batchE)
  have own: "job_req (pg_job i q) \<in> set rs"
    using b(3,4) call(1) by auto
  have "req_Query r = pq_Query q" if "r \<in> set rs" for r
    using b(4) that keys call(1) by (metis job.select_convs(1) pg_job_def GetBatchKey_def)
  with b own batched_query_run [OF assms(7-10)] show ?thesis
    by blast
qed

definition sample_write :: ParsedQuery where
  "sample_write = Parse ''/* batch:5 */ UPDATE t SET a = 1''"

theorem batched_write_answered_witness:
  "\<exists>m res d'. mreach log_db plain DefaultConfig (\<lambda>i. pg_job i sample_write) m \<and> mgr_pc m 0 = RDone res \<and>
     pg_run_query (pg_demo_env\<lparr>pe_Enqueue := (\<lambda>_ _ _ _ _. res)\<rparr>) sample_write (pg_demo_conn\<lparr>st_writeBatch := True\<rparr>) = (Ok (), d') \<and>
     pg_out d' = pg_batch_answer res"
proof -
  let ?jobs = "\<lambda>i. pg_job i sample_write" and ?d = "pg_demo_conn\<lparr>st_writeBatch := True\<rparr>"
  have q: "pq_BatchMs sample_write = 5" "pg_batches sample_write ?d" "\<not> isBatchableDelete (pq_Query sample_write)" "pg_out ?d = []"
    "valid_utf8 (truncateQuery (pq_Query sample_write) 50)" "accepts_all (pe_prom pg_demo_env) (batch_calls (pg_labels sample_write))"
    by code_simp+
  have c: "(0 :: int) \<le> cfg_MaxBatchSize DefaultConfig" and j: "jobs_ok plain ?jobs"
    and k: "\<forall>j. job_key (?jobs j) = req_Query (job_req (?jobs j))"
    using q(3,5) by (simp_all add: DefaultConfig_def jobs_ok_def pg_job_def GetBatchKey_def size_calls_accepted documented_rules plain_def)
  obtain m where m: "mrun log_db plain DefaultConfig ?jobs New_manager one_call = Some m" "mgr_pc m 0 = RWaiting"
    by (simp add: one_call_def demo_defs DefaultConfig_def pg_job_def q(1))
  have r: "mreach log_db plain DefaultConfig ?jobs m"
    by (rule mrun_reach [OF mreach.start m(1)])
  have "enqueued (mgr_pc m 0)"
    by (simp add: m(2))
  then obtain as m' res where m': "mrun log_db plain DefaultConfig ?jobs m as = Some m'" "mgr_pc m' 0 = RDone res"
    using ans_enqueued [OF j c mreach_minv [OF r j c], of 0] unfolding answerable_def by blast
  have r': "mreach log_db plain DefaultConfig ?jobs m'"
    by (rule mrun_reach [OF r m'(1)])
  have "\<exists>d'. pg_run_query (pg_demo_env\<lparr>pe_Enqueue := (\<lambda>_ _ _ _ _. res)\<rparr>) sample_write ?d = (Ok (), d') \<and>
      pg_out d' = pg_out ?d @ pg_batch_answer res \<and> pg_sent d' = pg_sent ?d"
    using batched_write_answered [OF r' j c k refl m'(2) q(2), of "pg_demo_env\<lparr>pe_Enqueue := (\<lambda>_ _ _ _ _. res)\<rparr>"] demo_writes q(6)
    by simp
  with r' m'(2) q(4) show ?thesis
    by auto
qed

end
